(* ===== verification/C_Prelude.thy ===== *)
theory C_Prelude
  imports Main "HOL-Library.Word" "HOL-Library.Monad_Syntax"
begin

text \<open>
  What every component of the compiler shares: the C types the sources use (signed
  \<open>char\<close>, C strings), undefined behaviour as \<open>None\<close>, an allocation budget for
  \<open>malloc\<close>/\<open>realloc\<close>, the parts of \<open>string.h\<close> and \<open>stdlib.h\<close> the sources call, and
  the generic lemmas and fact collections of the development.
\<close>

section \<open>Fact collections\<close>

named_theorems c_simps \<open>evaluation rules of the C primitives\<close>
named_theorems wf_intros \<open>well-formedness preserved by an operation\<close>

section \<open>Undefined behaviour\<close>

text \<open>
  A step that the C standard leaves undefined (an access outside an object, a read of
  uninitialised memory, a null dereference) has the value \<open>None\<close>; everything else is
  \<open>Some\<close>. Sequencing is \<^const>\<open>Option.bind\<close>, written with \<open>do\<close>.
\<close>

type_synonym 'a c = "'a option"

abbreviation UB :: "'a c" where
  "UB \<equiv> None"

definition c_assert :: "bool \<Rightarrow> unit c" where
  "c_assert b = (if b then Some () else UB)"

lemma c_assert_simps [simp, c_simps]:
  "c_assert True = Some ()"
  "c_assert False = None"
  by (simp_all add: c_assert_def)

lemma bind_Some_iff: "Option.bind x f = Some y \<longleftrightarrow> (\<exists>a. x = Some a \<and> f a = Some y)"
  by (cases x) simp_all

text \<open>
  Two predicates on outcomes, in the style of weakest preconditions: \<open>wlp P r\<close> says that
  \<open>r\<close> satisfies \<open>P\<close> if it is defined, \<open>wp P r\<close> says that it is defined and satisfies
  \<open>P\<close>. Their equations push them through the control structure of a definition.
\<close>

named_theorems wlp_simps \<open>partial correctness of the control structure\<close>
named_theorems wp_simps \<open>total correctness of the control structure\<close>

definition wlp :: "('a \<Rightarrow> bool) \<Rightarrow> 'a c \<Rightarrow> bool" where
  "wlp P r \<longleftrightarrow> (\<forall>x. r = Some x \<longrightarrow> P x)"

definition wp :: "('a \<Rightarrow> bool) \<Rightarrow> 'a c \<Rightarrow> bool" where
  "wp P r \<longleftrightarrow> (\<exists>x. r = Some x \<and> P x)"

lemma wlp_control [wlp_simps]:
  "wlp P (Some x) = P x"
  "wlp P None = True"
  "wlp P (Option.bind q f) = wlp (\<lambda>a. wlp P (f a)) q"
  "wlp P (if b then r else s) = ((b \<longrightarrow> wlp P r) \<and> (\<not> b \<longrightarrow> wlp P s))"
  by (auto simp: wlp_def bind_Some_iff)

lemma wlp_cases [wlp_simps]:
  "wlp P (case x of None \<Rightarrow> a | Some y \<Rightarrow> f y) = (case x of None \<Rightarrow> wlp P a | Some y \<Rightarrow> wlp P (f y))"
  "wlp P (case z of (u, v) \<Rightarrow> g u v) = (case z of (u, v) \<Rightarrow> wlp P (g u v))"
  by (simp_all split: option.split prod.split)

lemma wp_control [wp_simps]:
  "wp P (Some x) = P x"
  "wp P None = False"
  "wp P (Option.bind q f) = wp (\<lambda>a. wp P (f a)) q"
  "wp P (if b then r else s) = ((b \<longrightarrow> wp P r) \<and> (\<not> b \<longrightarrow> wp P s))"
  by (auto simp: wp_def bind_Some_iff)

lemma wp_cases [wp_simps]:
  "wp P (case x of None \<Rightarrow> a | Some y \<Rightarrow> f y) = (case x of None \<Rightarrow> wp P a | Some y \<Rightarrow> wp P (f y))"
  "wp P (case z of (u, v) \<Rightarrow> g u v) = (case z of (u, v) \<Rightarrow> wp P (g u v))"
  by (simp_all split: option.split prod.split)

lemma wlpD: "wlp P r \<Longrightarrow> r = Some x \<Longrightarrow> P x"
  by (simp add: wlp_def)

lemma wpD: "wp P r \<Longrightarrow> \<exists>x. r = Some x \<and> P x"
  by (simp add: wp_def)

lemma wlp_mono: "wlp P r \<Longrightarrow> (\<And>x. P x \<Longrightarrow> Q x) \<Longrightarrow> wlp Q r"
  by (auto simp: wlp_def)

lemma wp_mono: "wp P r \<Longrightarrow> (\<And>x. P x \<Longrightarrow> Q x) \<Longrightarrow> wp Q r"
  by (auto simp: wp_def)

section \<open>Characters\<close>

text \<open>
  A C \<open>char\<close> is one byte; it is signed on the platforms the project is built for, so a
  comparison such as \<open>c > 31\<close> reads the byte as a number between -128 and 127.
  \<open>EOF\<close> (-1) stored in a \<open>char\<close> is the byte 255.
\<close>

definition schar :: "char \<Rightarrow> int" where
  "schar c = (let n = of_char c in if n \<ge> 128 then n - 256 else n)"

abbreviation NUL :: char where "NUL \<equiv> CHR 0x00"
abbreviation NL :: char where "NL \<equiv> CHR 0x0A"
abbreviation EOF :: char where "EOF \<equiv> CHR 0xFF"

lemma schar_range: "-128 \<le> schar c \<and> schar c \<le> 127"
proof -
  have "(of_char c :: int) = of_char c mod 256" by simp
  then have "of_char c < (256::int)" "0 \<le> (of_char c :: int)"
    by (metis pos_mod_bound zero_less_numeral, metis pos_mod_sign zero_less_numeral)
  then show ?thesis by (auto simp: schar_def Let_def)
qed

lemma of_char_int_inj: "(of_char c :: int) = of_char d \<longleftrightarrow> c = d"
  by (simp add: of_char_eq_iff)

text \<open>
  The result of an arithmetic operation stored in a 64-bit \<open>size_t\<close>. The sizes of this
  program count bytes of memory, so they stay below \<open>2 ^ 64\<close>; only a difference below zero
  wraps around.
\<close>

definition to_size_t :: "int \<Rightarrow> nat" where
  "to_size_t i = (if 0 \<le> i then nat i else nat (i mod 2 ^ 64))"

lemma to_size_t_diff: "n \<le> m \<Longrightarrow> to_size_t (int m - int n) = m - n"
  by (simp add: to_size_t_def nat_diff_distrib)

lemma to_size_t_neg:
  assumes "- (2 ^ 64) \<le> i" "i < 0"
  shows "to_size_t i = nat (i + 2 ^ 64)"
proof -
  have "i mod 2 ^ 64 = (i + 2 ^ 64) mod 2 ^ 64" by simp
  also have "\<dots> = i + 2 ^ 64" using assms by (intro mod_pos_pos_trivial) simp_all
  finally show ?thesis using assms by (simp add: to_size_t_def)
qed

section \<open>The allocator\<close>

text \<open>
  Each call of \<open>malloc\<close> or \<open>realloc\<close> may fail. A budget says how many further calls
  succeed: \<open>None\<close> for an allocator that never fails, \<open>Some n\<close> for one that fails after
  \<open>n\<close> calls. Every finite run of the program up to its first failed allocation is a run
  under some budget.
\<close>

type_synonym budget = "nat option"

fun take_alloc :: "budget \<Rightarrow> bool \<times> budget" where
  "take_alloc None = (True, None)"
| "take_alloc (Some 0) = (False, Some 0)"
| "take_alloc (Some (Suc n)) = (True, Some n)"

section \<open>Memory blocks and C strings\<close>

text \<open>
  A block of bytes is a list; \<open>None\<close> is a byte that was never written. Writing outside
  the block is undefined, and so is reading an unwritten byte.
\<close>

type_synonym block = "char option list"

definition malloc_block :: "nat \<Rightarrow> block" where
  "malloc_block n = replicate n None"

definition realloc_block :: "nat \<Rightarrow> block \<Rightarrow> block" where
  "realloc_block n b = take n b @ replicate (n - length b) None"

definition store :: "block \<Rightarrow> nat \<Rightarrow> char \<Rightarrow> block c" where
  "store b i ch = (if i < length b then Some (b[i := Some ch]) else UB)"

definition load :: "block \<Rightarrow> nat \<Rightarrow> char c" where
  "load b i = (if i < length b then b ! i else UB)"

text \<open>The string a \<open>char*\<close> to the block's start denotes: the bytes up to the first NUL.\<close>

fun c_string :: "block \<Rightarrow> string c" where
  "c_string [] = UB"
| "c_string (None # b) = UB"
| "c_string (Some ch # b) = (if ch = NUL then Some [] else map_option ((#) ch) (c_string b))"

fun store_all :: "block \<Rightarrow> nat \<Rightarrow> string \<Rightarrow> block c" where
  "store_all b i [] = Some b"
| "store_all b i (ch # s) = do { b' \<leftarrow> store b i ch; store_all b' (Suc i) s }"

text \<open>\<open>strcpy(dst, src)\<close> and \<open>strcat(dst, src)\<close>, with \<open>src\<close> given by the string it denotes.\<close>

definition c_strcpy :: "block \<Rightarrow> string \<Rightarrow> block c" where
  "c_strcpy dst s = store_all dst 0 (s @ [NUL])"

definition c_strcat :: "block \<Rightarrow> string \<Rightarrow> block c" where
  "c_strcat dst s = do { d \<leftarrow> c_string dst; store_all dst (length d) (s @ [NUL]) }"

text \<open>
  The C string of a list of bytes that is followed by a NUL, and \<open>strcmp\<close> with its result
  reduced to its sign (bytes compare as \<open>unsigned char\<close>).
\<close>

definition cstr :: "string \<Rightarrow> string" where
  "cstr s = takeWhile (\<lambda>ch. ch \<noteq> NUL) s"

fun strcmp :: "string \<Rightarrow> string \<Rightarrow> int" where
  "strcmp [] [] = 0"
| "strcmp [] (d # ds) = -1"
| "strcmp (ch # cs) [] = 1"
| "strcmp (ch # cs) (d # ds) =
     (if ch = d then strcmp cs ds
      else if (of_char ch :: nat) < of_char d then -1 else 1)"

lemma strcmp_eq_0: "strcmp s t = 0 \<longleftrightarrow> s = t"
  by (induction s t rule: strcmp.induct) auto

lemma strcmp_antisym: "strcmp s t = - strcmp t s"
  by (induction s t rule: strcmp.induct) (auto simp: of_char_eq_iff linorder_neq_iff)

lemma cstr_no_NUL: "NUL \<notin> set s \<Longrightarrow> cstr s = s"
  by (auto simp: cstr_def takeWhile_eq_all_conv)

lemma cstr_Cons: "cstr (ch # s) = (if ch = NUL then [] else ch # cstr s)"
  by (simp add: cstr_def)

lemma NUL_notin_cstr [simp]: "NUL \<notin> set (cstr s)"
  by (auto simp: cstr_def dest: set_takeWhileD)

lemma cstr_idem [simp]: "cstr (cstr s) = cstr s"
  by (simp add: cstr_no_NUL)

section \<open>Lemmas about blocks\<close>

lemma length_realloc_block [simp]: "length (realloc_block n b) = n"
  by (simp add: realloc_block_def)

lemma length_malloc_block [simp]: "length (malloc_block n) = n"
  by (simp add: malloc_block_def)

lemma store_ok: "i < length b \<Longrightarrow> store b i ch = Some (b[i := Some ch])"
  by (simp add: store_def)

lemma take_realloc_block: "k \<le> n \<Longrightarrow> k \<le> length b \<Longrightarrow> take k (realloc_block n b) = take k b"
  by (simp add: realloc_block_def min_def)

lemma c_string_written:
  "b = map Some s @ Some NUL # r \<Longrightarrow> c_string b = Some (cstr s)"
  by (induction s arbitrary: b) (auto simp: cstr_def)

lemma store_all_ok:
  "i + length s \<le> length b \<Longrightarrow>
   store_all b i s = Some (take i b @ map Some s @ drop (i + length s) b)"
proof (induction s arbitrary: b i)
  case Nil
  then show ?case by simp
next
  case (Cons ch s)
  then have "store_all b i (ch # s) = store_all (b[i := Some ch]) (Suc i) s"
    by (simp add: store_ok)
  also have "\<dots> = Some (take (Suc i) (b[i := Some ch]) @ map Some s @
      drop (Suc i + length s) (b[i := Some ch]))"
    using Cons by simp
  also have "take (Suc i) (b[i := Some ch]) = take i b @ [Some ch]"
    using Cons.prems by (simp add: take_Suc_conv_app_nth)
  also have "drop (Suc i + length s) (b[i := Some ch]) = drop (i + length (ch # s)) b"
    by simp
  finally show ?case by simp
qed

end
