(* ===== verification/C_Numbers.thy ===== *)
theory C_Numbers
  imports C_Prelude
begin

text \<open>
  The number conversions of the C library the sources call: \<open>atoi\<close>, \<open>strtod\<close>/\<open>atof\<close> on
  decimal literals, and the \<open>%d\<close>, \<open>%u\<close> and \<open>%a\<close> conversions of \<open>printf\<close>. A \<open>double\<close> is
  an IEEE binary64 value; only non-negative ones occur, because a literal has no sign.
\<close>

section \<open>Decimal digits\<close>

definition is_dec :: "char \<Rightarrow> bool" where
  "is_dec ch \<longleftrightarrow> ch \<in> set ''0123456789''"

definition dec_val :: "char \<Rightarrow> nat" where
  "dec_val ch = of_char ch - 48"

definition dec_num :: "string \<Rightarrow> nat" where
  "dec_num s = foldl (\<lambda>n ch. 10 * n + dec_val ch) 0 s"

text \<open>\<open>atoi\<close> is \<open>(int) strtol\<close>: \<open>strtol\<close> saturates at \<open>LONG_MAX\<close>, the cast keeps 32 bits.\<close>

definition atoi :: "string \<Rightarrow> 32 word" where
  "atoi s = word_of_nat (min (dec_num (takeWhile is_dec s)) (2 ^ 63 - 1))"

text \<open>For evaluation: the bound as an integer.\<close>

lemma atoi_code [code]:
  "atoi s = word_of_int (min (int (dec_num (takeWhile is_dec s))) (2 ^ 63 - 1))"
proof -
  have "min (int n) (2 ^ 63 - 1) = int (min n (2 ^ 63 - 1))" for n
    by (simp add: of_nat_min)
  then show ?thesis by (simp add: atoi_def)
qed

text \<open>\<open>%u\<close> and \<open>%d\<close>.\<close>

fun dec_string :: "nat \<Rightarrow> string" where
  "dec_string n = (if n < 10 then [char_of (48 + n)]
                   else dec_string (n div 10) @ [char_of (48 + n mod 10)])"

declare dec_string.simps [simp del]

definition print_u :: "32 word \<Rightarrow> string" where
  "print_u w = dec_string (unat w)"

definition print_d :: "32 word \<Rightarrow> string" where
  "print_d w = (if sint w < 0 then ''-'' @ dec_string (nat (- sint w)) else dec_string (nat (sint w)))"

section \<open>Doubles\<close>

text \<open>\<open>Fin m e\<close> is \<open>m * 2 ^ e\<close>.\<close>

datatype c_double = Fin nat int | Inf

definition dbl_is_zero :: "c_double \<Rightarrow> bool" where
  "dbl_is_zero d = (case d of Fin m e \<Rightarrow> m = 0 | Inf \<Rightarrow> False)"

fun bit_length :: "nat \<Rightarrow> nat" where
  "bit_length n = (if n = 0 then 0 else Suc (bit_length (n div 2)))"

declare bit_length.simps [simp del]

text \<open>
  The fraction \<open>num / den\<close> rounded to 53 bits, ties to even: scaled by a power of two so
  that the quotient has 53 bits (fewer only below the normal range), then rounded.
\<close>

definition scale_ratio :: "nat \<Rightarrow> nat \<Rightarrow> int \<Rightarrow> nat \<times> nat" where
  "scale_ratio num den e =
     (if e \<ge> 0 then (num, den * 2 ^ nat e) else (num * 2 ^ nat (- e), den))"

definition round_even :: "nat \<Rightarrow> nat \<Rightarrow> nat" where
  "round_even n d = (let q = n div d; r = n mod d in
     if 2 * r > d \<or> 2 * r = d \<and> odd q then Suc q else q)"

definition round_ratio :: "nat \<Rightarrow> nat \<Rightarrow> c_double" where
  "round_ratio num den =
     (if num = 0 then Fin 0 0
      else
        let e0 = int (bit_length num) - int (bit_length den) - 53;
            (n0, d0) = scale_ratio num den e0;
            e1 = max (if n0 div d0 \<ge> 2 ^ 53 then e0 + 1 else e0) (- 1074);
            (n1, d1) = scale_ratio num den e1;
            q = round_even n1 d1;
            (m, e) = (if q = 2 ^ 53 then (2 ^ 52, e1 + 1) else (q, e1))
        in if e > 971 then Inf else Fin m e)"

text \<open>
  \<open>strtod\<close> on a decimal literal: digits, an optional fraction, an optional exponent that
  counts only when it has a digit. The result is the value and the unread rest.
\<close>

definition strtod_exponent :: "string \<Rightarrow> int \<times> string" where
  "strtod_exponent s =
     (case s of
        ch # s1 \<Rightarrow>
          if ch = CHR ''e'' \<or> ch = CHR ''E'' then
            let (neg, s2) = (case s1 of
                  d # s2 \<Rightarrow> if d = CHR ''-'' then (True, s2)
                            else if d = CHR ''+'' then (False, s2) else (False, s1)
                | [] \<Rightarrow> (False, s1));
                ds = takeWhile is_dec s2
            in if ds = [] then (0, s)
               else ((if neg then - int (dec_num ds) else int (dec_num ds)), dropWhile is_dec s2)
          else (0, s)
      | [] \<Rightarrow> (0, s))"

definition strtod :: "string \<Rightarrow> c_double \<times> string" where
  "strtod s =
     (let ip = takeWhile is_dec s;
          s1 = dropWhile is_dec s;
          (fp, s2) = (case s1 of
              ch # t \<Rightarrow> if ch = CHR ''.'' then (takeWhile is_dec t, dropWhile is_dec t) else ([], s1)
            | [] \<Rightarrow> ([], s1));
          (ex, s3) = strtod_exponent s2;
          k = ex - int (length fp);
          m = dec_num (ip @ fp)
      in if ip @ fp = [] then (Fin 0 0, s)
         else (if k \<ge> 0 then round_ratio (m * 10 ^ nat k) 1 else round_ratio m (10 ^ nat (- k)), s3))"

definition atof :: "string \<Rightarrow> c_double" where
  "atof s = fst (strtod s)"

text \<open>\<open>%a\<close>: one leading digit, the 52 fraction bits as hexadecimal without trailing zeros.\<close>

definition hex_digit :: "nat \<Rightarrow> char" where
  "hex_digit n = ''0123456789abcdef'' ! (n mod 16)"

fun hex_fixed :: "nat \<Rightarrow> nat \<Rightarrow> string" where
  "hex_fixed 0 n = []"
| "hex_fixed (Suc k) n = hex_fixed k (n div 16) @ [hex_digit n]"

definition strip_zeros :: "string \<Rightarrow> string" where
  "strip_zeros s = rev (dropWhile (\<lambda>ch. ch = CHR ''0'') (rev s))"

definition print_exp :: "int \<Rightarrow> string" where
  "print_exp e = ''p'' @ (if e < 0 then ''-'' @ dec_string (nat (- e)) else ''+'' @ dec_string (nat e))"

definition print_a :: "c_double \<Rightarrow> string" where
  "print_a d = (case d of
      Inf \<Rightarrow> ''inf''
    | Fin m e \<Rightarrow>
        if m = 0 then ''0x0p+0''
        else let frac = strip_zeros (hex_fixed 13 (m mod 2 ^ 52));
                 lead = (if m \<ge> 2 ^ 52 then ''0x1'' else ''0x0'');
                 ex = (if m \<ge> 2 ^ 52 then e + 52 else - 1022)
             in lead @ (if frac = [] then [] else ''.'' @ frac) @ print_exp ex)"

end
