(* ===== verification/Token.thy ===== *)
theory Token
  imports C_Numbers
begin

text \<open>
  The tokens of \<open>include/lexical_analyzer.h\<close>, the lexical analyser's tables of keywords and
  data types, and its debug printer \<open>print_token\<close>.
\<close>

section \<open>Error codes\<close>

text \<open>The constants of \<open>include/error.h\<close>; several names share a number, as there.\<close>

definition ERR_NO_ERR :: nat where "ERR_NO_ERR = 0"
definition ERR_LEXICAL :: nat where "ERR_LEXICAL = 1"
definition ERR_SYNTAX :: nat where "ERR_SYNTAX = 2"
definition ERR_UNDEFINED_FUNCTION :: nat where "ERR_UNDEFINED_FUNCTION = 3"
definition ERR_REDEFINING_VARIABLE :: nat where "ERR_REDEFINING_VARIABLE = 3"
definition ERR_RETURN_TYPE :: nat where "ERR_RETURN_TYPE = 4"
definition ERR_FUNCTION_PARAMETER :: nat where "ERR_FUNCTION_PARAMETER = 4"
definition ERR_UNDEFINED_VARIABLE :: nat where "ERR_UNDEFINED_VARIABLE = 5"
definition ERR_FUNCTION_RETURN :: nat where "ERR_FUNCTION_RETURN = 6"
definition ERR_INCOMPATIBILE_TYPE :: nat where "ERR_INCOMPATIBILE_TYPE = 7"
definition ERR_MISSING_TYPE :: nat where "ERR_MISSING_TYPE = 8"
definition ERR_SEMANTIC :: nat where "ERR_SEMANTIC = 9"
definition ERR_INTERNAL :: nat where "ERR_INTERNAL = 99"

lemmas error_codes =
  ERR_NO_ERR_def ERR_LEXICAL_def ERR_SYNTAX_def ERR_UNDEFINED_FUNCTION_def
  ERR_REDEFINING_VARIABLE_def ERR_RETURN_TYPE_def ERR_FUNCTION_PARAMETER_def
  ERR_UNDEFINED_VARIABLE_def ERR_FUNCTION_RETURN_def ERR_INCOMPATIBILE_TYPE_def
  ERR_MISSING_TYPE_def ERR_SEMANTIC_def ERR_INTERNAL_def

section \<open>Tokens\<close>

datatype token_type =
    TOKEN_UNDEFINED | TOKEN_EOF | TOKEN_UND_SCR | TOKEN_COMMA | TOKEN_LT | TOKEN_LEQ
  | TOKEN_GT | TOKEN_GEQ | TOKEN_NOT_NIL | TOKEN_NEQ | TOKEN_NIL_CHECK | TOKEN_ASS
  | TOKEN_EQ | TOKEN_COL | TOKEN_SEMICOL | TOKEN_R_BKT | TOKEN_L_BKT | TOKEN_R_PAR
  | TOKEN_L_PAR | TOKEN_ADD | TOKEN_SUB | TOKEN_RET_VAL | TOKEN_MUL | TOKEN_DIV
  | TOKEN_IDENTIFIER | TOKEN_DT_DOUBLE | TOKEN_DT_INT | TOKEN_DT_STRING | TOKEN_ELSE
  | TOKEN_FUNC | TOKEN_IF | TOKEN_LET | TOKEN_NIL | TOKEN_RETURN | TOKEN_VAR | TOKEN_WHILE
  | TOKEN_INT | TOKEN_DBL | TOKEN_STRING

text \<open>
  The union of values: the constructor is the member last written, \<open>V_unset\<close> before any
  write. A string value is the C string of the dynamic string that was stored, because the
  rest of the program reads such a value only through its \<open>str\<close> member.
\<close>

datatype token_value =
  V_unset | V_double c_double | V_int "32 word" | V_string string | V_nilable bool

record token =
  preceding_eol :: bool
  tok_type :: token_type
  tok_value :: token_value

text \<open>Reading a string member that does not hold a string is undefined.\<close>

definition tok_str :: "token \<Rightarrow> string c" where
  "tok_str t = (case tok_value t of V_string s \<Rightarrow> Some s | _ \<Rightarrow> UB)"

definition tok_nilable :: "token \<Rightarrow> bool c" where
  "tok_nilable t = (case tok_value t of V_nilable b \<Rightarrow> Some b | _ \<Rightarrow> UB)"

section \<open>Tables\<close>

definition keywords_arr :: "string list" where
  "keywords_arr = [''else'', ''func'', ''if'', ''let'', ''nil'', ''return'', ''var'', ''while'']"

definition keywords_tokens :: "token_type list" where
  "keywords_tokens = [TOKEN_ELSE, TOKEN_FUNC, TOKEN_IF, TOKEN_LET, TOKEN_NIL, TOKEN_RETURN,
     TOKEN_VAR, TOKEN_WHILE]"

definition data_types :: "string list" where
  "data_types = [''Double'', ''Int'', ''String'']"

definition data_types_tokens :: "token_type list" where
  "data_types_tokens = [TOKEN_DT_DOUBLE, TOKEN_DT_INT, TOKEN_DT_STRING]"

definition tokens :: "token_type list" where
  "tokens = [TOKEN_EOF, TOKEN_UND_SCR, TOKEN_COMMA, TOKEN_LT, TOKEN_LEQ, TOKEN_GT, TOKEN_GEQ,
     TOKEN_NOT_NIL, TOKEN_NEQ, TOKEN_NIL_CHECK, TOKEN_ASS, TOKEN_EQ, TOKEN_COL, TOKEN_SEMICOL,
     TOKEN_R_BKT, TOKEN_L_BKT, TOKEN_R_PAR, TOKEN_L_PAR, TOKEN_ADD, TOKEN_SUB, TOKEN_RET_VAL,
     TOKEN_MUL, TOKEN_DIV,
     TOKEN_IDENTIFIER, TOKEN_DT_DOUBLE, TOKEN_DT_INT, TOKEN_DT_STRING, TOKEN_ELSE, TOKEN_FUNC,
     TOKEN_IF, TOKEN_LET, TOKEN_NIL, TOKEN_RETURN, TOKEN_VAR, TOKEN_WHILE,
     TOKEN_INT, TOKEN_DBL, TOKEN_STRING]"

definition tokens_names :: "string list" where
  "tokens_names = [''<EOF>'', ''<UND_SCR>'', ''<COMMA>'', ''<LT>'', ''<LEQ>'', ''<GT>'', ''<GEQ>'',
     ''<NOT_NIL>'', ''<NEQ>'', ''<NIL_CHECK>'', ''<ASS>'', ''<EQ>'', ''<COL>'', ''<SEMICOL>'',
     ''<R_BKT>'', ''<L_BKT>'', ''<R_PAR>'', ''<L_PAR>'', ''<ADD>'', ''<SUB>'', ''<RET_VAL>'',
     ''<MUL>'', ''<DIV>'',
     ''<IDENTIFIER '', ''<DT_DOUBLE '', ''<DT_INT '', ''<DT_STRING '', ''<ELSE>'', ''<FUNC>'',
     ''<IF>'', ''<LET>'', ''<NIL>'', ''<RETURN>'', ''<VAR>'', ''<WHILE>'',
     ''<INT '', ''<DBL '', ''<STRING '']"

definition tokens_count :: nat where
  "tokens_count = 39"

section \<open>The debug printer\<close>

text \<open>\<open>%lf\<close>: six decimals of the exact value, ties to even.\<close>

fun dec_fixed :: "nat \<Rightarrow> nat \<Rightarrow> string" where
  "dec_fixed 0 n = []"
| "dec_fixed (Suc k) n = dec_fixed k (n div 10) @ [char_of (48 + n mod 10)]"

definition print_lf :: "c_double \<Rightarrow> string" where
  "print_lf d = (case d of
      Inf \<Rightarrow> ''inf''
    | Fin m e \<Rightarrow>
        (let n = (if e \<ge> 0 then m * 2 ^ nat e * 10 ^ 6 else round_even (m * 10 ^ 6) (2 ^ nat (- e)))
         in dec_string (n div 10 ^ 6) @ ''.'' @ dec_fixed 6 n))"

definition print_bool :: "bool \<Rightarrow> string" where
  "print_bool b = (if b then ''1'' else ''0'')"

definition print_token_at :: "nat \<Rightarrow> token \<Rightarrow> string c" where
  "print_token_at i t =
     (if i \<ge> length tokens then UB
      else if tok_type t = tokens ! i then do {
        let nl = (if preceding_eol t then [NL] else []);
        let name = tokens_names ! i;
        case tok_type t of
          TOKEN_STRING \<Rightarrow> do { s \<leftarrow> tok_str t; Some (nl @ name @ '' value='' @ [CHR 0x27] @ s @ [CHR 0x27] @ ''>'') }
        | TOKEN_INT \<Rightarrow> (case tok_value t of
              V_int w \<Rightarrow> Some (nl @ name @ '' value='' @ [CHR 0x27] @ print_d w @ [CHR 0x27] @ ''>'') | _ \<Rightarrow> UB)
        | TOKEN_DBL \<Rightarrow> (case tok_value t of
              V_double d \<Rightarrow> Some (nl @ name @ '' value='' @ [CHR 0x27] @ print_lf d @ [CHR 0x27] @ ''>'') | _ \<Rightarrow> UB)
        | TOKEN_IDENTIFIER \<Rightarrow> do { s \<leftarrow> tok_str t; Some (nl @ name @ '' value='' @ [CHR 0x27] @ s @ [CHR 0x27] @ ''>'') }
        | ty \<Rightarrow> if ty = TOKEN_DT_DOUBLE \<or> ty = TOKEN_DT_INT \<or> ty = TOKEN_DT_STRING
                then do { b \<leftarrow> tok_nilable t; Some (nl @ name @ '' nilable='' @ [CHR 0x27] @ print_bool b @ [CHR 0x27] @ ''>'') }
                else Some (nl @ name)
      }
      else Some [])"

fun print_token_loop :: "nat list \<Rightarrow> token \<Rightarrow> string c" where
  "print_token_loop [] t = Some []"
| "print_token_loop (i # js) t = do {
     a \<leftarrow> print_token_at i t;
     b \<leftarrow> print_token_loop js t;
     Some (a @ b)
   }"

definition print_token :: "token \<Rightarrow> string c" where
  "print_token t = print_token_loop [0..<tokens_count] t"

section \<open>Facts about the tables\<close>

lemma table_lengths:
  "length keywords_arr = 8" "length keywords_tokens = 8"
  "length data_types = 3" "length data_types_tokens = 3"
  "length tokens = 38" "length tokens_names = 38"
  by (simp_all add: keywords_arr_def keywords_tokens_def data_types_def data_types_tokens_def
      tokens_def tokens_names_def)

lemma print_token_loop_UB: "i \<in> set js \<Longrightarrow> length tokens \<le> i \<Longrightarrow> print_token_loop js t = UB"
proof (induction js)
  case Nil
  then show ?case by simp
next
  case (Cons j ks)
  then show ?case
    by (cases "j = i"; cases "print_token_at j t") (auto simp: print_token_at_def)
qed

end
