(* ===== verification/Dyn_String.thy ===== *)
theory Dyn_String
  imports C_Prelude
begin

text \<open>
  The dynamic string of \<open>src/dyn_string.c\<close>: a growable buffer with its used length and
  its allocated size. The operations are modelled on the bytes of the buffer, with the
  failure of \<open>malloc\<close>/\<open>realloc\<close> as a branch and an access outside the buffer as
  \<open>None\<close>. The second half states the contract as a locale over an abstract string and
  interprets it on these definitions.
\<close>

section \<open>The operations\<close>

definition DSTR_ALLOC_SIZE :: nat where
  "DSTR_ALLOC_SIZE = 8"

record dstring =
  ds_str :: block
  ds_length :: nat
  ds_alloc_size :: nat

text \<open>A failed \<open>realloc\<close> leaves \<open>str\<close> null: the empty block, which nothing may access.\<close>

definition dstring_clear :: "dstring \<Rightarrow> dstring c" where
  "dstring_clear d = do {
     let d = d\<lparr>ds_length := 0\<rparr>;
     s \<leftarrow> store (ds_str d) (ds_length d) NUL;
     Some (d\<lparr>ds_str := s\<rparr>)
   }"

definition dstring_init :: "dstring \<Rightarrow> budget \<Rightarrow> (bool \<times> dstring \<times> budget) c" where
  "dstring_init d m =
     (case take_alloc m of
        (False, m') \<Rightarrow> Some (False, d\<lparr>ds_str := []\<rparr>, m')
      | (True, m') \<Rightarrow> do {
          d' \<leftarrow> dstring_clear (d\<lparr>ds_str := malloc_block DSTR_ALLOC_SIZE,
                               ds_alloc_size := DSTR_ALLOC_SIZE\<rparr>);
          Some (True, d', m')
        })"

text \<open>Freed memory is the empty block: no later access is defined.\<close>

definition dstring_free :: "dstring \<Rightarrow> dstring c" where
  "dstring_free d = do {
     d' \<leftarrow> dstring_clear d;
     Some (d'\<lparr>ds_str := []\<rparr>)
   }"

definition dstring_append :: "dstring \<Rightarrow> char \<Rightarrow> budget \<Rightarrow> (bool \<times> dstring \<times> budget) c" where
  "dstring_append d ch m = do {
     let grow = ds_length d + 1 \<ge> ds_alloc_size d;
     let (ok, m') = (if grow then take_alloc m else (True, m));
     if \<not> ok then Some (False, d\<lparr>ds_str := []\<rparr>, m')
     else do {
       let d = (if grow
                then d\<lparr>ds_str := realloc_block (ds_length d + DSTR_ALLOC_SIZE) (ds_str d),
                       ds_alloc_size := ds_length d + DSTR_ALLOC_SIZE\<rparr>
                else d);
       s \<leftarrow> store (ds_str d) (ds_length d) ch;
       let d = d\<lparr>ds_str := s, ds_length := ds_length d + 1\<rparr>;
       s \<leftarrow> store (ds_str d) (ds_length d) NUL;
       Some (True, d\<lparr>ds_str := s\<rparr>, m')
     }
   }"

text \<open>The constant string is given by its characters, NUL-free; \<open>strlen\<close> is \<open>length\<close>.\<close>

definition dstring_add_const_str ::
  "dstring \<Rightarrow> string \<Rightarrow> budget \<Rightarrow> (bool \<times> dstring \<times> budget) c" where
  "dstring_add_const_str d cs m = do {
     let cstr_len = length cs;
     let grow = ds_length d + cstr_len + 1 \<ge> ds_alloc_size d;
     let new_size = ds_length d + cstr_len + 1;
     let (ok, m') = (if grow then take_alloc m else (True, m));
     if \<not> ok then Some (False, d\<lparr>ds_str := []\<rparr>, m')
     else do {
       let d = (if grow
                then d\<lparr>ds_str := realloc_block new_size (ds_str d), ds_alloc_size := new_size\<rparr>
                else d);
       let d = d\<lparr>ds_length := ds_length d + cstr_len\<rparr>;
       s \<leftarrow> c_strcat (ds_str d) cs;
       s \<leftarrow> store s (ds_length d) NUL;
       Some (True, d\<lparr>ds_str := s\<rparr>, m')
     }
   }"

definition dstring_copy :: "dstring \<Rightarrow> dstring \<Rightarrow> budget \<Rightarrow> (bool \<times> dstring \<times> budget) c" where
  "dstring_copy src dst m = do {
     let new_length = ds_length src;
     let grow = new_length \<ge> ds_alloc_size dst;
     let (ok, m') = (if grow then take_alloc m else (True, m));
     if \<not> ok then Some (False, dst\<lparr>ds_str := []\<rparr>, m')
     else do {
       let dst = (if grow
                  then dst\<lparr>ds_str := realloc_block (new_length + 1) (ds_str dst),
                           ds_alloc_size := new_length + 1\<rparr>
                  else dst);
       t \<leftarrow> c_string (ds_str src);
       s \<leftarrow> c_strcpy (ds_str dst) t;
       Some (True, dst\<lparr>ds_str := s, ds_length := new_length\<rparr>, m')
     }
   }"

definition dstring_cmp_const_str :: "dstring \<Rightarrow> string \<Rightarrow> int c" where
  "dstring_cmp_const_str d cs = do { s \<leftarrow> c_string (ds_str d); Some (strcmp s cs) }"

definition dstring_cmp_str :: "dstring \<Rightarrow> string \<Rightarrow> int c" where
  "dstring_cmp_str d cs = do { s \<leftarrow> c_string (ds_str d); Some (strcmp s cs) }"

definition dstring_cmp :: "dstring \<Rightarrow> dstring \<Rightarrow> int c" where
  "dstring_cmp d1 d2 = do {
     s \<leftarrow> c_string (ds_str d1);
     t \<leftarrow> c_string (ds_str d2);
     Some (strcmp s t)
   }"

text \<open>
  \<open>dstring_to_str\<close> hands out the buffer itself; \<open>dstring_retract\<close> subtracts an \<open>int\<close>
  from a 64-bit \<open>size_t\<close>.
\<close>

definition dstring_to_str :: "dstring \<Rightarrow> block" where
  "dstring_to_str d = ds_str d"

definition dstring_retract :: "dstring \<Rightarrow> int \<Rightarrow> dstring c" where
  "dstring_retract d count = do {
     let d = d\<lparr>ds_length := to_size_t (int (ds_length d) - count)\<rparr>;
     s \<leftarrow> store (ds_str d) (ds_length d) NUL;
     Some (d\<lparr>ds_str := s\<rparr>)
   }"

section \<open>Well-formed strings and their contents\<close>

text \<open>
  The representation invariant: the buffer has the recorded size, the used part is
  written, there is room for the terminator and it is in place. The content is the used
  part, read without the option.
\<close>

definition ds_abs :: "dstring \<Rightarrow> string" where
  "ds_abs d = map the (take (ds_length d) (ds_str d))"

definition ds_wf :: "dstring \<Rightarrow> bool" where
  "ds_wf d \<longleftrightarrow> (\<exists>r. ds_str d = map Some (ds_abs d) @ Some NUL # r) \<and>
     length (ds_str d) = ds_alloc_size d \<and> length (ds_abs d) = ds_length d"

lemma ds_wfI:
  assumes "ds_str d = map Some s @ Some NUL # r" "ds_length d = length s"
    "ds_alloc_size d = length s + 1 + length r"
  shows "ds_wf d" and "ds_abs d = s"
proof -
  show abs: "ds_abs d = s" using assms by (simp add: ds_abs_def comp_def)
  show "ds_wf d" using assms by (auto simp: ds_wf_def abs)
qed

lemma ds_wfE:
  assumes "ds_wf d"
  obtains r where "ds_str d = map Some (ds_abs d) @ Some NUL # r"
    "ds_length d = length (ds_abs d)" "ds_alloc_size d = length (ds_abs d) + 1 + length r"
proof -
  from assms obtain r where r: "ds_str d = map Some (ds_abs d) @ Some NUL # r"
    and l: "length (ds_str d) = ds_alloc_size d" "length (ds_abs d) = ds_length d"
    by (auto simp: ds_wf_def)
  from l(1) have "ds_alloc_size d = length (ds_abs d) + 1 + length r" by (simp add: r)
  with r l(2) that show ?thesis by simp
qed

lemma ds_wf_lessD: "ds_wf d \<Longrightarrow> ds_length d < ds_alloc_size d"
  by (elim ds_wfE) simp

lemma ds_wf_c_string: "ds_wf d \<Longrightarrow> c_string (ds_str d) = Some (cstr (ds_abs d))"
  by (elim ds_wfE) (rule c_string_written)

lemma store_at: "store (xs @ y # ys) (length xs) ch = Some (xs @ Some ch # ys)"
  by (simp add: store_def)

lemma store_at':
  "n = length xs \<Longrightarrow> store (xs @ y # ys) n ch = Some (xs @ Some ch # ys)"
  by (simp add: store_at)

section \<open>What the operations do on well-formed strings\<close>

text \<open>
  The outcome shared by the allocating operations: they always return; on success the
  result is well formed with the content \<open>s\<close>; an allocator that never fails makes them
  succeed.
\<close>

definition ds_result :: "budget \<Rightarrow> string \<Rightarrow> (bool \<times> dstring \<times> budget) c \<Rightarrow> bool" where
  "ds_result m s r \<longleftrightarrow> (\<exists>ok d' m'. r = Some (ok, d', m') \<and>
     (ok \<longrightarrow> ds_wf d' \<and> ds_abs d' = s) \<and> (m = None \<longrightarrow> ok \<and> m' = None))"

lemma ds_resultE:
  assumes "ds_result m s r"
  obtains (ok) d' m' where "r = Some (True, d', m')" "ds_wf d'" "ds_abs d' = s" "m = None \<Longrightarrow> m' = None"
  | (fail) d' m' where "r = Some (False, d', m')" "m \<noteq> None"
  using assms by (force simp: ds_result_def)

lemma take_alloc_None: "take_alloc m = (ok, m') \<Longrightarrow> m = None \<Longrightarrow> ok \<and> m' = None"
  by simp

lemma realloc_block_append:
  "length xs \<le> n \<Longrightarrow> realloc_block n (xs @ ys) = xs @ realloc_block (n - length xs) ys"
  by (simp add: realloc_block_def)

lemma realloc_block_Cons:
  "realloc_block (Suc n) (y # ys) = y # realloc_block n ys"
  by (simp add: realloc_block_def)

lemma realloc_block_Nil: "realloc_block n [] = replicate n None"
  by (simp add: realloc_block_def)

lemma dstring_clear_wf:
  assumes "ds_wf d"
  obtains d' where "dstring_clear d = Some d'" "ds_wf d'" "ds_abs d' = []"
proof -
  have "length (ds_str d) = ds_alloc_size d" "ds_alloc_size d > 0"
    using assms ds_wf_lessD [OF assms] by (auto simp: ds_wf_def)
  then obtain y ys where y: "ds_str d = y # ys" and a: "ds_alloc_size d = Suc (length ys)"
    by (cases "ds_str d") auto
  let ?d = "d\<lparr>ds_length := 0, ds_str := Some NUL # ys\<rparr>"
  have "dstring_clear d = Some ?d"
    by (simp add: dstring_clear_def y store_def)
  moreover have "ds_wf ?d" "ds_abs ?d = []"
    using ds_wfI [of ?d "[]" ys] by (simp_all add: a)
  ultimately show ?thesis using that by blast
qed

lemma dstring_init_result: "ds_result m [] (dstring_init d m)"
proof (cases "take_alloc m")
  case (Pair ok m')
  let ?d = "d\<lparr>ds_str := Some NUL # replicate 7 None, ds_alloc_size := 8, ds_length := 0\<rparr>"
  have "ds_wf ?d" "ds_abs ?d = []"
    using ds_wfI [of ?d "[]" "replicate 7 None"] by simp_all
  moreover have "dstring_init d m = (if ok then Some (True, ?d, m')
      else Some (False, d\<lparr>ds_str := []\<rparr>, m'))"
    by (cases ok) (simp_all add: dstring_init_def Pair dstring_clear_def store_def
      malloc_block_def DSTR_ALLOC_SIZE_def numeral_eq_Suc)
  ultimately show ?thesis
    using take_alloc_None [OF Pair] by (cases ok) (auto simp: ds_result_def)
qed

text \<open>Growing the buffer keeps the string and makes room behind the terminator.\<close>

definition ds_grow :: "nat \<Rightarrow> dstring \<Rightarrow> dstring" where
  "ds_grow n d = d\<lparr>ds_str := realloc_block n (ds_str d), ds_alloc_size := n\<rparr>"

lemma ds_grow_wf:
  assumes "ds_wf d" "ds_length d < n"
  shows "ds_wf (ds_grow n d)" and "ds_abs (ds_grow n d) = ds_abs d"
    and "ds_length (ds_grow n d) = ds_length d" and "ds_alloc_size (ds_grow n d) = n"
proof -
  from assms(1) obtain r where r: "ds_str d = map Some (ds_abs d) @ Some NUL # r"
    and l: "ds_length d = length (ds_abs d)" by (elim ds_wfE)
  let ?k = "n - length (ds_abs d) - 1"
  have n: "n - length (ds_abs d) = Suc ?k" using assms(2) l by simp
  have "realloc_block n (ds_str d) =
      map Some (ds_abs d) @ realloc_block (Suc ?k) (Some NUL # r)"
    using assms(2) l n unfolding r by (simp add: realloc_block_append)
  then have "ds_str (ds_grow n d) = map Some (ds_abs d) @ Some NUL # realloc_block ?k r"
    by (simp add: ds_grow_def realloc_block_Cons)
  moreover have "n = length (ds_abs d) + 1 + length (realloc_block ?k r)"
    using n assms(2) l by simp
  ultimately show "ds_wf (ds_grow n d)" "ds_abs (ds_grow n d) = ds_abs d"
    using ds_wfI [of "ds_grow n d" "ds_abs d" "realloc_block ?k r"] l
    by (simp_all add: ds_grow_def)
qed (simp_all add: ds_grow_def)

lemma ds_room:
  assumes "ds_wf d" "ds_length d + k < ds_alloc_size d"
  obtains a b where "ds_str d = map Some (ds_abs d) @ Some NUL # a @ b" "length a = k"
    "ds_length d = length (ds_abs d)" "ds_alloc_size d = length (ds_abs d) + 1 + k + length b"
proof -
  from assms(1) obtain r where r: "ds_str d = map Some (ds_abs d) @ Some NUL # r"
    and l: "ds_length d = length (ds_abs d)"
    and a: "ds_alloc_size d = length (ds_abs d) + 1 + length r" by (elim ds_wfE)
  show ?thesis
    by (rule that [of "take k r" "drop k r"]) (use assms(2) r l a in simp_all)
qed

text \<open>Writing a string and a terminator where the old terminator was.\<close>

lemma ds_write:
  assumes "ds_wf d" "ds_length d + length cs < ds_alloc_size d"
  obtains b where
    "store_all (ds_str d) (length (ds_abs d)) (cs @ [NUL]) =
       Some (map Some (ds_abs d @ cs) @ Some NUL # b)"
    "ds_alloc_size d = length (ds_abs d @ cs) + 1 + length b"
    "ds_length d = length (ds_abs d)"
proof -
  from assms obtain a b where s: "ds_str d = map Some (ds_abs d) @ Some NUL # a @ b"
    and a: "length a = length cs" and l: "ds_length d = length (ds_abs d)"
    and z: "ds_alloc_size d = length (ds_abs d) + 1 + length cs + length b"
    by (rule ds_room)
  have "store_all (ds_str d) (length (ds_abs d)) (cs @ [NUL]) =
      Some (take (length (ds_abs d)) (ds_str d) @ map Some (cs @ [NUL]) @
        drop (length (ds_abs d) + length (cs @ [NUL])) (ds_str d))"
    by (rule store_all_ok) (simp add: s a)
  then have "store_all (ds_str d) (length (ds_abs d)) (cs @ [NUL]) =
      Some (map Some (ds_abs d @ cs) @ Some NUL # b)"
    by (simp add: s a drop_Cons')
  with z l that show ?thesis by simp
qed

lemma ds_append_room:
  assumes "ds_wf d" "ds_length d + 1 < ds_alloc_size d"
  obtains d' where "ds_wf d'" "ds_abs d' = ds_abs d @ [ch]"
    "do { s \<leftarrow> store (ds_str d) (ds_length d) ch;
          let d = d\<lparr>ds_str := s, ds_length := ds_length d + 1\<rparr>;
          s \<leftarrow> store (ds_str d) (ds_length d) NUL;
          Some (True, d\<lparr>ds_str := s\<rparr>, m) } = Some (True, d', m :: budget)"
proof -
  obtain b where w: "store_all (ds_str d) (length (ds_abs d)) ([ch] @ [NUL]) =
        Some (map Some (ds_abs d @ [ch]) @ Some NUL # b)"
    and z: "ds_alloc_size d = length (ds_abs d @ [ch]) + 1 + length b"
    and l: "ds_length d = length (ds_abs d)"
    by (rule ds_write [of d "[ch]"]) (use assms in simp_all)
  let ?d = "d\<lparr>ds_str := map Some (ds_abs d @ [ch]) @ Some NUL # b, ds_length := ds_length d + 1\<rparr>"
  have "ds_wf ?d" "ds_abs ?d = ds_abs d @ [ch]"
    using ds_wfI [of ?d "ds_abs d @ [ch]" b] by (simp_all add: l z)
  with w that [of ?d] show ?thesis
    by (auto simp: bind_Some_iff l)
qed

lemma dstring_append_result:
  assumes "ds_wf d"
  shows "ds_result m (ds_abs d @ [ch]) (dstring_append d ch m)"
proof (cases "ds_length d + 1 \<ge> ds_alloc_size d")
  case False
  then have "ds_length d + 1 < ds_alloc_size d" by simp
  from ds_append_room [OF assms this, of ch m] obtain d' where
    "dstring_append d ch m = Some (True, d', m)" "ds_wf d'" "ds_abs d' = ds_abs d @ [ch]"
    using False by (auto simp: dstring_append_def Let_def)
  then show ?thesis by (auto simp: ds_result_def)
next
  case True
  obtain ok m' where am: "take_alloc m = (ok, m')" by fastforce
  let ?g = "ds_grow (ds_length d + DSTR_ALLOC_SIZE) d"
  have less: "ds_length d < ds_length d + DSTR_ALLOC_SIZE" by (simp add: DSTR_ALLOC_SIZE_def)
  have "ds_length ?g + 1 < ds_alloc_size ?g"
    unfolding ds_grow_wf [OF assms less] by (simp add: DSTR_ALLOC_SIZE_def)
  from ds_append_room [OF ds_grow_wf(1) [OF assms less] this, of ch m'] obtain d' where
    "ds_wf d'" "ds_abs d' = ds_abs d @ [ch]"
    "ok \<Longrightarrow> dstring_append d ch m = Some (True, d', m')"
    using True am
    by (auto simp: dstring_append_def Let_def ds_grow_wf [OF assms less] simp flip: ds_grow_def)
  moreover have "\<not> ok \<Longrightarrow> dstring_append d ch m = Some (False, d\<lparr>ds_str := []\<rparr>, m')"
    using True am by (simp add: dstring_append_def Let_def)
  ultimately show ?thesis
    using take_alloc_None [OF am] by (cases ok) (auto simp: ds_result_def)
qed

lemma ds_add_room:
  assumes "ds_wf d" "ds_length d + length cs < ds_alloc_size d" "NUL \<notin> set (ds_abs d)"
  obtains d' where "ds_wf d'" "ds_abs d' = ds_abs d @ cs"
    "do { let d = d\<lparr>ds_length := ds_length d + length cs\<rparr>;
          s \<leftarrow> c_strcat (ds_str d) cs;
          s \<leftarrow> store s (ds_length d) NUL;
          Some (True, d\<lparr>ds_str := s\<rparr>, m) } = Some (True, d', m :: budget)"
proof -
  obtain b where w: "store_all (ds_str d) (length (ds_abs d)) (cs @ [NUL]) =
        Some (map Some (ds_abs d @ cs) @ Some NUL # b)"
    and z: "ds_alloc_size d = length (ds_abs d @ cs) + 1 + length b"
    and l: "ds_length d = length (ds_abs d)"
    by (rule ds_write [OF assms(1,2)])
  let ?d = "d\<lparr>ds_str := map Some (ds_abs d @ cs) @ Some NUL # b,
    ds_length := ds_length d + length cs\<rparr>"
  have "c_strcat (ds_str d) cs = Some (map Some (ds_abs d @ cs) @ Some NUL # b)"
    using w by (simp add: c_strcat_def ds_wf_c_string [OF assms(1)] cstr_no_NUL [OF assms(3)])
  moreover have "store (map Some (ds_abs d @ cs) @ Some NUL # b) (ds_length d + length cs) NUL =
      Some (map Some (ds_abs d @ cs) @ Some NUL # b)"
    by (rule store_at') (simp add: l)
  moreover have "ds_wf ?d" "ds_abs ?d = ds_abs d @ cs"
    using ds_wfI [of ?d "ds_abs d @ cs" b] by (simp_all add: l z)
  ultimately show ?thesis using that [of ?d] by simp
qed

lemma dstring_add_const_str_result:
  assumes "ds_wf d" "NUL \<notin> set (ds_abs d)"
  shows "ds_result m (ds_abs d @ cs) (dstring_add_const_str d cs m)"
proof (cases "ds_length d + length cs + 1 \<ge> ds_alloc_size d")
  case False
  then have "ds_length d + length cs < ds_alloc_size d" by simp
  from ds_add_room [OF assms(1) this assms(2), of m] obtain d' where
    "dstring_add_const_str d cs m = Some (True, d', m)" "ds_wf d'" "ds_abs d' = ds_abs d @ cs"
    using False by (auto simp: dstring_add_const_str_def Let_def)
  then show ?thesis by (auto simp: ds_result_def)
next
  case True
  obtain ok m' where am: "take_alloc m = (ok, m')" by fastforce
  let ?g = "ds_grow (ds_length d + length cs + 1) d"
  have less: "ds_length d < ds_length d + length cs + 1" by simp
  note g = ds_grow_wf [OF assms(1) less]
  have "ds_length ?g + length cs < ds_alloc_size ?g"
    unfolding g by simp
  moreover have "NUL \<notin> set (ds_abs ?g)" unfolding g by (rule assms(2))
  ultimately obtain d' where wf: "ds_wf d'" and ab: "ds_abs d' = ds_abs ?g @ cs"
    and eq: "do { let d = ?g\<lparr>ds_length := ds_length ?g + length cs\<rparr>;
        s \<leftarrow> c_strcat (ds_str d) cs;
        s \<leftarrow> store s (ds_length d) NUL;
        Some (True, d\<lparr>ds_str := s\<rparr>, m') } = Some (True, d', m')"
    by (rule ds_add_room [OF g(1)])
  from ab have "ds_abs d' = ds_abs d @ cs" unfolding g .
  moreover have "ok \<Longrightarrow> dstring_add_const_str d cs m = Some (True, d', m')"
    using True am eq by (simp add: dstring_add_const_str_def Let_def ds_grow_def)
  moreover note wf
  moreover have "\<not> ok \<Longrightarrow> dstring_add_const_str d cs m = Some (False, d\<lparr>ds_str := []\<rparr>, m')"
    using True am by (simp add: dstring_add_const_str_def Let_def)
  ultimately show ?thesis
    using take_alloc_None [OF am] by (cases ok) (auto simp: ds_result_def)
qed

text \<open>
  \<open>dstring_copy\<close> overwrites from the buffer's start; \<open>strcpy\<close> stops at the source's first
  NUL, so the copy is the source when the source has no NUL inside.
\<close>

lemma ds_copy_room:
  assumes "ds_wf src" "NUL \<notin> set (ds_abs src)" "length (ds_str dst) = ds_alloc_size dst"
    "ds_length src < ds_alloc_size dst"
  obtains d' where "ds_wf d'" "ds_abs d' = ds_abs src"
    "do { t \<leftarrow> c_string (ds_str src);
          s \<leftarrow> c_strcpy (ds_str dst) t;
          Some (True, dst\<lparr>ds_str := s, ds_length := ds_length src\<rparr>, m) } =
     Some (True, d', m :: budget)"
proof -
  have l: "ds_length src = length (ds_abs src)" using assms(1) by (elim ds_wfE) simp
  let ?r = "drop (Suc (ds_length src)) (ds_str dst)"
  let ?d = "dst\<lparr>ds_str := map Some (ds_abs src) @ Some NUL # ?r, ds_length := ds_length src\<rparr>"
  have "c_strcpy (ds_str dst) (ds_abs src) = Some (map Some (ds_abs src) @ Some NUL # ?r)"
    unfolding c_strcpy_def by (subst store_all_ok) (use assms(3,4) l in simp_all)
  moreover have "ds_wf ?d" "ds_abs ?d = ds_abs src"
    using ds_wfI [of ?d "ds_abs src" ?r] assms(3,4) l by simp_all
  ultimately show ?thesis
    using that [of ?d] by (simp add: ds_wf_c_string [OF assms(1)] cstr_no_NUL [OF assms(2)])
qed

lemma dstring_copy_result:
  assumes "ds_wf src" "NUL \<notin> set (ds_abs src)" "ds_wf dst"
  shows "ds_result m (ds_abs src) (dstring_copy src dst m)"
proof (cases "ds_length src \<ge> ds_alloc_size dst")
  case False
  have "length (ds_str dst) = ds_alloc_size dst" using assms(3) by (simp add: ds_wf_def)
  from ds_copy_room [OF assms(1,2) this, of m] False obtain d' where
    "dstring_copy src dst m = Some (True, d', m)" "ds_wf d'" "ds_abs d' = ds_abs src"
    by (auto simp: dstring_copy_def Let_def)
  then show ?thesis by (auto simp: ds_result_def)
next
  case True
  obtain ok m' where am: "take_alloc m = (ok, m')" by fastforce
  let ?g = "ds_grow (ds_length src + 1) dst"
  have g: "length (ds_str ?g) = ds_alloc_size ?g" "ds_length src < ds_alloc_size ?g"
    by (simp_all add: ds_grow_def)
  from ds_copy_room [OF assms(1,2) g, of m'] obtain d' where
    "ds_wf d'" "ds_abs d' = ds_abs src"
    "ok \<Longrightarrow> dstring_copy src dst m = Some (True, d', m')"
    using True am by (auto simp: dstring_copy_def Let_def simp flip: ds_grow_def)
  moreover have "\<not> ok \<Longrightarrow> dstring_copy src dst m = Some (False, dst\<lparr>ds_str := []\<rparr>, m')"
    using True am by (simp add: dstring_copy_def Let_def)
  ultimately show ?thesis
    using take_alloc_None [OF am] by (cases ok) (auto simp: ds_result_def)
qed

lemma dstring_retract_wf:
  assumes "ds_wf d" "n \<le> ds_length d"
  obtains d' where "dstring_retract d (int n) = Some d'" "ds_wf d'"
    "ds_abs d' = take (ds_length d - n) (ds_abs d)"
proof -
  from assms(1) obtain r where r: "ds_str d = map Some (ds_abs d) @ Some NUL # r"
    and l: "ds_length d = length (ds_abs d)"
    and z: "ds_alloc_size d = length (ds_abs d) + 1 + length r" by (elim ds_wfE)
  let ?k = "ds_length d - n"
  let ?s = "take ?k (ds_abs d)"
  let ?r = "drop (Suc ?k) (map Some (ds_abs d) @ Some NUL # r)"
  let ?d = "d\<lparr>ds_length := ?k, ds_str := map Some ?s @ Some NUL # ?r\<rparr>"
  have k: "to_size_t (int (ds_length d) - int n) = ?k"
    using assms(2) by (rule to_size_t_diff)
  have "ds_str d = map Some ?s @ ((map Some (ds_abs d) @ Some NUL # r) ! ?k) # ?r"
    using l assms(2) unfolding r
    by (subst id_take_nth_drop [of ?k]) (simp_all add: take_map)
  then have "store (ds_str d) ?k NUL = Some (map Some ?s @ Some NUL # ?r)"
    by (metis length_map length_take min.absorb2 diff_le_self l store_at')
  then have "dstring_retract d (int n) = Some ?d"
    unfolding dstring_retract_def k Let_def by simp
  moreover have "ds_wf ?d" "ds_abs ?d = ?s"
    using ds_wfI [of ?d ?s ?r] l z assms(2) by simp_all
  ultimately show ?thesis using that by blast
qed

text \<open>Retracting more than the string holds writes outside the buffer.\<close>

lemma dstring_retract_UB:
  assumes "ds_wf d" "ds_length d < n" "n < 2 ^ 63" "ds_alloc_size d < 2 ^ 63"
  shows "dstring_retract d (int n) = UB"
proof -
  have "ds_alloc_size d \<le> to_size_t (int (ds_length d) - int n)"
    by (subst to_size_t_neg) (use assms(2,3,4) in simp_all)
  then show ?thesis
    using assms(1) by (simp add: dstring_retract_def store_def ds_wf_def Let_def)
qed

lemma dstring_cmp_const_str_wf:
  "ds_wf d \<Longrightarrow> dstring_cmp_const_str d cs = Some (strcmp (cstr (ds_abs d)) cs)"
  by (simp add: dstring_cmp_const_str_def ds_wf_c_string)

lemma dstring_cmp_wf:
  "ds_wf d1 \<Longrightarrow> ds_wf d2 \<Longrightarrow>
   dstring_cmp d1 d2 = Some (strcmp (cstr (ds_abs d1)) (cstr (ds_abs d2)))"
  by (simp add: dstring_cmp_def ds_wf_c_string)

section \<open>The contract its clients rely on\<close>

text \<open>
  The lexical analyser and the symbol table use a dynamic string through five operations.
  The locale states what each promises in terms of the content; the lemmas in it are what
  a client needs of a run of operations. The interpretation discharges the promises for
  the definitions above.
\<close>

locale string_buffer =
  fixes wf :: "'d \<Rightarrow> bool"
    and content :: "'d \<Rightarrow> string"
    and init :: "'d \<Rightarrow> budget \<Rightarrow> (bool \<times> 'd \<times> budget) c"
    and app :: "'d \<Rightarrow> char \<Rightarrow> budget \<Rightarrow> (bool \<times> 'd \<times> budget) c"
    and clear :: "'d \<Rightarrow> 'd c"
  assumes init_law: "\<exists>ok d' m'. init d m = Some (ok, d', m') \<and>
      (ok \<longrightarrow> wf d' \<and> content d' = []) \<and> (m = None \<longrightarrow> ok \<and> m' = None)"
    and app_law: "wf d \<Longrightarrow> \<exists>ok d' m'. app d ch m = Some (ok, d', m') \<and>
      (ok \<longrightarrow> wf d' \<and> content d' = content d @ [ch]) \<and> (m = None \<longrightarrow> ok \<and> m' = None)"
    and clear_law: "wf d \<Longrightarrow> \<exists>d'. clear d = Some d' \<and> wf d' \<and> content d' = []"
begin

lemma init_cases:
  obtains (ok) d' m' where "init d m = Some (True, d', m')" "wf d'" "content d' = []"
      "m = None \<Longrightarrow> m' = None"
  | (fail) d' m' where "init d m = Some (False, d', m')" "m \<noteq> None"
  using init_law [of d m] by (metis (full_types))

lemma app_cases:
  assumes "wf d"
  obtains (ok) d' m' where "app d ch m = Some (True, d', m')" "wf d'" "content d' = content d @ [ch]"
      "m = None \<Longrightarrow> m' = None"
  | (fail) d' m' where "app d ch m = Some (False, d', m')" "m \<noteq> None"
  using app_law [OF assms, of ch m] by (metis (full_types))

lemma init_None:
  obtains d' where "init d None = Some (True, d', None)" "wf d'" "content d' = []"
  by (rule init_cases [of d None]) blast+

lemma app_None:
  assumes "wf d"
  obtains d' where "app d ch None = Some (True, d', None)" "wf d'" "content d' = content d @ [ch]"
  by (rule app_cases [OF assms, of ch None]) blast+

lemma clear_app_cases:
  assumes "wf d"
  obtains d' where "clear d = Some d'" "wf d'"
    "\<And>m. \<exists>ok e m'. app d' ch m = Some (ok, e, m') \<and> (ok \<longrightarrow> content e = [ch])"
  using clear_law [OF assms] app_law by (metis append_Nil)

end

interpretation ds: string_buffer ds_wf ds_abs dstring_init dstring_append dstring_clear
proof
  show "\<exists>ok d' m'. dstring_init d m = Some (ok, d', m') \<and>
      (ok \<longrightarrow> ds_wf d' \<and> ds_abs d' = []) \<and> (m = None \<longrightarrow> ok \<and> m' = None)" for d m
    using dstring_init_result [of m d] by (simp add: ds_result_def)
  show "\<exists>ok d' m'. dstring_append d ch m = Some (ok, d', m') \<and>
      (ok \<longrightarrow> ds_wf d' \<and> ds_abs d' = ds_abs d @ [ch]) \<and> (m = None \<longrightarrow> ok \<and> m' = None)"
    if "ds_wf d" for d ch m
    using dstring_append_result [OF that, of m ch] by (simp add: ds_result_def)
  show "\<exists>d'. dstring_clear d = Some d' \<and> ds_wf d' \<and> ds_abs d' = []" if "ds_wf d" for d
    using dstring_clear_wf [OF that] by blast
qed

end
