(* ===== verification/Symtable.thy ===== *)
theory Symtable
  imports Token Dyn_String
begin

text \<open>
  The symbol table of \<open>src/symtable.c\<close>: a hash table with open addressing whose slots point
  to items in a heap, so that an item keeps its identity while the table grows and an access
  to a released item is undefined. Names are the C strings of the dynamic strings; the
  allocations their copies make are counted.
\<close>

section \<open>Data\<close>

definition SYMTAB_OK :: nat where "SYMTAB_OK = 0"
definition SYMTAB_ERR_ITEM_NOT_FOUND :: nat where "SYMTAB_ERR_ITEM_NOT_FOUND = 1"
definition SYMTAB_ERR_ITEM_ALREADY_STORED :: nat where "SYMTAB_ERR_ITEM_ALREADY_STORED = 2"
definition SYMTAB_ERR_ITEM_NOT_FUNCTION :: nat where "SYMTAB_ERR_ITEM_NOT_FUNCTION = 3"
definition SYMTAB_ERR_ITEM_IS_FUNCTION :: nat where "SYMTAB_ERR_ITEM_IS_FUNCTION = 4"
definition SYMTAB_ERR_PARAM_NOT_FOUND :: nat where "SYMTAB_ERR_PARAM_NOT_FOUND = 5"
definition SYMTAB_NOT_INITIALIZED :: nat where "SYMTAB_NOT_INITIALIZED = 6"

lemmas symtab_errors =
  SYMTAB_OK_def SYMTAB_ERR_ITEM_NOT_FOUND_def SYMTAB_ERR_ITEM_ALREADY_STORED_def
  SYMTAB_ERR_ITEM_NOT_FUNCTION_def SYMTAB_ERR_ITEM_IS_FUNCTION_def
  SYMTAB_ERR_PARAM_NOT_FOUND_def SYMTAB_NOT_INITIALIZED_def

datatype ty = T_undefined | T_function | T_integer | T_double | T_string | T_bool | T_nil

text \<open>
  A parameter. Its label is a dynamic string (\<open>None\<close>: the buffer was lost in a failed
  \<open>realloc\<close>) with its allocated size; \<open>is_nillable\<close> is not initialised by \<open>param_init\<close>.
\<close>

record param =
  p_name :: string
  p_label :: "string option"
  p_label_size :: nat
  p_type :: ty
  p_is_nillable :: "bool option"

record symtab_item =
  it_active :: bool
  it_name :: string
  it_uid :: "32 word"
  it_type :: ty
  it_is_mutable :: bool
  it_is_func_defined :: bool
  it_is_var_initialized :: bool
  it_is_nillable :: bool
  it_variadic_param :: bool
  it_parameters :: "param list"
  it_return_type :: ty

record symtab =
  st_items :: "nat option list"
  st_count :: nat
  st_size :: nat
  st_deactivated :: nat

text \<open>
  The heap of items, the next unused address, the static counter \<open>unique_id\<close> of
  \<open>item_init\<close>, and the allocator.
\<close>

record symheap =
  sh_items :: "nat \<Rightarrow> symtab_item option"
  sh_fresh :: nat
  sh_unique_id :: "32 word"
  sh_budget :: budget

definition symheap_init :: "budget \<Rightarrow> symheap" where
  "symheap_init m = \<lparr>sh_items = Map.empty, sh_fresh = 0, sh_unique_id = 0, sh_budget = m\<rparr>"

section \<open>Errors and allocation\<close>

text \<open>Only the first error is kept.\<close>

definition report_error :: "nat \<Rightarrow> nat \<Rightarrow> nat" where
  "report_error error err_type = (if error = SYMTAB_OK then err_type else error)"

definition alloc :: "symheap \<Rightarrow> bool \<times> symheap" where
  "alloc H = (case take_alloc (sh_budget H) of (ok, m) \<Rightarrow> (ok, H\<lparr>sh_budget := m\<rparr>))"

text \<open>
  \<open>dstring_copy\<close> into a dynamic string of allocated size \<open>cap\<close>: whether it succeeded and the
  new allocated size.
\<close>

definition str_copy :: "string \<Rightarrow> nat \<Rightarrow> symheap \<Rightarrow> bool \<times> nat \<times> symheap" where
  "str_copy s cap H =
     (if length s \<ge> cap
      then (case alloc H of (ok, H) \<Rightarrow> (ok, if ok then length s + 1 else cap, H))
      else (True, cap, H))"

section \<open>Hashing\<close>

text \<open>Both functions compute in \<open>unsigned long\<close>; the second adds \<open>char\<close>s, which are signed.\<close>

fun sdbm :: "64 word \<Rightarrow> string \<Rightarrow> 64 word" where
  "sdbm h [] = h"
| "sdbm h (ch # s) = sdbm (65599 * h + word_of_nat (of_char ch)) s"

definition hash :: "string \<Rightarrow> nat \<Rightarrow> nat c" where
  "hash key sz = (if sz = 0 then UB else Some (unat (sdbm 0 key) mod sz))"

fun djb2 :: "64 word \<Rightarrow> string \<Rightarrow> 64 word" where
  "djb2 h [] = h"
| "djb2 h (ch # s) = djb2 ((push_bit 5 h + h) + word_of_int (schar ch)) s"

definition hash2 :: "string \<Rightarrow> nat \<Rightarrow> nat c" where
  "hash2 key sz = (if sz \<le> 1 then UB else Some (unat (djb2 5381 key) mod (sz - 1) + 1))"

text \<open>An access to the array of slots.\<close>

definition slot :: "nat option list \<Rightarrow> nat \<Rightarrow> nat option c" where
  "slot items index = (if index < length items then Some (items ! index) else UB)"

text \<open>
  The probe loops. \<open>i * step\<close> stays far below \<open>2 ^ 64\<close> for the sizes of the tables; a loop
  that never meets an empty slot does not return.
\<close>

partial_function (option) free_probe ::
  "nat option list \<Rightarrow> nat \<Rightarrow> nat \<Rightarrow> nat \<Rightarrow> nat \<Rightarrow> nat c" where
  "free_probe items sz step i index = do {
     p \<leftarrow> slot items index;
     if p \<noteq> None then free_probe items sz step (i + 1) ((index + i * step) mod sz)
     else Some index
   }"

declare free_probe.simps [code]

definition get_hash :: "string \<Rightarrow> nat option list \<Rightarrow> nat \<Rightarrow> nat c" where
  "get_hash key items sz = do {
     index \<leftarrow> hash key sz;
     step \<leftarrow> hash2 key sz;
     free_probe items sz step 0 index
   }"

partial_function (option) search_probe ::
  "symheap \<Rightarrow> symtab \<Rightarrow> string \<Rightarrow> nat \<Rightarrow> nat \<Rightarrow> nat \<Rightarrow> (nat option \<times> nat) c" where
  "search_probe H T key step i index = do {
     p \<leftarrow> slot (st_items T) index;
     case p of
       None \<Rightarrow> Some (None, SYMTAB_ERR_ITEM_NOT_FOUND)
     | Some a \<Rightarrow> do {
         item \<leftarrow> sh_items H a;
         if strcmp (it_name item) key = 0 then
           if it_active item then Some (Some a, SYMTAB_OK)
           else Some (None, SYMTAB_ERR_ITEM_NOT_FOUND)
         else search_probe H T key step (i + 1) ((index + i * step) mod st_size T)
       }
   }"

declare search_probe.simps [code]

text \<open>The item found, if any, and the error.\<close>

definition symtable_search :: "symtab option \<Rightarrow> string \<Rightarrow> symheap \<Rightarrow> (nat option \<times> nat) c" where
  "symtable_search symtab key H =
     (case symtab of
        None \<Rightarrow> Some (None, SYMTAB_NOT_INITIALIZED)
      | Some T \<Rightarrow> do {
          index \<leftarrow> hash key (st_size T);
          step \<leftarrow> hash2 key (st_size T);
          search_probe H T key step 0 index
        })"

section \<open>Creation, insertion, deletion\<close>

definition symtable_init :: "symheap \<Rightarrow> (symtab \<times> symheap \<times> nat) c" where
  "symtable_init H =
     (case alloc H of
        (True, H) \<Rightarrow> Some (\<lparr>st_items = replicate 11 None, st_count = 0, st_size = 11,
                           st_deactivated = 0\<rparr>, H, SYMTAB_OK)
      | (False, H) \<Rightarrow> UB)"

definition create_local_symtab :: "symheap \<Rightarrow> nat \<Rightarrow> (symtab option \<times> symheap \<times> nat) c" where
  "create_local_symtab H error =
     (case alloc H of
        (False, H) \<Rightarrow> Some (None, H, report_error error ERR_INTERNAL)
      | (True, H) \<Rightarrow> do { (T, H, error) \<leftarrow> symtable_init H; Some (Some T, H, error) })"

definition new_item :: "string \<Rightarrow> 32 word \<Rightarrow> symtab_item" where
  "new_item key uid =
     \<lparr>it_active = True, it_name = key, it_uid = uid, it_type = T_undefined, it_is_mutable = False,
      it_is_func_defined = False, it_is_var_initialized = False, it_is_nillable = False,
      it_variadic_param = False, it_parameters = [], it_return_type = T_undefined\<rparr>"

definition item_init :: "string \<Rightarrow> symheap \<Rightarrow> nat \<Rightarrow> nat option \<times> symheap \<times> nat" where
  "item_init key H error =
     (case alloc H of
        (False, H) \<Rightarrow> (None, H, report_error error ERR_INTERNAL)
      | (True, H) \<Rightarrow>
     (case alloc H of
        (False, H) \<Rightarrow> (None, H, report_error error ERR_INTERNAL)
      | (True, H) \<Rightarrow>
     (case str_copy key DSTR_ALLOC_SIZE H of
        (False, _, H) \<Rightarrow> (None, H, report_error error ERR_INTERNAL)
      | (True, _, H) \<Rightarrow>
          (Some (sh_fresh H),
           H\<lparr>sh_items := (sh_items H)(sh_fresh H \<mapsto> new_item key (sh_unique_id H)),
             sh_fresh := sh_fresh H + 1, sh_unique_id := sh_unique_id H + 1\<rparr>,
           error))))"

definition primes :: "nat list" where
  "primes = [11, 23, 53, 107, 211, 421, 853, 1699, 3209, 6553, 12409, 25229]"

text \<open>The array has no terminating zero: past its end the loop reads outside it.\<close>

fun next_size :: "nat list \<Rightarrow> nat \<Rightarrow> nat c" where
  "next_size [] sz = UB"
| "next_size (p # ps) sz = (if sz < p then Some p else next_size ps sz)"

fun rehash :: "symheap \<Rightarrow> nat option list \<Rightarrow> nat option list \<Rightarrow> nat \<Rightarrow> nat option list c" where
  "rehash H [] resized new_size = Some resized"
| "rehash H (p # ps) resized new_size =
     (case p of
        None \<Rightarrow> rehash H ps resized new_size
      | Some a \<Rightarrow> do {
          item \<leftarrow> sh_items H a;
          if it_active item then do {
            new_hash \<leftarrow> get_hash (it_name item) resized new_size;
            rehash H ps (resized[new_hash := Some a]) new_size
          } else rehash H ps resized new_size
        })"

definition resize :: "symtab \<Rightarrow> symheap \<Rightarrow> nat \<Rightarrow> (symtab \<times> symheap \<times> nat) c" where
  "resize T H error = do {
     new_size \<leftarrow> next_size primes (st_size T);
     case alloc H of
       (False, H) \<Rightarrow> Some (T, H, report_error error ERR_INTERNAL)
     | (True, H) \<Rightarrow> do {
         resized_items \<leftarrow> rehash H (st_items T) (replicate new_size None) new_size;
         Some (T\<lparr>st_items := resized_items, st_size := new_size,
                 st_count := st_count T - st_deactivated T, st_deactivated := 0\<rparr>, H, error)
       }
   }"

text \<open>
  The comparison of the rounded quotient with 0.65: for the sizes of the tables the rounding
  never crosses the bound, so it is the comparison of the exact quotient.
\<close>

definition check_load :: "symtab \<Rightarrow> symheap \<Rightarrow> nat \<Rightarrow> (symtab \<times> symheap \<times> nat) c" where
  "check_load T H error =
     (if 13 * st_size T < 20 * st_count T then resize T H error else Some (T, H, error))"

definition symtable_insert ::
  "symtab option \<Rightarrow> string \<Rightarrow> symheap \<Rightarrow> (symtab option \<times> symheap \<times> nat) c" where
  "symtable_insert symtab key H = do {
     (item, error) \<leftarrow> symtable_search symtab key H;
     if item = None then do {
       let error = SYMTAB_OK;
       T \<leftarrow> symtab;
       index \<leftarrow> get_hash key (st_items T) (st_size T);
       let (new, H, error) = item_init key H error;
       let T = T\<lparr>st_items := (st_items T)[index := new], st_count := st_count T + 1\<rparr>;
       (T, H, error) \<leftarrow> check_load T H error;
       Some (Some T, H, error)
     } else Some (symtab, H, report_error error SYMTAB_ERR_ITEM_ALREADY_STORED)
   }"

text \<open>Replacing an item in the heap.\<close>

definition set_item :: "symheap \<Rightarrow> nat \<Rightarrow> (symtab_item \<Rightarrow> symtab_item) \<Rightarrow> symheap c" where
  "set_item H a f = do {
     item \<leftarrow> sh_items H a;
     Some (H\<lparr>sh_items := (sh_items H)(a \<mapsto> f item)\<rparr>)
   }"

definition symtable_delete ::
  "symtab option \<Rightarrow> string \<Rightarrow> symheap \<Rightarrow> (symtab option \<times> symheap \<times> nat) c" where
  "symtable_delete symtab target H = do {
     (item, error) \<leftarrow> symtable_search symtab target H;
     case item of
       None \<Rightarrow> Some (symtab, H, report_error error SYMTAB_ERR_ITEM_NOT_FOUND)
     | Some a \<Rightarrow> do {
         H \<leftarrow> set_item H a (\<lambda>it. it\<lparr>it_active := False\<rparr>);
         T \<leftarrow> symtab;
         Some (Some (T\<lparr>st_deactivated := st_deactivated T + 1\<rparr>), H, error)
       }
   }"

text \<open>\<open>dstring_free\<close> writes through the label's buffer, which must exist.\<close>

fun param_dispose :: "param list \<Rightarrow> unit c" where
  "param_dispose [] = Some ()"
| "param_dispose (p # ps) = (if p_label p = None then UB else param_dispose ps)"

fun dispose_items :: "nat option list \<Rightarrow> symheap \<Rightarrow> symheap c" where
  "dispose_items [] H = Some H"
| "dispose_items (p # ps) H =
     (case p of
        None \<Rightarrow> dispose_items ps H
      | Some a \<Rightarrow> do {
          item \<leftarrow> sh_items H a;
          _ \<leftarrow> param_dispose (it_parameters item);
          dispose_items ps (H\<lparr>sh_items := (sh_items H)(a := None)\<rparr>)
        })"

definition symtable_dispose :: "symtab \<Rightarrow> symheap \<Rightarrow> (symtab \<times> symheap) c" where
  "symtable_dispose T H = do {
     _ \<leftarrow> c_assert (st_size T \<le> length (st_items T));
     H \<leftarrow> dispose_items (take (st_size T) (st_items T)) H;
     Some (T\<lparr>st_items := []\<rparr>, H)
   }"

section \<open>Attributes\<close>

text \<open>
  The shape the accessors share: search, then the guards of the code in their order. A
  getter returns a value and an error, a setter the heap and an error.
\<close>

definition with_item ::
  "symtab option \<Rightarrow> string \<Rightarrow> symheap \<Rightarrow> (nat \<Rightarrow> 'a) \<Rightarrow> (nat \<Rightarrow> symtab_item \<Rightarrow> nat \<Rightarrow> 'a c) \<Rightarrow> 'a c" where
  "with_item symtab key H fail f = do {
     (item, error) \<leftarrow> symtable_search symtab key H;
     case item of
       None \<Rightarrow> Some (fail (report_error error SYMTAB_ERR_ITEM_NOT_FOUND))
     | Some a \<Rightarrow> do { it \<leftarrow> sh_items H a; f a it error }
   }"

definition set_type :: "symtab option \<Rightarrow> string \<Rightarrow> ty \<Rightarrow> symheap \<Rightarrow> (symheap \<times> nat) c" where
  "set_type symtab key type H = with_item symtab key H (\<lambda>e. (H, e)) (\<lambda>a it error. do {
     H \<leftarrow> set_item H a (\<lambda>it. it\<lparr>it_type := type\<rparr>);
     Some (H, error)
   })"

definition get_type :: "symtab option \<Rightarrow> string \<Rightarrow> symheap \<Rightarrow> (ty \<times> nat) c" where
  "get_type symtab key H = with_item symtab key H (\<lambda>e. (T_undefined, e)) (\<lambda>a it error.
     Some (it_type it, error))"

definition set_mutability :: "symtab option \<Rightarrow> string \<Rightarrow> bool \<Rightarrow> symheap \<Rightarrow> (symheap \<times> nat) c" where
  "set_mutability symtab key b H = with_item symtab key H (\<lambda>e. (H, e)) (\<lambda>a it error.
     if it_type it = T_function then Some (H, report_error error SYMTAB_ERR_ITEM_IS_FUNCTION)
     else do { H \<leftarrow> set_item H a (\<lambda>it. it\<lparr>it_is_mutable := b\<rparr>); Some (H, error) })"

definition get_mutability :: "symtab option \<Rightarrow> string \<Rightarrow> symheap \<Rightarrow> (bool \<times> nat) c" where
  "get_mutability symtab key H = with_item symtab key H (\<lambda>e. (False, e)) (\<lambda>a it error.
     if it_type it = T_function then Some (False, report_error error SYMTAB_ERR_ITEM_IS_FUNCTION)
     else Some (it_is_mutable it, error))"

definition set_nillable :: "symtab option \<Rightarrow> string \<Rightarrow> bool \<Rightarrow> symheap \<Rightarrow> (symheap \<times> nat) c" where
  "set_nillable symtab key b H = with_item symtab key H (\<lambda>e. (H, e)) (\<lambda>a it error. do {
     H \<leftarrow> set_item H a (\<lambda>it. it\<lparr>it_is_nillable := b\<rparr>);
     Some (H, error)
   })"

definition get_nillable :: "symtab option \<Rightarrow> string \<Rightarrow> symheap \<Rightarrow> (bool \<times> nat) c" where
  "get_nillable symtab key H = with_item symtab key H (\<lambda>e. (False, e)) (\<lambda>a it error.
     Some (it_is_nillable it, error))"

text \<open>The accessors that require a function.\<close>

definition with_function ::
  "symtab option \<Rightarrow> string \<Rightarrow> symheap \<Rightarrow> (nat \<Rightarrow> 'a) \<Rightarrow> (nat \<Rightarrow> symtab_item \<Rightarrow> nat \<Rightarrow> 'a c) \<Rightarrow> 'a c" where
  "with_function symtab key H fail f = with_item symtab key H fail (\<lambda>a it error.
     if it_type it \<noteq> T_function then Some (fail (report_error error SYMTAB_ERR_ITEM_NOT_FUNCTION))
     else f a it error)"

definition set_func_definition :: "symtab option \<Rightarrow> string \<Rightarrow> bool \<Rightarrow> symheap \<Rightarrow> (symheap \<times> nat) c" where
  "set_func_definition symtab key b H = with_function symtab key H (\<lambda>e. (H, e)) (\<lambda>a it error. do {
     H \<leftarrow> set_item H a (\<lambda>it. it\<lparr>it_is_func_defined := b\<rparr>);
     Some (H, error)
   })"

definition get_func_definition :: "symtab option \<Rightarrow> string \<Rightarrow> symheap \<Rightarrow> (bool \<times> nat) c" where
  "get_func_definition symtab key H = with_function symtab key H (\<lambda>e. (False, e)) (\<lambda>a it error.
     Some (it_is_func_defined it, error))"

definition set_return_type :: "symtab option \<Rightarrow> string \<Rightarrow> ty \<Rightarrow> symheap \<Rightarrow> (symheap \<times> nat) c" where
  "set_return_type symtab key type H = with_function symtab key H (\<lambda>e. (H, e)) (\<lambda>a it error. do {
     H \<leftarrow> set_item H a (\<lambda>it. it\<lparr>it_return_type := type\<rparr>);
     Some (H, error)
   })"

definition get_return_type :: "symtab option \<Rightarrow> string \<Rightarrow> symheap \<Rightarrow> (ty \<times> nat) c" where
  "get_return_type symtab key H = with_function symtab key H (\<lambda>e. (T_undefined, e)) (\<lambda>a it error.
     Some (it_return_type it, error))"

section \<open>Parameters\<close>

definition param_init :: "string \<Rightarrow> symheap \<Rightarrow> nat \<Rightarrow> param option \<times> symheap \<times> nat" where
  "param_init name_of_param H error =
     (let fail = (\<lambda>H. (None, H, report_error error ERR_INTERNAL)) in
      case alloc H of (False, H) \<Rightarrow> fail H | (True, H) \<Rightarrow>
     (case alloc H of (False, H) \<Rightarrow> fail H | (True, H) \<Rightarrow>
     (case alloc H of (False, H) \<Rightarrow> fail H | (True, H) \<Rightarrow>
     (case str_copy name_of_param DSTR_ALLOC_SIZE H of (False, _, H) \<Rightarrow> fail H | (True, _, H) \<Rightarrow>
        (Some \<lparr>p_name = name_of_param, p_label = Some [], p_label_size = DSTR_ALLOC_SIZE,
               p_type = T_undefined, p_is_nillable = None\<rparr>, H, error)))))"

text \<open>
  The position of the first parameter of that name. The error of a caller is kept when it is
  not yet set.
\<close>

fun search_param_from :: "param list \<Rightarrow> nat \<Rightarrow> string \<Rightarrow> nat option" where
  "search_param_from [] i key = None"
| "search_param_from (p # ps) i key =
     (if strcmp (p_name p) key = 0 then Some i else search_param_from ps (i + 1) key)"

definition search_param :: "param list \<Rightarrow> string \<Rightarrow> nat \<Rightarrow> nat option \<times> nat" where
  "search_param first key error =
     (case search_param_from first 0 key of
        None \<Rightarrow> (None, report_error error SYMTAB_ERR_PARAM_NOT_FOUND)
      | Some i \<Rightarrow> (Some i, error))"

text \<open>
  A parameter is appended at the end of the list; behind the first one a failed allocation
  is dereferenced at once.
\<close>

definition add_param :: "symtab option \<Rightarrow> string \<Rightarrow> string \<Rightarrow> symheap \<Rightarrow> (symheap \<times> nat) c" where
  "add_param symtab func_id name_of_param H = with_function symtab func_id H (\<lambda>e. (H, e)) (\<lambda>a it error. do {
     let (p, H, error) = param_init name_of_param H error;
     if it_parameters it = [] then
       case p of
         None \<Rightarrow> Some (H, error)
       | Some p \<Rightarrow> do { H \<leftarrow> set_item H a (\<lambda>it. it\<lparr>it_parameters := [p]\<rparr>); Some (H, error) }
     else do {
       p \<leftarrow> p;
       H \<leftarrow> set_item H a (\<lambda>it. it\<lparr>it_parameters := it_parameters it @ [p]\<rparr>);
       Some (H, error)
     }
   })"

definition with_param ::
  "symtab option \<Rightarrow> string \<Rightarrow> string \<Rightarrow> symheap \<Rightarrow> (nat \<Rightarrow> 'a) \<Rightarrow> (nat \<Rightarrow> param list \<Rightarrow> nat \<Rightarrow> nat \<Rightarrow> 'a c) \<Rightarrow> 'a c" where
  "with_param symtab func_id name H fail f = with_function symtab func_id H fail (\<lambda>a it error.
     if it_parameters it = [] then Some (fail (report_error error SYMTAB_ERR_PARAM_NOT_FOUND))
     else (case search_param (it_parameters it) name error of
         (None, error) \<Rightarrow> Some (fail (report_error error SYMTAB_ERR_PARAM_NOT_FOUND))
       | (Some i, error) \<Rightarrow> f a (it_parameters it) i error))"

definition set_param_type ::
  "symtab option \<Rightarrow> string \<Rightarrow> string \<Rightarrow> ty \<Rightarrow> symheap \<Rightarrow> (symheap \<times> nat) c" where
  "set_param_type symtab func_id name type H = with_param symtab func_id name H (\<lambda>e. (H, e))
     (\<lambda>a ps i error. do {
       H \<leftarrow> set_item H a (\<lambda>it. it\<lparr>it_parameters := ps[i := (ps ! i)\<lparr>p_type := type\<rparr>]\<rparr>);
       Some (H, error)
     })"

definition get_param_type :: "symtab option \<Rightarrow> string \<Rightarrow> string \<Rightarrow> symheap \<Rightarrow> (ty \<times> nat) c" where
  "get_param_type symtab func_id name H = with_param symtab func_id name H (\<lambda>e. (T_undefined, e))
     (\<lambda>a ps i error. Some (p_type (ps ! i), error))"

text \<open>\<open>set_param_label\<close> ignores whether the copy succeeded.\<close>

definition set_param_label ::
  "symtab option \<Rightarrow> string \<Rightarrow> string \<Rightarrow> string \<Rightarrow> symheap \<Rightarrow> (symheap \<times> nat) c" where
  "set_param_label symtab func_id name label H = with_param symtab func_id name H (\<lambda>e. (H, e))
     (\<lambda>a ps i error. do {
       let p = ps ! i;
       _ \<leftarrow> c_assert (p_label p \<noteq> None \<or> length label \<ge> p_label_size p);
       let (ok, sz, H) = str_copy label (p_label_size p) H;
       let p = p\<lparr>p_label := (if ok then Some label else None), p_label_size := sz\<rparr>;
       H \<leftarrow> set_item H a (\<lambda>it. it\<lparr>it_parameters := ps[i := p]\<rparr>);
       Some (H, error)
     })"

definition get_param_label ::
  "symtab option \<Rightarrow> string \<Rightarrow> string \<Rightarrow> symheap \<Rightarrow> (string option option \<times> nat) c" where
  "get_param_label symtab func_id name H = with_param symtab func_id name H (\<lambda>e. (None, e))
     (\<lambda>a ps i error. Some (Some (p_label (ps ! i)), error))"

definition set_param_nil ::
  "symtab option \<Rightarrow> string \<Rightarrow> string \<Rightarrow> bool \<Rightarrow> symheap \<Rightarrow> (symheap \<times> nat) c" where
  "set_param_nil symtab func_id name nil H = with_param symtab func_id name H (\<lambda>e. (H, e))
     (\<lambda>a ps i error. do {
       H \<leftarrow> set_item H a (\<lambda>it. it\<lparr>it_parameters := ps[i := (ps ! i)\<lparr>p_is_nillable := Some nil\<rparr>]\<rparr>);
       Some (H, error)
     })"

definition get_param_nil :: "symtab option \<Rightarrow> string \<Rightarrow> string \<Rightarrow> symheap \<Rightarrow> (bool \<times> nat) c" where
  "get_param_nil symtab func_id name H = with_param symtab func_id name H (\<lambda>e. (False, e))
     (\<lambda>a ps i error. do { b \<leftarrow> p_is_nillable (ps ! i); Some (b, error) })"

end
