(* ===== verification/Symtable_Map.thy ===== *)
theory Symtable_Map
  imports Symtable
begin

text \<open>
  The symbol table as a map. The first sections prove that the probing sequence of the code
  visits half of the slots of a table of prime size and no more; then come the invariant of
  a table, what search, insertion, deletion and growth do to it, and the contract of a map
  from names to items that the scopes rely on.
\<close>


section \<open>Prime sizes\<close>

definition prime_size :: "nat \<Rightarrow> bool" where
  "prime_size p \<longleftrightarrow> 2 < p \<and> (\<forall>n. 0 < n \<and> n < p \<longrightarrow> coprime n p)"

lemma trial_division:
  assumes "2 < p" "p < b * b" "\<forall>d\<in>set [2..<b]. p mod d \<noteq> 0"
  shows "prime_size p"
  unfolding prime_size_def
proof (intro conjI allI impI)
  fix n
  assume n: "0 < n \<and> n < p"
  let ?g = "gcd n p"
  have g: "?g dvd p" "0 < ?g" "?g < p"
    using n by (simp_all add: le_less_trans [OF gcd_le1_nat])
  define k where "k = p div ?g"
  have k: "p = ?g * k" using g(1) by (simp add: k_def)
  have no: "b \<le> d" if "2 \<le> d" "d dvd p" for d
  proof (rule ccontr)
    assume "\<not> b \<le> d"
    then have "d \<in> set [2..<b]" using that(1) by simp
    then have "p mod d \<noteq> 0" using assms(3) by blast
    then show False using that(2) by (simp only: dvd_eq_mod_eq_0)
  qed
  have "?g = 1"
  proof (rule ccontr)
    assume "?g \<noteq> 1"
    then have "b \<le> ?g" using no [of ?g] g by linarith
    moreover have "k \<noteq> 0" using k assms(1) by (metis mult_0_right not_less_zero)
    moreover have "k \<noteq> 1" using k g(3) by (metis mult.right_neutral less_irrefl)
    moreover have "k dvd p" using k by (metis dvd_triv_right)
    ultimately have "b \<le> ?g" "b \<le> k" using no [of k] by linarith+
    then have "b * b \<le> ?g * k" by (rule mult_le_mono)
    then show False using k assms(2) by linarith
  qed
  then show "coprime n p" by (simp add: coprime_iff_gcd_eq_1)
qed (rule assms(1))

lemma primes_prime:
  assumes "p \<in> set primes"
  shows "prime_size p"
proof -
  have "prime_size 11" by (rule trial_division [of _ 4]) simp_all
  moreover have "prime_size 23" by (rule trial_division [of _ 5]) simp_all
  moreover have "prime_size 53" by (rule trial_division [of _ 8]) simp_all
  moreover have "prime_size 107" by (rule trial_division [of _ 11]) simp_all
  moreover have "prime_size 211" by (rule trial_division [of _ 15]) simp_all
  moreover have "prime_size 421" by (rule trial_division [of _ 21]) simp_all
  moreover have "prime_size 853" by (rule trial_division [of _ 30]) simp_all
  moreover have "prime_size 1699" by (rule trial_division [of _ 42]) simp_all
  moreover have "prime_size 3209" by (rule trial_division [of _ 57]) simp_all
  moreover have "prime_size 6553" by (rule trial_division [of _ 81]) simp_all
  moreover have "prime_size 12409" by (rule trial_division [of _ 112]) simp_all
  moreover have "prime_size 25229" by (rule trial_division [of _ 159]) simp_all
  ultimately show ?thesis using assms by (auto simp: primes_def)
qed

section \<open>The probe path\<close>

fun tri :: "nat \<Rightarrow> nat" where
  "tri 0 = 0"
| "tri (Suc k) = tri k + k"

definition home :: "string \<Rightarrow> nat \<Rightarrow> nat" where
  "home key p = unat (sdbm 0 key) mod p"

definition stride :: "string \<Rightarrow> nat \<Rightarrow> nat" where
  "stride key p = unat (djb2 5381 key) mod (p - 1) + 1"

definition path :: "string \<Rightarrow> nat \<Rightarrow> nat \<Rightarrow> nat" where
  "path key p k = (home key p + tri k * stride key p) mod p"

lemma hash_home: "0 < p \<Longrightarrow> hash key p = Some (home key p)"
  by (simp add: hash_def home_def)

lemma hash2_stride: "1 < p \<Longrightarrow> hash2 key p = Some (stride key p)"
  by (simp add: hash2_def stride_def)

lemma stride_less: "2 < p \<Longrightarrow> 0 < stride key p \<and> stride key p < p"
  unfolding stride_def using mod_less_divisor [of "p - 1" "unat (djb2 5381 key)"] by linarith

lemma tri_double: "2 * tri k = k * (k - 1)"
proof (induction k)
  case (Suc k)
  then show ?case by (cases k) simp_all
qed simp

lemma tri_mono: "i \<le> j \<Longrightarrow> tri i \<le> tri j"
  by (rule lift_Suc_mono_le [of tri]) simp

lemma path_Suc: "(path key p k + k * stride key p) mod p = path key p (Suc k)"
  unfolding path_def by (subst mod_add_left_eq) (simp add: algebra_simps)

lemma path_less: "0 < p \<Longrightarrow> path key p k < p"
  by (simp add: path_def)

text \<open>The first half of the path meets no slot twice.\<close>

lemma path_inj:
  assumes p: "prime_size p" and ij: "1 \<le> i" "i < j" "2 * j \<le> p + 1"
  shows "path key p i \<noteq> path key p j"
proof
  let ?s = "stride key p"
  have p2: "2 < p" and cop: "\<And>n. 0 < n \<Longrightarrow> n < p \<Longrightarrow> coprime n p"
    using p by (simp_all add: prime_size_def)
  have s: "0 < ?s" "?s < p" using stride_less [OF p2] by simp_all
  have t: "tri i \<le> tri j" using ij(2) by (simp add: tri_mono)
  assume "path key p i = path key p j"
  then have eq: "(home key p + tri j * ?s) mod p = (home key p + tri i * ?s) mod p"
    by (simp only: path_def)
  have "home key p + tri i * ?s \<le> home key p + tri j * ?s"
    using t by (intro add_left_mono mult_right_mono) simp_all
  from mod_eq_dvd_iff_nat [OF this, of p] eq
  have "p dvd tri j * ?s - tri i * ?s" by (metis add_diff_cancel_left)
  then have "p dvd (tri j - tri i) * ?s" by (simp only: diff_mult_distrib)
  then have "p dvd tri j - tri i"
    using cop [OF s] by (metis coprime_commute coprime_dvd_mult_left_iff)
  then have "p dvd 2 * (tri j - tri i)" by (rule dvd_mult)
  also have "2 * (tri j - tri i) = (j - i) * (j + i - 1)"
  proof -
    have "int (2 * tri j) - int (2 * tri i) = int (j - i) * int (j + i - 1)"
      unfolding tri_double using ij by (simp add: of_nat_diff algebra_simps)
    then have "int (2 * (tri j - tri i)) = int ((j - i) * (j + i - 1))"
      using t by (simp add: of_nat_diff)
    then show ?thesis by (simp only: of_nat_eq_iff)
  qed
  finally have "p dvd (j - i) * (j + i - 1)" .
  moreover have "coprime (j - i) p" by (rule cop) (use ij p2 in linarith)+
  ultimately have "p dvd j + i - 1" by (metis coprime_commute coprime_dvd_mult_right_iff)
  then have "p \<le> j + i - 1" by (rule dvd_imp_le) (use ij in linarith)
  then show False using ij by linarith
qed

lemma path_half_card:
  assumes "prime_size p"
  shows "card (path key p ` {1..(p + 1) div 2}) = (p + 1) div 2"
proof -
  have "inj_on (path key p) {1..(p + 1) div 2}"
  proof (rule linorder_inj_onI)
    fix i j
    assume "i < j" "i \<in> {1..(p + 1) div 2}" "j \<in> {1..(p + 1) div 2}"
    then show "path key p i \<noteq> path key p j" by (intro path_inj [OF assms]) auto
  qed auto
  then show ?thesis by (simp add: card_image)
qed

definition occupied :: "nat option list \<Rightarrow> nat set" where
  "occupied items = {j. j < length items \<and> items ! j \<noteq> None}"

lemma finite_occupied [simp]: "finite (occupied items)"
  by (simp add: occupied_def)

text \<open>So a table that is at most half full has a free slot on every path.\<close>

lemma half_full_free:
  assumes "prime_size (length items)" "card (occupied items) < (length items + 1) div 2"
  obtains k where "items ! path key (length items) k = None"
proof -
  let ?p = "length items"
  let ?P = "path key ?p ` {1..(?p + 1) div 2}"
  have "\<not> ?P \<subseteq> occupied items"
    using path_half_card [OF assms(1), of key] assms(2) card_mono [of "occupied items" ?P] by auto
  then obtain k where "path key ?p k \<notin> occupied items" by blast
  moreover have "path key ?p k < ?p"
    by (rule path_less) (use assms(1) in \<open>auto simp: prime_size_def\<close>)
  ultimately show ?thesis using that by (auto simp: occupied_def)
qed

section \<open>The probe loops\<close>

text \<open>The loops return at the first slot of the path where their test succeeds.\<close>

lemma free_probe_at:
  assumes "length items = p" "0 < p" "items ! path key p k = None"
    "\<And>k'. k' < k \<Longrightarrow> items ! path key p k' \<noteq> None" "i \<le> k"
  shows "free_probe items p (stride key p) i (path key p i) = Some (path key p k)"
  using assms(5)
proof (induction "k - i" arbitrary: i)
  case 0
  then have "i = k" by simp
  then show ?case
    using assms(1,3) path_less [OF assms(2)] by (subst free_probe.simps) (simp add: slot_def)
next
  case (Suc n)
  then have i: "i < k" by simp
  then have "free_probe items p (stride key p) (Suc i) (path key p (Suc i)) =
      Some (path key p k)" using Suc by simp
  then show ?case
    using assms(1) path_less [OF assms(2)] assms(4) [OF i]
    by (subst free_probe.simps) (simp add: slot_def path_Suc flip: Suc_eq_plus1)
qed

lemma path_0: "path key p 0 = home key p"
  by (simp add: path_def home_def)

lemma get_hash_at:
  assumes "length items = p" "1 < p" "items ! path key p k = None"
    "\<And>k'. k' < k \<Longrightarrow> items ! path key p k' \<noteq> None"
  shows "get_hash key items p = Some (path key p k)"
  using free_probe_at [OF assms(1) _ assms(3,4), of 0] assms(2)
  by (simp add: get_hash_def hash_home hash2_stride path_0)

definition slot_name :: "symheap \<Rightarrow> nat option \<Rightarrow> string option" where
  "slot_name H p = do { a \<leftarrow> p; item \<leftarrow> sh_items H a; Some (it_name item) }"

definition occupied_by_others :: "symheap \<Rightarrow> nat option list \<Rightarrow> string \<Rightarrow> nat \<Rightarrow> bool" where
  "occupied_by_others H items key j \<longleftrightarrow> (\<exists>nm. slot_name H (items ! j) = Some nm \<and> nm \<noteq> key)"

lemma search_probe_at:
  assumes "length (st_items T) = st_size T" "0 < st_size T"
    "\<And>k'. k' < k \<Longrightarrow> occupied_by_others H (st_items T) key (path key (st_size T) k')" "i \<le> k"
  shows "search_probe H T key (stride key (st_size T)) i (path key (st_size T) i) =
    search_probe H T key (stride key (st_size T)) k (path key (st_size T) k)"
  using assms(4)
proof (induction "k - i" arbitrary: i)
  case (Suc n)
  then have i: "i < k" by simp
  from assms(3) [OF i] obtain a item where "st_items T ! path key (st_size T) i = Some a"
    "sh_items H a = Some item" "it_name item \<noteq> key"
    by (auto simp: occupied_by_others_def slot_name_def bind_Some_iff)
  then have "search_probe H T key (stride key (st_size T)) i (path key (st_size T) i) =
    search_probe H T key (stride key (st_size T)) (Suc i) (path key (st_size T) (Suc i))"
    using assms(1) path_less [OF assms(2)] 
    by (subst search_probe.simps) (simp add: slot_def path_Suc strcmp_eq_0 )
  also have "\<dots> = search_probe H T key (stride key (st_size T)) k (path key (st_size T) k)"
    using Suc i by simp
  finally show ?case .
qed simp

definition search_result :: "symheap \<Rightarrow> nat option \<Rightarrow> nat option \<times> nat" where
  "search_result H p = (case p of None \<Rightarrow> (None, SYMTAB_ERR_ITEM_NOT_FOUND)
     | Some a \<Rightarrow> (case sh_items H a of None \<Rightarrow> (None, SYMTAB_ERR_ITEM_NOT_FOUND)
        | Some item \<Rightarrow> if it_active item then (Some a, SYMTAB_OK) else (None, SYMTAB_ERR_ITEM_NOT_FOUND)))"

lemma search_at:
  assumes "length (st_items T) = st_size T" "1 < st_size T"
    "\<And>k'. k' < k \<Longrightarrow> occupied_by_others H (st_items T) key (path key (st_size T) k')"
    "st_items T ! path key (st_size T) k = None \<or> slot_name H (st_items T ! path key (st_size T) k) = Some key"
  shows "symtable_search (Some T) key H = Some (search_result H (st_items T ! path key (st_size T) k))"
proof -
  have "symtable_search (Some T) key H =
      search_probe H T key (stride key (st_size T)) k (path key (st_size T) k)"
    using search_probe_at [OF assms(1) _ assms(3), where i = 0] assms(2)
    by (simp add: symtable_search_def hash_home hash2_stride path_0)
  also have "\<dots> = Some (search_result H (st_items T ! path key (st_size T) k))"
  proof -
    have "path key (st_size T) k < length (st_items T)"
      using path_less [of "st_size T" key k] assms(1,2) by simp
    moreover have "?thesis" if "st_items T ! path key (st_size T) k = None"
      using calculation that by (subst search_probe.simps) (simp add: slot_def search_result_def)
    moreover have "?thesis" if "st_items T ! path key (st_size T) k = Some a" "sh_items H a = Some item"
      "it_name item = key" for a item
      using calculation that
      by (subst search_probe.simps) (simp add: slot_def search_result_def strcmp_eq_0)
    ultimately show ?thesis using assms(4) by (auto simp: slot_name_def bind_Some_iff)
  qed
  finally show ?thesis .
qed

text \<open>And when the whole path is occupied by other names, the search does not return.\<close>

lemma search_probe_diverges:
  assumes "\<And>k. occupied_by_others H (st_items T) key (path key (st_size T) k)"
  shows "search_probe H T key (stride key (st_size T)) i (path key (st_size T) i) = None"
proof -
  have "search_probe H' T' key' step i index = Some r \<Longrightarrow>
      H' = H \<and> T' = T \<and> key' = key \<and> step = stride key (st_size T) \<longrightarrow>
      index \<noteq> path key (st_size T) i" for H' T' key' step index r
  proof (rule search_probe.raw_induct [where P = "\<lambda>H' T' key' step i index r.
      H' = H \<and> T' = T \<and> key' = key \<and> step = stride key (st_size T) \<longrightarrow>
      index \<noteq> path key (st_size T) i"], goal_cases)
    case (1 sp Ha Ta keya step i index y)
    show ?case
    proof (intro impI notI)
      assume a: "Ha = H \<and> Ta = T \<and> keya = key \<and> step = stride key (st_size T)"
        and i: "index = path key (st_size T) i"
      from assms [of i] obtain b item where o: "st_items T ! index = Some b"
        "sh_items H b = Some item" "it_name item \<noteq> key"
        by (auto simp: occupied_by_others_def slot_name_def bind_Some_iff i)
      have "sp H T key (stride key (st_size T)) (i + 1) (path key (st_size T) (Suc i)) = Some y"
        using 1(3) a o by (auto simp: slot_def strcmp_eq_0 i path_Suc bind_Some_iff split: if_splits)
      from 1(2) [OF this] show False by simp
    qed
  qed
  then show ?thesis by (metis not_None_eq)
qed

section \<open>The invariant of a table\<close>

text \<open>
  Every item lies on the probe path of its name, behind slots that other names occupy. The
  counters are exact and the load is at most 65 per cent.
\<close>

definition reached :: "symheap \<Rightarrow> nat option list \<Rightarrow> string \<Rightarrow> nat \<Rightarrow> bool" where
  "reached H items key j \<longleftrightarrow> (\<exists>k. path key (length items) k = j \<and>
     (\<forall>k'<k. occupied_by_others H items key (path key (length items) k') \<or> path key (length items) k' = j))"

definition slots_wf :: "symheap \<Rightarrow> nat option list \<Rightarrow> bool" where
  "slots_wf H items \<longleftrightarrow> prime_size (length items) \<and>
     (\<forall>j\<in>occupied items. \<exists>key. slot_name H (items ! j) = Some key \<and> reached H items key j)"

definition inactive :: "symheap \<Rightarrow> nat option list \<Rightarrow> nat set" where
  "inactive H items = {j. j < length items \<and> (\<exists>a it. items ! j = Some a \<and> sh_items H a = Some it \<and> \<not> it_active it)}"

definition st_wf :: "symheap \<Rightarrow> symtab \<Rightarrow> bool" where
  "st_wf H T \<longleftrightarrow> st_size T \<in> set primes \<and> length (st_items T) = st_size T \<and>
     slots_wf H (st_items T) \<and> st_count T = card (occupied (st_items T)) \<and>
     st_deactivated T = card (inactive H (st_items T)) \<and>
     20 * st_count T \<le> 13 * st_size T"

definition heap_wf :: "symheap \<Rightarrow> bool" where
  "heap_wf H \<longleftrightarrow> (\<forall>a\<in>dom (sh_items H). a < sh_fresh H)"

text \<open>The names of a table, and when the probe for a name ends.\<close>

definition names :: "symheap \<Rightarrow> nat option list \<Rightarrow> string set" where
  "names H items = {key. \<exists>j<length items. slot_name H (items ! j) = Some key}"

definition probe_ends :: "symheap \<Rightarrow> nat option list \<Rightarrow> string \<Rightarrow> bool" where
  "probe_ends H items key \<longleftrightarrow> key \<in> names H items \<or> (\<exists>k. items ! path key (length items) k = None)"

lemma reached_least:
  assumes "reached H items key j"
  obtains k where "path key (length items) k = j"
    "\<And>k'. k' < k \<Longrightarrow> occupied_by_others H items key (path key (length items) k')"
proof -
  let ?P = "\<lambda>k. path key (length items) k = j"
  from assms obtain k where k: "?P k"
    "\<forall>k'<k. occupied_by_others H items key (path key (length items) k') \<or> ?P k'"
    by (auto simp: reached_def)
  let ?k = "LEAST k. ?P k"
  have "?P ?k" "?k \<le> k" using k(1) by (rule LeastI, rule Least_le)
  moreover have "\<not> ?P k'" if "k' < ?k" for k' using that by (rule not_less_Least)
  ultimately show ?thesis using that [of ?k] k(2) by (meson order.strict_trans2)
qed

text \<open>What a search finds: the item of that name if the table has one and it is active.\<close>

lemma search_found:
  assumes "slots_wf H (st_items T)" "length (st_items T) = st_size T" "j < st_size T"
    "slot_name H (st_items T ! j) = Some key"
  shows "symtable_search (Some T) key H = Some (search_result H (st_items T ! j))"
proof -
  have "j \<in> occupied (st_items T)" using assms(2-4) by (auto simp: occupied_def slot_name_def bind_Some_iff)
  then have "reached H (st_items T) key j" using assms(1,4) by (auto simp: slots_wf_def)
  then obtain k where k: "path key (st_size T) k = j"
    "\<And>k'. k' < k \<Longrightarrow> occupied_by_others H (st_items T) key (path key (st_size T) k')"
    using assms(2) by (auto elim: reached_least)
  have "1 < st_size T" using assms(1,2) by (simp add: slots_wf_def prime_size_def)
  from search_at [OF assms(2) this k(2)] show ?thesis using k(1) assms(4) by simp
qed

text \<open>A name the table does not have: the path's first empty slot ends both probes.\<close>

lemma path_least_empty:
  assumes "slots_wf H items" "key \<notin> names H items" "items ! path key (length items) k0 = None"
  obtains k where "items ! path key (length items) k = None"
    "\<And>k'. k' < k \<Longrightarrow> occupied_by_others H items key (path key (length items) k')"
proof -
  let ?P = "\<lambda>k. items ! path key (length items) k = None"
  let ?k = "LEAST k. ?P k"
  have "?P ?k" using assms(3) by (rule LeastI)
  moreover have "occupied_by_others H items key (path key (length items) k')" if "k' < ?k" for k'
  proof -
    have "0 < length items" using assms(1) by (auto simp: slots_wf_def prime_size_def)
    then have "path key (length items) k' \<in> occupied items"
      using not_less_Least [OF that] path_less by (simp add: occupied_def)
    then obtain nm where "slot_name H (items ! path key (length items) k') = Some nm"
      "path key (length items) k' < length items"
      using assms(1) by (auto simp: slots_wf_def occupied_def)
    then show ?thesis using assms(2) by (auto simp: occupied_by_others_def names_def)
  qed
  ultimately show ?thesis by (rule that)
qed

lemma search_missing:
  assumes "slots_wf H (st_items T)" "length (st_items T) = st_size T"
    "key \<notin> names H (st_items T)" "probe_ends H (st_items T) key"
  shows "symtable_search (Some T) key H = Some (None, SYMTAB_ERR_ITEM_NOT_FOUND)"
proof -
  from assms(3,4) obtain k0 where "st_items T ! path key (length (st_items T)) k0 = None"
    by (auto simp: probe_ends_def)
  from path_least_empty [OF assms(1,3) this] obtain k where
    k: "st_items T ! path key (st_size T) k = None"
    "\<And>k'. k' < k \<Longrightarrow> occupied_by_others H (st_items T) key (path key (st_size T) k')"
    using assms(2) by metis
  have "1 < st_size T" using assms(1,2) by (simp add: slots_wf_def prime_size_def)
  from search_at [OF assms(2) this k(2)] show ?thesis using k(1) by (simp add: search_result_def)
qed

text \<open>Exactly when the probe ends does a search return.\<close>

lemma search_diverges:
  assumes "slots_wf H (st_items T)" "length (st_items T) = st_size T" "\<not> probe_ends H (st_items T) key"
  shows "symtable_search (Some T) key H = None"
proof -
  have p: "2 < st_size T" using assms(1,2) by (simp add: slots_wf_def prime_size_def)
  have "occupied_by_others H (st_items T) key (path key (st_size T) k)" for k
  proof -
    have j: "path key (st_size T) k < length (st_items T)" using path_less p assms(2) by simp
    moreover have "st_items T ! path key (st_size T) k \<noteq> None"
      using assms(2,3) by (auto simp: probe_ends_def)
    ultimately obtain nm where "slot_name H (st_items T ! path key (st_size T) k) = Some nm"
      using assms(1) by (fastforce simp: slots_wf_def occupied_def)
    moreover have "nm \<noteq> key" using calculation j assms(3) by (auto simp: probe_ends_def names_def)
    ultimately show ?thesis by (simp add: occupied_by_others_def)
  qed
  from search_probe_diverges [OF this, of 0] show ?thesis
    using p by (simp add: symtable_search_def hash_home hash2_stride path_0)
qed

section \<open>Placing an item\<close>

definition same_items :: "symheap \<Rightarrow> symheap \<Rightarrow> nat option list \<Rightarrow> bool" where
  "same_items H H' items \<longleftrightarrow> (\<forall>a. Some a \<in> set items \<longrightarrow> sh_items H' a = sh_items H a)"

lemma slot_name_None [simp]: "slot_name H None = None"
  by (simp add: slot_name_def)

lemma slot_name_Some: "slot_name H p = Some key \<Longrightarrow> p \<noteq> None"
  by (cases p) simp_all

lemma same_items_slot: "same_items H H' items \<Longrightarrow> j < length items \<Longrightarrow>
    slot_name H' (items ! j) = slot_name H (items ! j)"
  by (cases "items ! j") (auto simp: same_items_def slot_name_def dest: nth_mem)

lemma slot_name_place:
  assumes "same_items H H' items" "sh_items H' a = Some it" "i < length items" "j < length items"
  shows "slot_name H' (items[j := Some a] ! i) = (if i = j then Some (it_name it) else slot_name H (items ! i))"
  using assms same_items_slot [OF assms(1,3)] by (simp add: slot_name_def nth_list_update)

lemma reached_place:
  assumes "reached H items key i" "same_items H H' items" "sh_items H' a = Some it"
    "j < length items" "items ! j = None" "0 < length items"
  shows "reached H' (items[j := Some a]) key i"
proof -
  have o: "occupied_by_others H' (items[j := Some a]) key q"
    if "occupied_by_others H items key q" "q < length items" for q
    using that slot_name_place [OF assms(2,3) that(2) assms(4)] assms(5)
    by (auto simp: occupied_by_others_def)
  from assms(1) obtain k where k: "path key (length items) k = i"
    "\<And>k'. k' < k \<Longrightarrow> occupied_by_others H items key (path key (length items) k') \<or>
      path key (length items) k' = i"
    by (auto simp: reached_def)
  have "occupied_by_others H' (items[j := Some a]) key (path key (length items) k') \<or>
      path key (length items) k' = i" if "k' < k" for k'
    using k(2) [OF that] o [OF _ path_less [OF assms(6)]] by blast
  then show ?thesis
    unfolding reached_def length_list_update using k(1) by blast
qed

lemma place_item:
  assumes wf: "slots_wf H items" and new: "key \<notin> names H items"
    and free: "items ! path key (length items) k0 = None"
    and same: "same_items H H' items" and it: "sh_items H' a = Some it" "it_name it = key"
  obtains j where "get_hash key items (length items) = Some j" "j < length items" "items ! j = None"
    "slots_wf H' (items[j := Some a])"
proof -
  from path_least_empty [OF wf new free] obtain k where
    k: "items ! path key (length items) k = None"
    "\<And>k'. k' < k \<Longrightarrow> occupied_by_others H items key (path key (length items) k')"
    by metis
  let ?j = "path key (length items) k"
  have p: "2 < length items" using wf by (simp add: slots_wf_def prime_size_def)
  have p0: "0 < length items" using p by linarith
  have "items ! path key (length items) k' \<noteq> None" if "k' < k" for k'
    using k(2) [OF that] by (auto simp: occupied_by_others_def dest!: slot_name_Some)
  then have g: "get_hash key items (length items) = Some ?j"
    using p k(1) by (intro get_hash_at) simp_all
  have j: "?j < length items" by (rule path_less) (use p in linarith)
  have "reached H items key ?j"
    unfolding reached_def using k(2) by blast
  then have r: "reached H' (items[?j := Some a]) key ?j"
    by (rule reached_place [OF _ same it(1) j k(1) p0])
  have "\<exists>key. slot_name H' (items[?j := Some a] ! i) = Some key \<and> reached H' (items[?j := Some a]) key i"
    if "i \<in> occupied (items[?j := Some a])" for i
  proof (cases "i = ?j")
    case True
    then show ?thesis using slot_name_place [OF same it(1) j j] r it(2) by simp
  next
    case False
    then have i: "i < length items" "i \<in> occupied items" using that by (auto simp: occupied_def)
    then obtain nm where "slot_name H (items ! i) = Some nm" "reached H items nm i"
      using wf by (auto simp: slots_wf_def)
    then show ?thesis
      using slot_name_place [OF same it(1) i(1) j] False reached_place [OF _ same it(1) j k(1)] p by fastforce
  qed
  then have "slots_wf H' (items[?j := Some a])"
    using wf by (simp add: slots_wf_def)
  with g j k(1) show ?thesis by (rule that)
qed

lemma occupied_place: "j < length items \<Longrightarrow> occupied (items[j := Some a]) = insert j (occupied items)"
  by (auto simp: occupied_def nth_list_update)

lemma names_place:
  assumes "same_items H H' items" "sh_items H' a = Some it" "j < length items" "items ! j = None"
  shows "names H' (items[j := Some a]) = insert (it_name it) (names H items)"
proof -
  note n = slot_name_place [OF assms(1,2) _ assms(3)]
  have "slot_name H (items ! j) = None" using assms(4) by simp
  then have "(\<exists>i<length items. slot_name H' (items[j := Some a] ! i) = Some key) \<longleftrightarrow>
      key = it_name it \<or> (\<exists>i<length items. slot_name H (items ! i) = Some key)" for key
    using n assms(3) by (metis (no_types, lifting) option.distinct(1) option.inject)
  then show ?thesis by (auto simp: names_def)
qed

lemma names_finite_card: "slots_wf H items \<Longrightarrow> card (occupied items) \<le> length items"
  by (rule order.trans [OF card_mono [of "{..<length items}"]]) (auto simp: occupied_def)

section \<open>Growth\<close>

lemma slot_unique:
  assumes "slots_wf H items" "i < length items" "j < length items"
    "slot_name H (items ! i) = Some key" "slot_name H (items ! j) = Some key"
  shows "i = j"
proof -
  have o: "i \<in> occupied items" "j \<in> occupied items"
    using assms slot_name_Some by (auto simp: occupied_def)
  have r: "reached H items key i" "reached H items key j"
    using assms(1,4,5) o unfolding slots_wf_def by fastforce+
  obtain ki where ki: "path key (length items) ki = i"
    "\<And>k'. k' < ki \<Longrightarrow> occupied_by_others H items key (path key (length items) k')"
    using reached_least [OF r(1)] by metis
  obtain kj where kj: "path key (length items) kj = j"
    "\<And>k'. k' < kj \<Longrightarrow> occupied_by_others H items key (path key (length items) k')"
    using reached_least [OF r(2)] by metis
  have "\<not> ki < kj" using kj(2) [of ki] ki(1) assms(4) by (auto simp: occupied_by_others_def)
  moreover have "\<not> kj < ki" using ki(2) [of kj] kj(1) assms(5) by (auto simp: occupied_by_others_def)
  ultimately show ?thesis using ki(1) kj(1) by simp
qed

definition slot_active :: "symheap \<Rightarrow> nat option \<Rightarrow> bool" where
  "slot_active H p \<longleftrightarrow> (\<exists>a it. p = Some a \<and> sh_items H a = Some it \<and> it_active it)"

definition active_names :: "symheap \<Rightarrow> nat option list \<Rightarrow> string list" where
  "active_names H ps = map (the \<circ> slot_name H) (filter (slot_active H) ps)"

lemma distinct_map_filterI:
  "(\<And>i j. i < j \<Longrightarrow> j < length xs \<Longrightarrow> P (xs ! i) \<Longrightarrow> P (xs ! j) \<Longrightarrow> f (xs ! i) \<noteq> f (xs ! j)) \<Longrightarrow>
   distinct (map f (filter P xs))"
proof (induction xs)
  case (Cons x xs)
  have "f x \<noteq> f y" if "P x" "y \<in> set xs" "P y" for y
  proof -
    from that(2) obtain j where "j < length xs" "y = xs ! j" by (metis in_set_conv_nth)
    then show ?thesis using Cons.prems [of 0 "Suc j"] that by simp
  qed
  moreover have "distinct (map f (filter P xs))"
    by (rule Cons.IH) (use Cons.prems [of "Suc _" "Suc _"] in simp)
  ultimately show ?case by auto
qed simp

lemma slot_active_name: "slot_active H p \<Longrightarrow> \<exists>key. slot_name H p = Some key"
  by (auto simp: slot_active_def slot_name_def)

lemma distinct_active_names: "slots_wf H items \<Longrightarrow> distinct (active_names H items)"
  unfolding active_names_def
proof (rule distinct_map_filterI)
  fix i j
  assume wf: "slots_wf H items" and a: "i < j" "j < length items" "slot_active H (items ! i)" "slot_active H (items ! j)"
  obtain k l where "slot_name H (items ! i) = Some k" "slot_name H (items ! j) = Some l"
    using a slot_active_name by blast
  then show "(the \<circ> slot_name H) (items ! i) \<noteq> (the \<circ> slot_name H) (items ! j)"
    using slot_unique [OF wf, of i j k] a by auto
qed

lemma active_names_Cons [simp]:
  "active_names H (p # ps) = (if slot_active H p then the (slot_name H p) # active_names H ps else active_names H ps)"
  by (simp add: active_names_def)

lemma set_update_free:
  assumes "j < length xs" "xs ! j = None"
  shows "Some b \<in> set (xs[j := Some a]) \<longleftrightarrow> b = a \<or> Some b \<in> set xs"
proof -
  have "set xs = set (take j xs) \<union> insert None (set (drop (Suc j) xs))"
    by (subst id_take_nth_drop [OF assms(1)]) (simp add: assms(2))
  then show ?thesis by (auto simp: upd_conv_take_nth_drop [OF assms(1)])
qed

lemma rehash_wf:
  assumes "\<forall>a. Some a \<in> set ps \<longrightarrow> sh_items H a \<noteq> None" "slots_wf H resized"
    "distinct (active_names H ps)" "set (active_names H ps) \<inter> names H resized = {}"
    "card (occupied resized) + length (active_names H ps) < (length resized + 1) div 2"
  shows "\<exists>r. rehash H ps resized (length resized) = Some r \<and> length r = length resized \<and>
    slots_wf H r \<and> card (occupied r) = card (occupied resized) + length (active_names H ps) \<and>
    (\<forall>a. Some a \<in> set r \<longleftrightarrow> Some a \<in> set resized \<or> Some a \<in> set ps \<and> slot_active H (Some a))"
  using assms
proof (induction ps arbitrary: resized)
  case Nil
  then show ?case by (simp add: active_names_def)
next
  case (Cons p ps)
  show ?case
  proof (cases "slot_active H p")
    case False
    then have "rehash H (p # ps) resized (length resized) = rehash H ps resized (length resized)"
      using Cons.prems(1) by (auto simp: slot_active_def split: option.split)
    then show ?thesis using Cons.IH [of resized] Cons.prems False by auto
  next
    case True
    then obtain a it where a: "p = Some a" "sh_items H a = Some it" "it_active it"
      by (auto simp: slot_active_def)
    then have nm: "slot_name H p = Some (it_name it)" by (simp add: slot_name_def)
    have new: "it_name it \<notin> names H resized" using Cons.prems(4) True nm by simp
    obtain k0 where "resized ! path (it_name it) (length resized) k0 = None"
      using half_full_free [of resized "it_name it"] Cons.prems(2,5) by (auto simp: slots_wf_def)
    from place_item [OF Cons.prems(2) new this _ a(2) refl]
    obtain j where j: "get_hash (it_name it) resized (length resized) = Some j" "j < length resized"
      "resized ! j = None" "slots_wf H (resized[j := Some a])"
      by (auto simp: same_items_def)
    let ?r = "resized[j := Some a]"
    have occ: "card (occupied ?r) = card (occupied resized) + 1"
      using j(2,3) by (simp add: occupied_place) (simp add: occupied_def)
    have nms: "names H ?r = insert (it_name it) (names H resized)"
      using names_place [of H H resized a it j] a(2) j(2,3) by (simp add: same_items_def)
    have st: "Some b \<in> set ?r \<longleftrightarrow> b = a \<or> Some b \<in> set resized" for b
      using set_update_free [OF j(2,3)] .
    have "\<exists>r. rehash H ps ?r (length ?r) = Some r \<and> length r = length ?r \<and>
      slots_wf H r \<and> card (occupied r) = card (occupied ?r) + length (active_names H ps) \<and>
      (\<forall>b. Some b \<in> set r \<longleftrightarrow> Some b \<in> set ?r \<or> Some b \<in> set ps \<and> slot_active H (Some b))"
      by (rule Cons.IH) (use Cons.prems True nm j(4) nms occ in auto)
    then show ?thesis
      using True a j(1) nm occ st by (auto simp: slot_active_def)
  qed
qed

section \<open>Insertion\<close>

lemma length_filter_occupied: "length (filter (\<lambda>p. p \<noteq> None) items) = card (occupied items)"
  by (simp add: length_filter_conv_card occupied_def)

lemma active_count:
  assumes "\<forall>a. Some a \<in> set items \<longrightarrow> sh_items H a \<noteq> None"
  shows "length (active_names H items) + card (inactive H items) = card (occupied items)"
proof -
  have "length (active_names H items) + length (filter (\<lambda>p. p \<noteq> None \<and> \<not> slot_active H p) items) =
      length (filter (\<lambda>p. p \<noteq> None) items)"
    by (induction items) (auto simp: active_names_def slot_active_def)
  moreover have "card (inactive H items) = length (filter (\<lambda>p. p \<noteq> None \<and> \<not> slot_active H p) items)"
    unfolding length_filter_conv_card inactive_def slot_active_def
    using assms by (intro arg_cong [where f = card]) (fastforce dest: nth_mem)
  ultimately show ?thesis using length_filter_occupied [of items] by linarith
qed

definition entry :: "symheap \<Rightarrow> nat option list \<Rightarrow> string \<Rightarrow> nat \<Rightarrow> bool" where
  "entry H items key a \<longleftrightarrow> Some a \<in> set items \<and>
     (\<exists>it. sh_items H a = Some it \<and> it_name it = key \<and> it_active it)"

lemma slots_wf_items: "slots_wf H items \<Longrightarrow> \<forall>a. Some a \<in> set items \<longrightarrow> sh_items H a \<noteq> None"
proof (intro allI impI)
  fix a
  assume wf: "slots_wf H items" and a: "Some a \<in> set items"
  then obtain j where "j < length items" "items ! j = Some a" by (auto simp: in_set_conv_nth)
  then have "slot_name H (Some a) \<noteq> None" using wf by (force simp: slots_wf_def occupied_def)
  then show "sh_items H a \<noteq> None" by (auto simp: slot_name_def bind_Some_iff)
qed

text \<open>The room a larger table offers: enough for every item of a table that is just too full.\<close>

lemma next_size_room:
  assumes "p \<in> set primes" "p \<noteq> 25229"
  obtains q where "next_size primes p = Some q" "q \<in> set primes" "13 * p + 20 \<le> 10 * q - 10" "odd q"
  using assms by (simp add: primes_def) (elim disjE; simp)

lemma entry_search:
  assumes "slots_wf H (st_items T)" "length (st_items T) = st_size T" "entry H (st_items T) key a"
  shows "symtable_search (Some T) key H = Some (Some a, SYMTAB_OK)"
proof -
  from assms(3) obtain j it where j: "j < st_size T" "st_items T ! j = Some a" "sh_items H a = Some it"
    "it_name it = key" "it_active it"
    by (auto simp: entry_def in_set_conv_nth assms(2))
  then have "slot_name H (st_items T ! j) = Some key" by (simp add: slot_name_def)
  from search_found [OF assms(1,2) j(1) this] show ?thesis using j by (simp add: search_result_def)
qed

lemma search_ok_entry:
  assumes "slots_wf H (st_items T)" "length (st_items T) = st_size T"
    "symtable_search (Some T) key H = Some (Some a, e)"
  shows "entry H (st_items T) key a \<and> e = SYMTAB_OK"
proof -
  have "key \<in> names H (st_items T)"
    using assms(3) search_missing [OF assms(1,2), of key] search_diverges [OF assms(1,2), of key] by force
  then obtain j where j: "j < st_size T" "slot_name H (st_items T ! j) = Some key"
    using assms(2) by (auto simp: names_def)
  from search_found [OF assms(1,2) j] assms(3) have "search_result H (st_items T ! j) = (Some a, e)" by simp
  then show ?thesis using j assms(2)
    by (auto simp: search_result_def entry_def slot_name_def symtab_errors in_set_conv_nth
        split: option.splits if_splits)
qed

lemma search_defined:
  assumes "slots_wf H (st_items T)" "length (st_items T) = st_size T" "probe_ends H (st_items T) key"
  shows "\<exists>r. symtable_search (Some T) key H = Some r \<and>
    (r = (None, SYMTAB_ERR_ITEM_NOT_FOUND) \<or> (\<exists>a. r = (Some a, SYMTAB_OK) \<and> entry H (st_items T) key a))"
proof (cases "key \<in> names H (st_items T)")
  case False
  then show ?thesis using search_missing [OF assms(1,2) False assms(3)] by simp
next
  case True
  then obtain j where j: "j < st_size T" "slot_name H (st_items T ! j) = Some key"
    using assms(2) by (auto simp: names_def)
  obtain r e where r: "symtable_search (Some T) key H = Some (r, e)" "(r, e) = search_result H (st_items T ! j)"
    using search_found [OF assms(1,2) j] by (cases "search_result H (st_items T ! j)") simp
  show ?thesis
  proof (cases r)
    case None
    then show ?thesis using r by (auto simp: search_result_def split: option.splits if_splits)
  next
    case (Some a)
    then show ?thesis using search_ok_entry [OF assms(1,2)] r(1) by auto
  qed
qed

lemma alloc_None: "sh_budget H = None \<Longrightarrow> alloc H = (True, H)"
  by (simp add: alloc_def)

lemma item_init_None:
  "sh_budget H = None \<Longrightarrow> item_init key H e = (Some (sh_fresh H),
     H\<lparr>sh_items := (sh_items H)(sh_fresh H \<mapsto> new_item key (sh_unique_id H)),
       sh_fresh := sh_fresh H + 1, sh_unique_id := sh_unique_id H + 1\<rparr>, e)"
  by (simp add: item_init_def alloc_def str_copy_def)

definition after_insert :: "string \<Rightarrow> symheap \<Rightarrow> symheap" where
  "after_insert key H = H\<lparr>sh_items := (sh_items H)(sh_fresh H \<mapsto> new_item key (sh_unique_id H)),
     sh_fresh := sh_fresh H + 1, sh_unique_id := sh_unique_id H + 1\<rparr>"

lemma after_insert_simps [simp]:
  "sh_items (after_insert key H) = (sh_items H)(sh_fresh H \<mapsto> new_item key (sh_unique_id H))"
  "sh_fresh (after_insert key H) = sh_fresh H + 1"
  "sh_unique_id (after_insert key H) = sh_unique_id H + 1"
  "sh_budget (after_insert key H) = sh_budget H"
  by (simp_all add: after_insert_def)

lemma names_alt: "names H items = {key. \<exists>a it. Some a \<in> set items \<and> sh_items H a = Some it \<and> it_name it = key}"
  by (fastforce simp: names_def slot_name_def bind_Some_iff in_set_conv_nth)

text \<open>A table whose load has become too high grows, and keeps what it holds.\<close>

lemma overload_grows:
  assumes T: "st_size T \<in> set primes" "slots_wf H (st_items T)" "st_count T = card (occupied (st_items T))"
    "st_deactivated T = card (inactive H (st_items T))" "20 * st_count T \<le> 13 * st_size T + 20" "sh_budget H = None"
    and room: "st_count T < 16399" and load: "13 * st_size T < 20 * st_count T"
  shows "\<exists>T'. check_load T H SYMTAB_OK = Some (T', H, SYMTAB_OK) \<and> st_wf H T' \<and>
    (\<forall>k a. entry H (st_items T') k a \<longleftrightarrow> entry H (st_items T) k a) \<and> names H (st_items T') \<subseteq> names H (st_items T)"
proof -
  let ?items = "st_items T"
  have "st_size T \<noteq> 25229" using load room by auto
  then obtain q where q: "next_size primes (st_size T) = Some q" "q \<in> set primes"
    "13 * st_size T + 20 \<le> 10 * q - 10" "odd q"
    using next_size_room [OF T(1)] by blast
  have items: "\<forall>a. Some a \<in> set ?items \<longrightarrow> sh_items H a \<noteq> None" by (rule slots_wf_items [OF T(2)])
  have cnt: "length (active_names H ?items) + st_deactivated T = st_count T"
    using active_count [OF items] T(3,4) by simp
  have empty: "slots_wf H (replicate q None)" "occupied (replicate q None) = {}" "names H (replicate q None) = {}"
    using primes_prime [OF q(2)] by (auto simp: slots_wf_def occupied_def names_def)
  have "length (active_names H ?items) < (q + 1) div 2" using cnt T(5) q(3) by linarith
  then obtain r where r: "rehash H ?items (replicate q None) q = Some r" "length r = q" "slots_wf H r"
    "card (occupied r) = length (active_names H ?items)"
    "\<forall>a. Some a \<in> set r \<longleftrightarrow> Some a \<in> set ?items \<and> slot_active H (Some a)"
    using rehash_wf [OF items empty(1) distinct_active_names [OF T(2)]] empty(2,3) by auto
  let ?T' = "T\<lparr>st_items := r, st_size := q, st_count := st_count T - st_deactivated T, st_deactivated := 0\<rparr>"
  have "check_load T H SYMTAB_OK = Some (?T', H, SYMTAB_OK)"
    using load T(6) r(1) by (simp add: check_load_def resize_def q(1) alloc_None)
  moreover have "inactive H r = {}"
    using r(5) by (fastforce simp: inactive_def slot_active_def dest: nth_mem)
  then have "st_wf H ?T'" using r cnt q T(5) by (auto simp: st_wf_def)
  moreover have "entry H r k a \<longleftrightarrow> entry H ?items k a" for k a
    using r(5) by (auto simp: entry_def slot_active_def)
  moreover have "names H r \<subseteq> names H ?items" using r(5) by (auto simp: names_alt)
  ultimately show ?thesis by (intro exI [of _ ?T']) simp
qed

text \<open>A new item in a free slot changes neither the other items nor the inactive ones.\<close>

lemma inactive_place:
  assumes "same_items H H' items" "j < length items" "items ! j = None" "\<forall>b. Some b \<in> set items \<longrightarrow> b \<noteq> a"
    "sh_items H' a = Some it" "it_active it"
  shows "inactive H' (items[j := Some a]) = inactive H items"
proof (intro equalityI subsetI)
  fix i
  show "i \<in> inactive H items" if "i \<in> inactive H' (items[j := Some a])"
    using that assms by (cases "i = j") (auto simp: inactive_def same_items_def dest: nth_mem split: if_splits)
  show "i \<in> inactive H' (items[j := Some a])" if "i \<in> inactive H items"
    using that assms(1,3) by (cases "i = j") (fastforce simp: inactive_def same_items_def in_set_conv_nth)+
qed

text \<open>
  A name the table does not have, with a probe that ends: the insertion returns, a fresh
  item carries the name, every other entry stays, and the invariant holds again, whether or
  not the table had to grow.
\<close>

lemma insert_new:
  assumes wf: "st_wf H T" and hp: "heap_wf H" and m: "sh_budget H = None"
    and new: "key \<notin> names H (st_items T)" and ends: "probe_ends H (st_items T) key"
    and room: "st_count T < 16398"
  shows "\<exists>T'. symtable_insert (Some T) key H = Some (Some T', after_insert key H, SYMTAB_OK) \<and>
    st_wf (after_insert key H) T' \<and>
    (\<forall>k a. entry (after_insert key H) (st_items T') k a \<longleftrightarrow>
       entry H (st_items T) k a \<or> k = key \<and> a = sh_fresh H) \<and>
    names (after_insert key H) (st_items T') \<subseteq> insert key (names H (st_items T))"
proof -
  let ?H = "after_insert key H"
  let ?a = "sh_fresh H"
  from wf have T: "st_size T \<in> set primes" "length (st_items T) = st_size T" "slots_wf H (st_items T)"
    "st_count T = card (occupied (st_items T))" "st_deactivated T = card (inactive H (st_items T))"
    "20 * st_count T \<le> 13 * st_size T"
    by (simp_all add: st_wf_def)
  have old: "a \<noteq> ?a" if "Some a \<in> set (st_items T)" for a
    using slots_wf_items [OF T(3)] that hp by (auto simp: heap_wf_def)
  then have same: "same_items H ?H (st_items T)" by (auto simp: same_items_def)
  have it: "sh_items ?H ?a = Some (new_item key (sh_unique_id H))" "it_name (new_item key (sh_unique_id H)) = key"
    "it_active (new_item key (sh_unique_id H))"
    by (simp_all add: new_item_def)
  obtain k0 where "st_items T ! path key (length (st_items T)) k0 = None"
    using new ends by (auto simp: probe_ends_def)
  from place_item [OF T(3) new this same it(1,2)] obtain j where j:
    "get_hash key (st_items T) (st_size T) = Some j" "j < length (st_items T)" "st_items T ! j = None"
    "slots_wf ?H ((st_items T)[j := Some ?a])"
    using T(2) by metis
  let ?items = "(st_items T)[j := Some ?a]"
  let ?T = "T\<lparr>st_items := ?items, st_count := st_count T + 1\<rparr>"
  have ins: "symtable_insert (Some T) key H = do {
      (T', H', error) \<leftarrow> check_load ?T ?H SYMTAB_OK; Some (Some T', H', error) }"
    using m by (simp add: symtable_insert_def search_missing [OF T(3,2) new ends] j(1) item_init_None after_insert_def Let_def)
  have occ: "card (occupied ?items) = st_count T + 1"
    using j(2,3) T(4) by (simp add: occupied_place) (simp add: occupied_def)
  have ent: "entry ?H ?items k a \<longleftrightarrow> entry H (st_items T) k a \<or> k = key \<and> a = ?a" for k a
    using it old set_update_free [OF j(2,3), of a ?a] by (auto simp: entry_def)
  have nms: "names ?H ?items = insert key (names H (st_items T))"
    using names_place [OF same it(1) j(2,3)] it(2) by simp
  have inact: "inactive ?H ?items = inactive H (st_items T)"
    by (rule inactive_place [OF same j(2,3) _ it(1,3)]) (use old in blast)
  have "\<exists>T'. check_load ?T ?H SYMTAB_OK = Some (T', ?H, SYMTAB_OK) \<and> st_wf ?H T' \<and>
      (\<forall>k a. entry ?H (st_items T') k a \<longleftrightarrow> entry ?H ?items k a) \<and> names ?H (st_items T') \<subseteq> names ?H ?items"
  proof (cases "13 * st_size T < 20 * (st_count T + 1)")
    case False
    then have "check_load ?T ?H SYMTAB_OK = Some (?T, ?H, SYMTAB_OK)" by (simp add: check_load_def)
    moreover have "st_wf ?H ?T" using T False j(4) occ inact by (simp add: st_wf_def)
    ultimately show ?thesis by (intro exI [of _ ?T]) simp
  next
    case True
    then show ?thesis
      using overload_grows [of ?T ?H] T j(4) occ inact m room by simp
  qed
  then show ?thesis using ins ent nms by auto
qed

text \<open>The largest size is the last entry of an array without a terminator.\<close>

lemma insert_overflow:
  assumes "st_wf H T" "sh_budget H = None" "key \<notin> names H (st_items T)" "probe_ends H (st_items T) key"
    "st_size T = 25229" "st_count T = 16398"
  shows "symtable_insert (Some T) key H = UB"
proof -
  from assms(1) have T: "length (st_items T) = st_size T" "slots_wf H (st_items T)"
    by (simp_all add: st_wf_def)
  have s: "symtable_search (Some T) key H = Some (None, SYMTAB_ERR_ITEM_NOT_FOUND)"
    by (rule search_missing [OF T(2,1) assms(3,4)])
  have "next_size primes 25229 = UB" by (simp add: primes_def)
  then show ?thesis
    using assms(2,5,6)
    by (cases "get_hash key (st_items T) 25229")
      (simp_all add: symtable_insert_def s item_init_None check_load_def resize_def)
qed

lemma insert_present:
  assumes "st_wf H T" "entry H (st_items T) key a"
  shows "symtable_insert (Some T) key H = Some (Some T, H, SYMTAB_ERR_ITEM_ALREADY_STORED)"
  using entry_search [of H T key a] assms
  by (simp add: symtable_insert_def st_wf_def report_error_def symtab_errors)

section \<open>The fresh table, deletion, disposal\<close>

lemma init_wf:
  assumes "sh_budget H = None"
  obtains T where "symtable_init H = Some (T, H, SYMTAB_OK)" "st_wf H T" "names H (st_items T) = {}"
proof -
  let ?T = "\<lparr>st_items = replicate 11 None, st_count = 0, st_size = 11, st_deactivated = 0\<rparr>"
  have p: "11 \<in> set primes" by (simp add: primes_def)
  have e: "occupied (replicate 11 None) = {}" "inactive H (replicate 11 None) = {}"
    by (auto simp: occupied_def inactive_def)
  have "symtable_init H = Some (?T, H, SYMTAB_OK)" by (simp add: symtable_init_def alloc_None assms)
  moreover have "st_wf H ?T" using p primes_prime [OF p] e by (simp add: st_wf_def slots_wf_def)
  moreover have "names H (st_items ?T) = {}" by (auto simp: names_alt)
  ultimately show ?thesis by (rule that)
qed

text \<open>
  A deleted item keeps its slot, so that the paths of other names still lead over it; its
  own name is not found any more.
\<close>

definition after_delete :: "nat \<Rightarrow> symheap \<Rightarrow> symheap" where
  "after_delete a H = H\<lparr>sh_items := (sh_items H)(a \<mapsto> (the (sh_items H a))\<lparr>it_active := False\<rparr>)\<rparr>"

lemma slot_name_after_delete:
  "sh_items H a = Some it \<Longrightarrow> slot_name (after_delete a H) p = slot_name H p"
  by (cases p) (auto simp: slot_name_def after_delete_def)

lemma slots_wf_after_delete:
  "sh_items H a = Some it \<Longrightarrow> slots_wf (after_delete a H) items = slots_wf H items"
  by (simp add: slots_wf_def reached_def occupied_by_others_def slot_name_after_delete)

lemma delete_entry:
  assumes wf: "st_wf H T" and e: "entry H (st_items T) key a"
  shows "\<exists>T'. symtable_delete (Some T) key H = Some (Some T', after_delete a H, SYMTAB_OK) \<and>
    st_wf (after_delete a H) T' \<and> symtable_search (Some T') key (after_delete a H) = Some (None, SYMTAB_ERR_ITEM_NOT_FOUND)"
proof -
  let ?H = "after_delete a H"
  let ?T = "T\<lparr>st_deactivated := st_deactivated T + 1\<rparr>"
  from wf have T: "length (st_items T) = st_size T" "slots_wf H (st_items T)"
    by (simp_all add: st_wf_def)
  from e obtain it where it: "sh_items H a = Some it" "it_name it = key" "it_active it"
    by (auto simp: entry_def)
  from e obtain j where j: "j < length (st_items T)" "st_items T ! j = Some a"
    by (auto simp: entry_def in_set_conv_nth)
  have nm: "slot_name H (st_items T ! j) = Some key" using j it by (simp add: slot_name_def)
  have only: "i = j" if "i < length (st_items T)" "st_items T ! i = Some a" for i
    by (rule slot_unique [OF T(2) that(1) j(1) _ nm]) (use that it in \<open>simp add: slot_name_def\<close>)
  have "inactive ?H (st_items T) = insert j (inactive H (st_items T))"
  proof (intro equalityI subsetI)
    fix i
    show "i \<in> insert j (inactive H (st_items T))" if "i \<in> inactive ?H (st_items T)"
      using that only [of i] by (cases "st_items T ! i = Some a") (auto simp: inactive_def after_delete_def)
    show "i \<in> inactive ?H (st_items T)" if "i \<in> insert j (inactive H (st_items T))"
      using that j it by (cases "st_items T ! i = Some a") (auto simp: inactive_def after_delete_def)
  qed
  moreover have "j \<notin> inactive H (st_items T)" using j it by (auto simp: inactive_def)
  moreover have "finite (inactive H (st_items T))" by (simp add: inactive_def)
  ultimately have c: "card (inactive ?H (st_items T)) = card (inactive H (st_items T)) + 1" by simp
  have w: "st_wf ?H ?T"
    using wf c slots_wf_after_delete [OF it(1)] by (simp add: st_wf_def)
  have "symtable_delete (Some T) key H = Some (Some ?T, ?H, SYMTAB_OK)"
    using entry_search [OF T(2,1) e] it(1)
    by (simp add: symtable_delete_def set_item_def after_delete_def)
  moreover have "symtable_search (Some ?T) key ?H = Some (search_result ?H (st_items T ! j))"
    using search_found [of ?H ?T j key] w j(1) nm slot_name_after_delete [OF it(1)]
    by (simp add: st_wf_def)
  ultimately show ?thesis
    using w it(1) j(2) by (auto simp: search_result_def after_delete_def)
qed

section \<open>Six names that block a seventh\<close>

fun insert_all :: "string list \<Rightarrow> symtab \<Rightarrow> symheap \<Rightarrow> (symtab \<times> symheap) c" where
  "insert_all [] T H = Some (T, H)"
| "insert_all (key # keys) T H = do {
     (symtab, H, error) \<leftarrow> symtable_insert (Some T) key H;
     T \<leftarrow> symtab;
     insert_all keys T H
   }"

lemma insert_home:
  assumes "st_items T ! home key (st_size T) = None" "length (st_items T) = st_size T" "1 < st_size T"
    "sh_budget H = None" "20 * (st_count T + 1) \<le> 13 * st_size T"
  shows "symtable_insert (Some T) key H = Some
    (Some (T\<lparr>st_items := (st_items T)[home key (st_size T) := Some (sh_fresh H)], st_count := st_count T + 1\<rparr>),
     after_insert key H, SYMTAB_OK)"
proof -
  have "home key (st_size T) < st_size T" using assms(3) by (simp add: home_def)
  then have "symtable_search (Some T) key H = Some (None, SYMTAB_ERR_ITEM_NOT_FOUND)"
    "get_hash key (st_items T) (st_size T) = Some (home key (st_size T))"
    using search_at [of T 0 H key] get_hash_at [of "st_items T" "st_size T" key 0] assms(1-3)
    by (simp_all add: path_0 search_result_def)
  then show ?thesis
    using assms(4,5) by (simp add: symtable_insert_def item_init_None check_load_def after_insert_def Let_def)
qed

lemma letters_home:
  "home ''a'' 11 = 9" "home ''b'' 11 = 10" "home ''c'' 11 = 0" "home ''g'' 11 = 4"
  "home ''i'' 11 = 6" "home ''j'' 11 = 7" "home ''l'' 11 = 9" "stride ''l'' 11 = 2"
  by (simp_all add: home_def stride_def schar_def)

lemma path_period: "odd p \<Longrightarrow> path key p (k + p) = path key p k"
proof -
  assume "odd p"
  then obtain m where m: "p = 2 * m + 1" by (rule oddE)
  have "tri p = p * m"
    using tri_double [of p] m by simp
  moreover have "tri (k + q) = tri k + k * q + tri q" for q
    by (induction q) (simp_all add: algebra_simps)
  ultimately have "tri (k + p) = tri k + k * p + p * m" by simp
  then have "home key p + tri (k + p) * stride key p = home key p + tri k * stride key p + p * ((k + m) * stride key p)"
    by (simp add: algebra_simps)
  then show ?thesis by (simp only: path_def mod_mult_self2)
qed

lemma path_mod: "odd p \<Longrightarrow> path key p k = path key p (k mod p)"
proof (induction k rule: less_induct)
  case (less k)
  show ?case
  proof (cases "k < p")
    case False
    then have "path key p k = path key p (k - p)" using path_period [OF less.prems, of key "k - p"] by simp
    also have "\<dots> = path key p ((k - p) mod p)" using False less odd_pos [OF less.prems] by simp
    finally show ?thesis using False by (simp add: le_mod_geq)
  qed simp
qed

lemma l_path: "path ''l'' 11 k \<in> {9, 0, 4, 10, 7, 6}"
proof -
  have "\<forall>r\<in>set [0..<11]. (9 + tri r * 2) mod 11 \<in> set [9, 0, 4, 10, 7, 6]" by code_simp
  moreover have "k mod 11 \<in> set [0..<11]" by simp
  ultimately have "(9 + tri (k mod 11) * 2) mod 11 \<in> set [9, 0, 4, 10, 7, 6]" by blast
  then have "path ''l'' 11 (k mod 11) \<in> {9, 0, 4, 10, 7, 6}" by (simp add: path_def letters_home)
  then show ?thesis using path_mod [of 11 "''l''" k] by simp
qed

lemma six_names:
  assumes "symtable_init (symheap_init None) = Some (T0, H0, e)"
  shows "\<exists>T H. insert_all [''a'', ''b'', ''c'', ''g'', ''i'', ''j''] T0 H0 = Some (T, H) \<and>
    symtable_search (Some T) ''l'' H = None"
proof -
  have T0: "T0 = \<lparr>st_items = replicate 11 None, st_count = 0, st_size = 11, st_deactivated = 0\<rparr>"
    and H0: "H0 = symheap_init None"
    using assms by (auto simp: symtable_init_def alloc_def symheap_init_def)
  obtain T H where r: "insert_all [''a'', ''b'', ''c'', ''g'', ''i'', ''j''] T0 H0 = Some (T, H)"
    and T: "st_size T = 11" "st_items T = (replicate 11 None)[9 := Some 0, 10 := Some 1, 0 := Some 2, 4 := Some 3, 6 := Some 4, 7 := Some 5]"
    and H: "sh_items H = Map.empty(0 \<mapsto> new_item ''a'' 0, 1 \<mapsto> new_item ''b'' 1, 2 \<mapsto> new_item ''c'' 2,
       3 \<mapsto> new_item ''g'' 3, 4 \<mapsto> new_item ''i'' 4, 5 \<mapsto> new_item ''j'' 5)"
    by (simp add: T0 H0 insert_home letters_home symheap_init_def nth_list_update del: One_nat_def)
  have "occupied_by_others H (st_items T) ''l'' (path ''l'' (st_size T) k)" for k
    using l_path [of k] by (auto simp: T H occupied_by_others_def slot_name_def new_item_def nth_list_update)
  from search_probe_diverges [OF this, of 0] have "symtable_search (Some T) ''l'' H = None"
    by (simp add: symtable_search_def hash_home hash2_stride path_0 T(1))
  with r show ?thesis by blast
qed

section \<open>A deleted name\<close>

text \<open>
  A name that was deleted cannot be declared again: the insertion reports success, but the
  search still ends at the slot of the deleted item.
\<close>

lemma delete_insert_search:
  assumes wf: "st_wf H T" and hp: "heap_wf H" and m: "sh_budget H = None"
    and e: "entry H (st_items T) key a" and room: "20 * (st_count T + 1) \<le> 13 * st_size T"
    and free: "st_items T ! path key (st_size T) k0 = None"
  shows "\<exists>T1 H1 T2 H2. symtable_delete (Some T) key H = Some (Some T1, H1, SYMTAB_OK) \<and>
    symtable_insert (Some T1) key H1 = Some (Some T2, H2, SYMTAB_OK) \<and>
    symtable_search (Some T2) key H2 = Some (None, SYMTAB_ERR_ITEM_NOT_FOUND)"
proof -
  let ?H1 = "after_delete a H"
  let ?H2 = "after_insert key ?H1"
  let ?items = "st_items T"
  let ?p = "st_size T"
  let ?T1 = "T\<lparr>st_deactivated := st_deactivated T + 1\<rparr>"
  from wf have "length ?items = ?p" "slots_wf H ?items" by (simp_all add: st_wf_def)
  then have T: "length ?items = ?p" "slots_wf H ?items" "1 < ?p"
    by (simp_all add: slots_wf_def prime_size_def)
  from e obtain it where it: "sh_items H a = Some it" "it_name it = key"
    by (auto simp: entry_def)
  from e obtain j where j: "j < length ?items" "?items ! j = Some a"
    by (auto simp: entry_def in_set_conv_nth)
  have d: "symtable_delete (Some T) key H = Some (Some ?T1, ?H1, SYMTAB_OK)"
    using entry_search [OF T(2,1) e] it(1) by (simp add: symtable_delete_def set_item_def after_delete_def)
  have wf1: "slots_wf ?H1 ?items" using T(2) by (simp add: slots_wf_after_delete [OF it(1)])
  have nj: "slot_name ?H1 (?items ! j) = Some key"
    unfolding slot_name_after_delete [OF it(1)] using j it by (simp add: slot_name_def)
  have s1: "symtable_search (Some ?T1) key ?H1 = Some (None, SYMTAB_ERR_ITEM_NOT_FOUND)"
    using search_found [of ?H1 ?T1 j key] wf1 T(1) j nj
    by (simp add: search_result_def after_delete_def)
  let ?k = "LEAST k. ?items ! path key ?p k = None"
  have i2: "?items ! path key ?p ?k = None" using free by (rule LeastI)
  then have g: "get_hash key ?items ?p = Some (path key ?p ?k)"
    by (rule get_hash_at [OF T(1,3)]) (use not_less_Least [of _ "\<lambda>k. ?items ! path key ?p k = None"] in blast)
  let ?i = "path key ?p ?k"
  let ?T2 = "?T1\<lparr>st_items := ?items[?i := Some (sh_fresh H)], st_count := st_count T + 1\<rparr>"
  have i: "?i < length ?items" "?items ! ?i = None"
    using path_less [of ?p key ?k] T(1,3) i2 by simp_all
  have b1: "sh_budget ?H1 = None" "sh_fresh ?H1 = sh_fresh H" using m by (simp_all add: after_delete_def)
  have ins: "symtable_insert (Some ?T1) key ?H1 = Some (Some ?T2, ?H2, SYMTAB_OK)"
    using room b1 unfolding symtable_insert_def s1
    by (simp add: g item_init_None check_load_def after_insert_def Let_def)
  have "b \<noteq> sh_fresh H" if "Some b \<in> set ?items" for b
    using slots_wf_items [OF T(2)] that hp by (auto simp: heap_wf_def)
  then have same: "same_items ?H1 ?H2 ?items" by (auto simp: same_items_def b1(2))
  have new: "sh_items ?H2 (sh_fresh H) = Some (new_item key (sh_unique_id ?H1))" by (simp add: b1(2))
  note sn = slot_name_place [OF same new _ i(1)]
  have "j \<in> occupied ?items" using j by (simp add: occupied_def)
  then have "reached ?H1 ?items key j" using wf1 nj unfolding slots_wf_def by fastforce
  then obtain k where k: "path key ?p k = j"
    "\<And>k'. k' < k \<Longrightarrow> occupied_by_others ?H1 ?items key (path key ?p k')"
    using T(1) by (metis reached_least)
  have "occupied_by_others ?H2 (st_items ?T2) key (path key (st_size ?T2) k')" if "k' < k" for k'
    using k(2) [OF that] sn [of "path key ?p k'"] path_less [of ?p key k'] T(1,3) i(2)
    by (auto simp: occupied_by_others_def)
  moreover have "slot_name ?H2 (st_items ?T2 ! path key (st_size ?T2) k) = Some key"
    using sn [OF j(1)] nj k(1) i(2) j(2) by auto
  ultimately have "symtable_search (Some ?T2) key ?H2 =
      Some (search_result ?H2 (st_items ?T2 ! path key (st_size ?T2) k))"
    using T(1,3) by (intro search_at) auto
  moreover have "j \<noteq> ?i" using i(2) j(2) by auto
  moreover have "sh_fresh H \<noteq> a" using hp it(1) by (auto simp: heap_wf_def)
  ultimately have "symtable_search (Some ?T2) key ?H2 = Some (None, SYMTAB_ERR_ITEM_NOT_FOUND)"
    using k(1) j(2) by (simp add: search_result_def after_delete_def)
  with d ins show ?thesis by blast
qed

section \<open>Disposal\<close>

lemma dispose_items_distinct:
  assumes "distinct (filter (\<lambda>p. p \<noteq> None) ps)"
    "\<forall>a. Some a \<in> set ps \<longrightarrow> (\<exists>it. sh_items H a = Some it \<and> (\<forall>p\<in>set (it_parameters it). p_label p \<noteq> None))"
  shows "dispose_items ps H = Some (H\<lparr>sh_items := (\<lambda>a. if Some a \<in> set ps then None else sh_items H a)\<rparr>)"
  using assms
proof (induction ps arbitrary: H)
  case (Cons p ps)
  have pd: "param_dispose qs = Some ()" if "\<forall>p\<in>set qs. p_label p \<noteq> None" for qs
    using that by (induction qs) auto
  show ?case
  proof (cases p)
    case None
    then show ?thesis using Cons by simp
  next
    case (Some a)
    then obtain it where it: "sh_items H a = Some it" "\<forall>p\<in>set (it_parameters it). p_label p \<noteq> None"
      using Cons.prems(2) by auto
    let ?H = "H\<lparr>sh_items := (sh_items H)(a := None)\<rparr>"
    have "Some a \<notin> set ps" using Cons.prems(1) Some by auto
    then have "dispose_items ps ?H = Some (?H\<lparr>sh_items := (\<lambda>b. if Some b \<in> set ps then None else sh_items ?H b)\<rparr>)"
      using Cons.prems Some by (intro Cons.IH) auto
    moreover have "(\<lambda>b. if Some b \<in> set ps then None else sh_items ?H b) =
        (\<lambda>b. if Some b \<in> set (p # ps) then None else sh_items H b)"
      using Some by auto
    ultimately show ?thesis using it Some pd by simp
  qed
qed simp

lemma slots_distinct: "slots_wf H items \<Longrightarrow> distinct (filter (\<lambda>p. p \<noteq> None) items)"
proof -
  assume wf: "slots_wf H items"
  have "distinct (map (\<lambda>p. p) (filter (\<lambda>p. p \<noteq> None) items))"
  proof (rule distinct_map_filterI)
    fix i j
    assume ij: "i < j" "j < length items" "items ! i \<noteq> None" "items ! j \<noteq> None"
    have "i \<in> occupied items" using ij by (simp add: occupied_def)
    then obtain k where "slot_name H (items ! i) = Some k" using wf unfolding slots_wf_def by blast
    then show "items ! i \<noteq> items ! j" using slot_unique [OF wf, of i j k] ij by auto
  qed
  then show ?thesis by simp
qed

text \<open>Disposal releases exactly the items of the table.\<close>

lemma dispose_wf:
  assumes "st_wf H T" "\<forall>a it. Some a \<in> set (st_items T) \<and> sh_items H a = Some it \<longrightarrow>
      (\<forall>p\<in>set (it_parameters it). p_label p \<noteq> None)"
  shows "symtable_dispose T H = Some (T\<lparr>st_items := []\<rparr>,
     H\<lparr>sh_items := (\<lambda>a. if Some a \<in> set (st_items T) then None else sh_items H a)\<rparr>)"
  using dispose_items_distinct [OF slots_distinct, of H "st_items T"] slots_wf_items [of H "st_items T"] assms
  by (fastforce simp: symtable_dispose_def st_wf_def)

section \<open>The contract of a table of names\<close>

text \<open>
  The scopes use a table through search and insertion. \<open>ends\<close> says that the search for a
  name returns, \<open>absent\<close> that the table never had the name; both are part of the contract
  because the probing of the code does not guarantee the first.
\<close>

locale name_table =
  fixes inv :: "'h \<Rightarrow> 't \<Rightarrow> bool"
    and ends :: "'h \<Rightarrow> 't \<Rightarrow> string \<Rightarrow> bool"
    and absent :: "'h \<Rightarrow> 't \<Rightarrow> string \<Rightarrow> bool"
    and binds :: "'h \<Rightarrow> 't \<Rightarrow> string \<Rightarrow> 'a \<Rightarrow> bool"
    and search :: "'t \<Rightarrow> string \<Rightarrow> 'h \<Rightarrow> 'a option c"
    and room :: "'h \<Rightarrow> 't \<Rightarrow> bool"
    and insert :: "'t \<Rightarrow> string \<Rightarrow> 'h \<Rightarrow> ('t \<times> 'h) c"
  assumes search_law: "inv H T \<Longrightarrow> ends H T k \<Longrightarrow> \<exists>r. search T k H = Some r \<and> (\<forall>a. r = Some a \<longleftrightarrow> binds H T k a)"
    and binds_ends: "inv H T \<Longrightarrow> binds H T k a \<Longrightarrow> ends H T k"
    and search_sound: "inv H T \<Longrightarrow> search T k H = Some (Some a) \<Longrightarrow> binds H T k a"
    and absent_free: "absent H T k \<Longrightarrow> \<not> binds H T k a"
    and insert_law: "inv H T \<Longrightarrow> room H T \<Longrightarrow> ends H T k \<Longrightarrow> absent H T k \<Longrightarrow>
      \<exists>T' H' a. insert T k H = Some (T', H') \<and> (inv H' T') \<and>
        (\<forall>k' b. binds H' T' k' b \<longleftrightarrow> binds H T k' b \<or> k' = k \<and> b = a) \<and>
        (\<forall>k'. absent H T k' \<and> k' \<noteq> k \<longrightarrow> absent H' T' k')"
begin

lemma binds_search: "inv H T \<Longrightarrow> binds H T k a \<Longrightarrow> search T k H = Some (Some a)"
  using search_law [OF _ binds_ends] by (metis option.exhaust)

lemma binds_unique: "inv H T \<Longrightarrow> binds H T k a \<Longrightarrow> binds H T k b \<Longrightarrow> a = b"
  using binds_search by (metis option.inject)

lemma search_insert_same:
  assumes "inv H T" "room H T" "ends H T k" "absent H T k"
  shows "\<exists>T' H' a. insert T k H = Some (T', H') \<and> inv H' T' \<and> search T' k H' = Some (Some a)"
  using insert_law [OF assms] binds_search by metis

lemma search_insert_other:
  assumes "inv H T" "room H T" "ends H T k" "absent H T k" "search T k' H = Some (Some b)"
  shows "\<exists>T' H'. insert T k H = Some (T', H') \<and> inv H' T' \<and> search T' k' H' = Some (Some b)"
  using insert_law [OF assms(1-4)] search_sound [OF assms(1,5)] binds_search by metis

lemma search_absent:
  assumes "inv H T" "ends H T k" "absent H T k"
  shows "search T k H = Some None"
  using search_law [OF assms(1,2)] absent_free [OF assms(3)] by (metis not_None_eq)

end

text \<open>The hash table provides it.\<close>

definition table_inv :: "symheap \<Rightarrow> symtab \<Rightarrow> bool" where
  "table_inv H T \<longleftrightarrow> st_wf H T \<and> heap_wf H \<and> sh_budget H = None"

definition table_insert :: "symtab \<Rightarrow> string \<Rightarrow> symheap \<Rightarrow> (symtab \<times> symheap) c" where
  "table_insert T key H = do { (T', H', error) \<leftarrow> symtable_insert (Some T) key H; T' \<leftarrow> T'; Some (T', H') }"

lemma heap_wf_after_insert: "heap_wf H \<Longrightarrow> heap_wf (after_insert key H)"
  by (auto simp: heap_wf_def less_Suc_eq)

interpretation table: name_table table_inv
  "\<lambda>H T key. probe_ends H (st_items T) key" "\<lambda>H T key. key \<notin> names H (st_items T)"
  "\<lambda>H T. entry H (st_items T)" "\<lambda>T key H. map_option fst (symtable_search (Some T) key H)"
  "\<lambda>H T. st_count T < 16398" table_insert
proof
  fix H T k a
  show "\<exists>r. map_option fst (symtable_search (Some T) k H) = Some r \<and> (\<forall>a. r = Some a \<longleftrightarrow> entry H (st_items T) k a)"
    if "table_inv H T" "probe_ends H (st_items T) k"
  proof (cases "k \<in> names H (st_items T)")
    case False
    then have "\<not> entry H (st_items T) k a" for a by (auto simp: entry_def names_alt)
    then show ?thesis using that False search_missing [of H T k] by (auto simp: table_inv_def st_wf_def)
  next
    case True
    have wf: "slots_wf H (st_items T)" "length (st_items T) = st_size T"
      using that(1) by (simp_all add: table_inv_def st_wf_def)
    from True obtain j where j: "j < st_size T" "slot_name H (st_items T ! j) = Some k"
      using wf(2) by (auto simp: names_def)
    obtain r e where r: "symtable_search (Some T) k H = Some (r, e)"
      using search_found [OF wf j] by (cases "search_result H (st_items T ! j)") simp
    then show ?thesis
      using search_ok_entry [OF wf] entry_search [OF wf] by fastforce
  qed
  show "probe_ends H (st_items T) k" if "table_inv H T" "entry H (st_items T) k a"
    using that(2) by (auto simp: probe_ends_def entry_def names_alt)
  show "entry H (st_items T) k a" if "table_inv H T" "map_option fst (symtable_search (Some T) k H) = Some (Some a)"
    using that search_ok_entry [of H T k a] by (auto simp: table_inv_def st_wf_def)
  show "\<not> entry H (st_items T) k a" if "k \<notin> names H (st_items T)"
    using that by (auto simp: entry_def names_alt)
  show "\<exists>T' H' a. table_insert T k H = Some (T', H') \<and> table_inv H' T' \<and>
        (\<forall>k' b. entry H' (st_items T') k' b \<longleftrightarrow> entry H (st_items T) k' b \<or> k' = k \<and> b = a) \<and>
        (\<forall>k'. k' \<notin> names H (st_items T) \<and> k' \<noteq> k \<longrightarrow> k' \<notin> names H' (st_items T'))"
    if "table_inv H T" "st_count T < 16398" "probe_ends H (st_items T) k" "k \<notin> names H (st_items T)"
  proof -
    have w: "st_wf H T" "heap_wf H" "sh_budget H = None" using that(1) by (simp_all add: table_inv_def)
    from insert_new [OF w that(4,3,2)] obtain T' where
      "symtable_insert (Some T) k H = Some (Some T', after_insert k H, SYMTAB_OK)" "st_wf (after_insert k H) T'"
      "\<forall>k' b. entry (after_insert k H) (st_items T') k' b \<longleftrightarrow> entry H (st_items T) k' b \<or> k' = k \<and> b = sh_fresh H"
      "names (after_insert k H) (st_items T') \<subseteq> Set.insert k (names H (st_items T))" by blast
    then show ?thesis
      using w heap_wf_after_insert [OF w(2), of k] by (fastforce simp: table_insert_def table_inv_def)
  qed
qed

section \<open>Tables less than half full\<close>

lemma next_size_greater: "next_size ps sz = Some q \<Longrightarrow> sz < q"
  by (induction ps sz rule: next_size.induct) (auto split: if_splits)

text \<open>Insertion never shrinks the table, and adds at most one to its count.\<close>

lemma check_load_grows:
  "check_load T H e = Some (T', H', e') \<Longrightarrow> st_size T \<le> st_size T' \<and> st_count T' \<le> st_count T"
  using next_size_greater [of primes "st_size T"]
  by (cases "alloc H") (auto simp: check_load_def resize_def bind_Some_iff less_imp_le split: if_splits bool.splits)

lemma insert_grows:
  assumes "symtable_insert (Some T) key H = Some (Some T', H', e)"
  shows "st_size T \<le> st_size T' \<and> st_count T' \<le> Suc (st_count T)"
proof (cases "item_init key H SYMTAB_OK")
  case (fields new H1 e1)
  then show ?thesis using assms
    by (auto simp: symtable_insert_def bind_Some_iff Let_def split: if_splits dest!: check_load_grows)
qed

lemma half_ends:
  assumes "st_wf H T" "2 * st_count T < st_size T"
  shows "probe_ends H (st_items T) key"
proof -
  have "prime_size (length (st_items T))" "card (occupied (st_items T)) < (length (st_items T) + 1) div 2"
    using assms by (auto simp: st_wf_def slots_wf_def)
  then show ?thesis unfolding probe_ends_def using half_full_free by blast
qed

lemma search_entry:
  "table_inv H T \<Longrightarrow> symtable_search (Some T) k H = Some (Some a, SYMTAB_OK) \<longleftrightarrow> entry H (st_items T) k a"
  using entry_search [of H T k a] search_ok_entry [of H T k a] by (auto simp: table_inv_def st_wf_def)

text \<open>A name that is looked up in vain is inserted behind the others.\<close>

lemma check_load_strict:
  "check_load T H e = Some (T', H', e') \<Longrightarrow> sh_budget H = None \<Longrightarrow> 13 * st_size T < 20 * st_count T \<Longrightarrow> st_size T < st_size T'"
  using next_size_greater [of primes "st_size T"]
  by (auto simp: check_load_def resize_def bind_Some_iff alloc_None)

lemma insert_strict:
  assumes "symtable_insert (Some T) key H = Some (Some T', H', e)" "sh_budget H = None"
    "symtable_search (Some T) key H = Some (None, e0)" "13 * st_size T < 20 * Suc (st_count T)"
  shows "st_size T < st_size T'"
  using assms
  by (auto simp: symtable_insert_def item_init_None bind_Some_iff Let_def dest!: check_load_strict)

lemma insert_ends:
  assumes inv: "table_inv H T" and new: "name \<notin> names H (st_items T)" and ends: "probe_ends H (st_items T) name" and room: "st_count T < 16398"
  obtains T' where "symtable_insert (Some T) name H = Some (Some T', after_insert name H, SYMTAB_OK)" "table_inv (after_insert name H) T'"
    "\<forall>k a. entry (after_insert name H) (st_items T') k a \<longleftrightarrow> entry H (st_items T) k a \<or> k = name \<and> a = sh_fresh H"
    "names (after_insert name H) (st_items T') \<subseteq> insert name (names H (st_items T))"
    "st_size T \<le> st_size T'" "st_count T' \<le> Suc (st_count T)" "13 * st_size T < 20 * Suc (st_count T) \<longrightarrow> st_size T < st_size T'"
    "symtable_search (Some T) name H = Some (None, SYMTAB_ERR_ITEM_NOT_FOUND)"
proof -
  have w: "st_wf H T" "heap_wf H" "sh_budget H = None" using inv by (simp_all add: table_inv_def)
  obtain T' where T': "symtable_insert (Some T) name H = Some (Some T', after_insert name H, SYMTAB_OK)"
    "st_wf (after_insert name H) T'"
    "\<forall>k a. entry (after_insert name H) (st_items T') k a \<longleftrightarrow> entry H (st_items T) k a \<or> k = name \<and> a = sh_fresh H"
    "names (after_insert name H) (st_items T') \<subseteq> insert name (names H (st_items T))"
    using insert_new [OF w new ends room] by blast
  have "table_inv (after_insert name H) T'"
    using T'(2) heap_wf_after_insert [OF w(2)] w(3) by (simp add: table_inv_def)
  moreover have s: "symtable_search (Some T) name H = Some (None, SYMTAB_ERR_ITEM_NOT_FOUND)"
    using search_missing [OF _ _ new ends] w(1) by (simp add: st_wf_def)
  ultimately show ?thesis using that [of T'] T' insert_grows [OF T'(1)] insert_strict [OF T'(1) w(3) s] by blast
qed

text \<open>A name that a table less than half full does not have is inserted behind the others.\<close>

lemma insert_absent:
  assumes inv: "table_inv H T" and new: "name \<notin> names H (st_items T)" and half: "2 * st_count T < st_size T"
  obtains T' where "symtable_search (Some T) name H = Some (None, SYMTAB_ERR_ITEM_NOT_FOUND)"
    "symtable_insert (Some T) name H = Some (Some T', after_insert name H, SYMTAB_OK)" "table_inv (after_insert name H) T'"
    "\<forall>k a. entry (after_insert name H) (st_items T') k a \<longleftrightarrow> entry H (st_items T) k a \<or> k = name \<and> a = sh_fresh H"
    "names (after_insert name H) (st_items T') \<subseteq> insert name (names H (st_items T))"
    "st_size T \<le> st_size T'" "st_count T' \<le> Suc (st_count T)"
proof -
  have w: "st_wf H T" using inv by (simp add: table_inv_def)
  have "st_size T \<in> set primes" using w by (simp add: st_wf_def)
  then have "st_size T \<le> 25229" by (auto simp: primes_def)
  then have "st_count T < 16398" using half by simp
  from insert_ends [OF inv new half_ends [OF w half] this] show ?thesis using that by metis
qed

end
