(* ===== verification/Symtable_Attributes.thy ===== *)
theory Symtable_Attributes
  imports Symtable_Map
begin

text \<open>
  The accessors of \<open>src/symtable.c\<close>: what they do to the item of a name, that they keep the
  table's invariant and all other entries, and the parameters of functions.
\<close>

section \<open>Attributes\<close>

text \<open>
  An accessor applied to a name of the table works on the item of that entry. An update that
  keeps the name and the active flag keeps the invariant and all entries.
\<close>

lemma with_item_entry:
  assumes "st_wf H T" "entry H (st_items T) key a" "sh_items H a = Some it"
  shows "with_item (Some T) key H fail f = f a it SYMTAB_OK"
  using entry_search [OF _ _ assms(2)] assms(1,3) by (simp add: with_item_def st_wf_def)

lemma with_item_missing:
  assumes "st_wf H T" "key \<notin> names H (st_items T)" "probe_ends H (st_items T) key"
  shows "with_item (Some T) key H fail f = Some (fail SYMTAB_ERR_ITEM_NOT_FOUND)"
  using search_missing [OF _ _ assms(2,3)] assms(1)
  by (simp add: with_item_def st_wf_def report_error_def symtab_errors)

definition upd_item :: "nat \<Rightarrow> (symtab_item \<Rightarrow> symtab_item) \<Rightarrow> symheap \<Rightarrow> symheap" where
  "upd_item a f H = H\<lparr>sh_items := (sh_items H)(a \<mapsto> f (the (sh_items H a)))\<rparr>"

definition keeps_identity :: "(symtab_item \<Rightarrow> symtab_item) \<Rightarrow> bool" where
  "keeps_identity f \<longleftrightarrow> (\<forall>it. it_name (f it) = it_name it \<and> it_active (f it) = it_active it)"

lemma set_item_upd: "sh_items H a = Some it \<Longrightarrow> set_item H a f = Some (upd_item a f H)"
  by (simp add: set_item_def upd_item_def)

lemma slot_name_upd: "sh_items H a = Some it \<Longrightarrow> keeps_identity f \<Longrightarrow> slot_name (upd_item a f H) p = slot_name H p"
  by (cases p) (auto simp: slot_name_def upd_item_def keeps_identity_def)

lemma entry_upd:
  "sh_items H a = Some it \<Longrightarrow> keeps_identity f \<Longrightarrow> entry (upd_item a f H) items key b = entry H items key b"
  by (auto simp: entry_def upd_item_def keeps_identity_def)

lemma st_wf_upd:
  assumes "sh_items H a = Some it" "keeps_identity f"
  shows "st_wf (upd_item a f H) T = st_wf H T"
proof -
  have "inactive (upd_item a f H) items = inactive H items" for items
    using assms by (auto simp: inactive_def upd_item_def keeps_identity_def)
  then show ?thesis
    by (simp add: st_wf_def slots_wf_def reached_def occupied_by_others_def slot_name_upd [OF assms])
qed

lemma get_after_set:
  assumes "st_wf H T" "entry H (st_items T) key a" "sh_items H a = Some it" "keeps_identity f"
  shows "with_item (Some T) key (upd_item a f H) fail g = g a (f it) SYMTAB_OK"
    and "key' \<noteq> key \<Longrightarrow> entry H (st_items T) key' b \<Longrightarrow> sh_items H b = Some it' \<Longrightarrow>
      with_item (Some T) key' (upd_item a f H) fail g = g b it' SYMTAB_OK"
proof -
  note w = st_wf_upd [OF assms(3,4), of T] entry_upd [OF assms(3,4)]
  show "with_item (Some T) key (upd_item a f H) fail g = g a (f it) SYMTAB_OK"
    by (rule with_item_entry) (use assms w in \<open>simp_all add: upd_item_def\<close>)
  show "with_item (Some T) key' (upd_item a f H) fail g = g b it' SYMTAB_OK"
    if "key' \<noteq> key" "entry H (st_items T) key' b" "sh_items H b = Some it'"
  proof (rule with_item_entry)
    have "b \<noteq> a" using that assms(2,3) by (auto simp: entry_def)
    then show "sh_items (upd_item a f H) b = Some it'" using that by (simp add: upd_item_def)
  qed (use assms w that in simp_all)
qed

lemmas accessor_defs =
  set_type_def get_type_def set_mutability_def get_mutability_def set_nillable_def get_nillable_def
  set_func_definition_def get_func_definition_def set_return_type_def get_return_type_def
  with_function_def

lemma set_get_type:
  assumes "st_wf H T" "entry H (st_items T) key a"
  obtains H' it where "set_type (Some T) key type H = Some (H', SYMTAB_OK)" "st_wf H' T"
    "get_type (Some T) key H' = Some (type, SYMTAB_OK)"
    "sh_items H a = Some it" "H' = H\<lparr>sh_items := (sh_items H)(a \<mapsto> it\<lparr>it_type := type\<rparr>)\<rparr>"
    "\<And>key' b. key' \<noteq> key \<Longrightarrow> entry H (st_items T) key' b \<Longrightarrow>
       get_type (Some T) key' H' = get_type (Some T) key' H"
proof -
  from assms(2) obtain it where it: "sh_items H a = Some it" by (auto simp: entry_def)
  let ?f = "\<lambda>it. it\<lparr>it_type := type\<rparr>"
  have k: "keeps_identity ?f" by (simp add: keeps_identity_def)
  have other: "get_type (Some T) key' (upd_item a ?f H) = get_type (Some T) key' H"
    if ne: "key' \<noteq> key" and e: "entry H (st_items T) key' b" for key' b
  proof -
    obtain it' where it': "sh_items H b = Some it'" using e by (auto simp: entry_def)
    show ?thesis
      by (simp add: get_type_def get_after_set(2) [OF assms it k ne e it'] with_item_entry [OF assms(1) e it'])
  qed
  have u: "upd_item a ?f H = H\<lparr>sh_items := (sh_items H)(a \<mapsto> it\<lparr>it_type := type\<rparr>)\<rparr>" by (simp add: upd_item_def it)
  show ?thesis
    by (rule that [of "upd_item a ?f H" it, OF _ _ _ it u other])
      (simp_all add: accessor_defs with_item_entry [OF assms it] set_item_upd [OF it]
        get_after_set(1) [OF assms it k] st_wf_upd [OF it k] assms(1))
qed

section \<open>Parameters\<close>

lemma search_param_from_append:
  "search_param_from (ps @ qs) i key =
     (case search_param_from ps i key of None \<Rightarrow> search_param_from qs (i + length ps) key | Some j \<Rightarrow> Some j)"
  by (induction ps arbitrary: i) (auto split: option.split)

lemma search_param_from_name: "search_param_from ps i key = None \<longleftrightarrow> key \<notin> p_name ` set ps"
  by (induction ps arbitrary: i) (auto simp: strcmp_eq_0)

lemma search_param_from_less: "search_param_from ps i key = Some j \<Longrightarrow> i \<le> j \<and> j < i + length ps \<and> p_name (ps ! (j - i)) = key"
proof (induction ps arbitrary: i)
  case (Cons p ps)
  show ?case
  proof (cases "strcmp (p_name p) key = 0")
    case False
    then have "search_param_from ps (i + 1) key = Some j" using Cons.prems by simp
    then show ?thesis using Cons.IH [of "i + 1"] by (auto simp: nth_Cons' )
  qed (use Cons.prems in \<open>auto simp: strcmp_eq_0\<close>)
qed simp

text \<open>
  A parameter appended to a function of the table is found by its name, behind the others,
  with no type yet.
\<close>

lemma add_param_entry:
  assumes "st_wf H T" "entry H (st_items T) fn a" "sh_items H a = Some it" "it_type it = T_function"
    "sh_budget H = None"
  obtains p where "add_param (Some T) fn name H = Some (upd_item a (\<lambda>it. it\<lparr>it_parameters := it_parameters it @ [p]\<rparr>) H, SYMTAB_OK)"
    "p_name p = name" "p_type p = T_undefined" "p_label p = Some []" "p_is_nillable p = None"
proof -
  let ?p = "\<lparr>p_name = name, p_label = Some [], p_label_size = DSTR_ALLOC_SIZE, p_type = T_undefined, p_is_nillable = None\<rparr>"
  have "param_init name H e = (Some ?p, H, e)" for e
    using assms(5) by (simp add: param_init_def alloc_None str_copy_def Let_def)
  then have "add_param (Some T) fn name H = Some (upd_item a (\<lambda>it. it\<lparr>it_parameters := it_parameters it @ [?p]\<rparr>) H, SYMTAB_OK)"
    using assms(4) by (simp add: add_param_def with_function_def with_item_entry [OF assms(1-3)]
      set_item_upd [OF assms(3)] upd_item_def assms(3))
  then show ?thesis using that [of ?p] by simp
qed

lemma param_type_after_add:
  assumes "st_wf H T" "entry H (st_items T) fn a" "sh_items H a = Some it" "it_type it = T_function"
    "sh_budget H = None" "name \<notin> p_name ` set (it_parameters it)"
  shows "\<exists>H1 H2. add_param (Some T) fn name H = Some (H1, SYMTAB_OK) \<and>
    set_param_type (Some T) fn name type H1 = Some (H2, SYMTAB_OK) \<and>
    get_param_type (Some T) fn name H2 = Some (type, SYMTAB_OK) \<and> st_wf H2 T"
proof -
  obtain p where p: "add_param (Some T) fn name H = Some (upd_item a (\<lambda>it. it\<lparr>it_parameters := it_parameters it @ [p]\<rparr>) H, SYMTAB_OK)"
    "p_name p = name" by (rule add_param_entry [OF assms(1-5), of name]) blast
  let ?f = "\<lambda>it. it\<lparr>it_parameters := it_parameters it @ [p]\<rparr>"
  let ?H1 = "upd_item a ?f H"
  have k: "keeps_identity ?f" by (simp add: keeps_identity_def)
  have s: "search_param (it_parameters it @ [p]) name SYMTAB_OK = (Some (length (it_parameters it)), SYMTAB_OK)"
    using search_param_from_name [of "it_parameters it" 0 name] assms(6) p(2)
    by (simp add: search_param_def search_param_from_append strcmp_eq_0)
  let ?ps = "it_parameters it @ [p\<lparr>p_type := type\<rparr>]"
  let ?g = "\<lambda>it. it\<lparr>it_parameters := ?ps\<rparr>"
  have g: "keeps_identity ?g" by (simp add: keeps_identity_def)
  have w1: "st_wf ?H1 T" "entry ?H1 (st_items T) fn a" "sh_items ?H1 a = Some (?f it)"
    using assms(1,2) st_wf_upd [OF assms(3) k] entry_upd [OF assms(3) k] assms(3)
    by (simp_all add: upd_item_def)
  have "set_param_type (Some T) fn name type ?H1 = Some (upd_item a ?g ?H1, SYMTAB_OK)"
    using assms(4) s by (simp add: set_param_type_def with_param_def with_function_def
        with_item_entry [OF w1] set_item_upd [OF w1(3)] list_update_append)
  moreover have s2: "search_param ?ps name SYMTAB_OK = (Some (length (it_parameters it)), SYMTAB_OK)"
    using search_param_from_name [of "it_parameters it" 0 name] assms(6) p(2)
    by (simp add: search_param_def search_param_from_append strcmp_eq_0)
  have "get_param_type (Some T) fn name (upd_item a ?g ?H1) = Some (type, SYMTAB_OK)"
    using assms(4) s2 by (simp add: get_param_type_def with_param_def with_function_def
        get_after_set(1) [OF w1 g])
  ultimately show ?thesis using p(1) st_wf_upd [OF w1(3) g] w1(1) by auto
qed

lemma table_inv_upd:
  assumes "table_inv H T" "sh_items H a = Some it" "keeps_identity f"
  shows "table_inv (upd_item a f H) T"
  using assms(1) st_wf_upd [OF assms(2,3), of T] assms(2) by (auto simp: table_inv_def heap_wf_def upd_item_def)

lemma names_upd:
  "sh_items H a = Some it \<Longrightarrow> keeps_identity f \<Longrightarrow> names (upd_item a f H) items = names H items"
  by (simp add: names_def slot_name_upd)

lemma upd_item_item: "sh_items H a = Some it \<Longrightarrow> sh_items (upd_item a f H) a = Some (f it)"
  by (simp add: upd_item_def)

lemma upd_item_twice: "upd_item a g (upd_item a f H) = upd_item a (\<lambda>it. g (f it)) H"
  by (simp add: upd_item_def)

end
