(* ===== verification/Scope.thy ===== *)
theory Scope
  imports Symtable_Attributes
begin

text \<open>
  The stack of local symbol tables of \<open>src/scope.c\<close>, innermost scope first. The elements of
  the linked list are reached through the top alone, so the list stands for it; a null
  \<open>local_sym\<close> is \<open>None\<close>.
\<close>

section \<open>The operations\<close>

type_synonym scope = "symtab option list"

definition init_scope :: scope where
  "init_scope = []"

definition peek_scope :: "scope \<Rightarrow> bool" where
  "peek_scope stack \<longleftrightarrow> stack \<noteq> []"

definition add_scope :: "scope \<Rightarrow> symheap \<Rightarrow> (scope \<times> symheap \<times> nat) c" where
  "add_scope first H =
     (let error = SYMTAB_OK in
      case alloc H of
        (False, H) \<Rightarrow> Some (first, H, report_error error ERR_INTERNAL)
      | (True, H) \<Rightarrow> do {
          (local_sym, H, error) \<leftarrow> create_local_symtab H error;
          Some (local_sym # first, H, error)
        })"

text \<open>Disposing of a null table dereferences it.\<close>

definition pop_scope :: "scope \<Rightarrow> symheap \<Rightarrow> (scope \<times> symheap \<times> nat) c" where
  "pop_scope first H =
     (case first of
        local_sym # temp \<Rightarrow> do {
          T \<leftarrow> local_sym;
          (_, H) \<leftarrow> symtable_dispose T H;
          Some (temp, H, SYMTAB_OK)
        }
      | [] \<Rightarrow> Some ([], H, report_error SYMTAB_OK SYMTAB_NOT_INITIALIZED))"

fun dispose_scope :: "scope \<Rightarrow> symheap \<Rightarrow> (scope \<times> symheap \<times> nat) c" where
  "dispose_scope [] H = Some ([], H, SYMTAB_OK)"
| "dispose_scope (local_sym # temp) H = do {
     T \<leftarrow> local_sym;
     (_, H) \<leftarrow> symtable_dispose T H;
     dispose_scope temp H
   }"

text \<open>The loop of \<open>search_scopes\<close>: the stack from the scope that has the name, and the error.\<close>

fun find_scope :: "scope \<Rightarrow> string \<Rightarrow> symheap \<Rightarrow> nat \<Rightarrow> (scope \<times> nat) c" where
  "find_scope [] key H error = Some ([], error)"
| "find_scope (T # stack) key H error = do {
     (item, error) \<leftarrow> symtable_search T key H;
     if item = None then find_scope stack key H error else Some (T # stack, error)
   }"

definition search_scopes :: "scope \<Rightarrow> string \<Rightarrow> symheap \<Rightarrow> nat \<Rightarrow> (nat option \<times> nat) c" where
  "search_scopes stack key H error =
     (if stack = [] then Some (None, report_error error SYMTAB_NOT_INITIALIZED)
      else do {
        (stack, error) \<leftarrow> find_scope stack key H error;
        if peek_scope stack then symtable_search (hd stack) key H
        else Some (None, report_error error SYMTAB_ERR_ITEM_NOT_FOUND)
      })"

fun find_initialized :: "scope \<Rightarrow> string \<Rightarrow> symheap \<Rightarrow> nat \<Rightarrow> (scope \<times> nat) c" where
  "find_initialized [] key H error = Some ([], error)"
| "find_initialized (T # stack) key H error = do {
     (temp, error) \<leftarrow> symtable_search T key H;
     case temp of
       None \<Rightarrow> find_initialized stack key H error
     | Some a \<Rightarrow> do {
         item \<leftarrow> sh_items H a;
         if \<not> it_is_var_initialized item then find_initialized stack key H error
         else Some (T # stack, error)
       }
   }"

definition search_scopes_initialized_var ::
  "scope \<Rightarrow> string \<Rightarrow> symheap \<Rightarrow> nat \<Rightarrow> (nat option \<times> nat) c" where
  "search_scopes_initialized_var stack key H error =
     (if stack = [] then Some (None, report_error error SYMTAB_NOT_INITIALIZED)
      else do {
        (stack, error) \<leftarrow> find_initialized stack key H error;
        if peek_scope stack then symtable_search (hd stack) key H
        else Some (None, report_error error SYMTAB_ERR_ITEM_NOT_FOUND)
      })"

section \<open>Chains of tables\<close>

text \<open>
  A name is looked up in the innermost table first. The lemmas hold for every table of names
  that keeps its contract.
\<close>

context name_table begin

fun chain_search :: "'t list \<Rightarrow> string \<Rightarrow> 'h \<Rightarrow> 'a option c" where
  "chain_search [] k H = Some None"
| "chain_search (T # Ts) k H = do {
     r \<leftarrow> search T k H;
     case r of None \<Rightarrow> chain_search Ts k H | Some a \<Rightarrow> Some (Some a)
   }"

lemma chain_skip:
  assumes "\<forall>T\<in>set Us. inv H T \<and> ends H T k \<and> (\<forall>a. \<not> binds H T k a)"
  shows "chain_search (Us @ Ts) k H = chain_search Ts k H"
  using assms
proof (induction Us)
  case (Cons U Us)
  then have "search U k H = Some None" using search_law [of H U k] by auto
  then show ?case using Cons by simp
qed simp

lemma chain_innermost:
  assumes "\<forall>U\<in>set Us. inv H U \<and> ends H U k \<and> (\<forall>a. \<not> binds H U k a)" "inv H T" "binds H T k a"
  shows "chain_search (Us @ T # Ts) k H = Some (Some a)"
  using chain_skip [OF assms(1)] binds_search [OF assms(2,3)] by simp

lemma chain_unbound:
  assumes "\<forall>U\<in>set Us. inv H U \<and> ends H U k \<and> (\<forall>a. \<not> binds H U k a)"
  shows "chain_search Us k H = Some None"
  using chain_skip [OF assms, of "[]"] by simp

text \<open>A declaration in the innermost table hides an outer one of the same name.\<close>

lemma chain_shadow:
  assumes "inv H T" "room H T" "ends H T k" "absent H T k"
  shows "\<exists>T' H' a. insert T k H = Some (T', H') \<and> chain_search (T' # Ts) k H' = Some (Some a)"
  using search_insert_same [OF assms] by fastforce

end

text \<open>\<open>search_scopes\<close> is the chained search, with the error telling whether it succeeded.\<close>

lemma search_scopes_chain:
  assumes "stack \<noteq> []"
  shows "map_option fst (search_scopes (map Some stack) key H e) = table.chain_search stack key H"
proof -
  have "map_option fst (do {
        (stack, error) \<leftarrow> find_scope (map Some stack) key H e;
        if peek_scope stack then symtable_search (hd stack) key H
        else Some (None, report_error error SYMTAB_ERR_ITEM_NOT_FOUND) }) =
      table.chain_search stack key H" for e
  proof (induction stack arbitrary: e)
    case (Cons T Ts)
    show ?case
    proof (cases "symtable_search (Some T) key H")
      case (Some r)
      then show ?thesis using Cons.IH
        by (cases r; cases "fst r") (simp_all add: peek_scope_def)
    qed simp
  qed (simp add: peek_scope_def)
  then show ?thesis using assms by (simp add: search_scopes_def)
qed

section \<open>Well-formed stacks\<close>

definition scope_wf :: "symheap \<Rightarrow> symtab list \<Rightarrow> bool" where
  "scope_wf H Ts \<longleftrightarrow> heap_wf H \<and> sh_budget H = None \<and> (\<forall>T\<in>set Ts. st_wf H T)"

lemma scope_wf_inv: "scope_wf H Ts \<Longrightarrow> T \<in> set Ts \<Longrightarrow> table_inv H T"
  by (simp add: scope_wf_def table_inv_def)

text \<open>Opening a scope puts an empty table on top.\<close>

lemma add_scope_wf:
  assumes "scope_wf H Ts"
  obtains T where "add_scope (map Some Ts) H = Some (map Some (T # Ts), H, SYMTAB_OK)"
    "scope_wf H (T # Ts)" "names H (st_items T) = {}" "st_count T = 0" "\<And>key. probe_ends H (st_items T) key"
proof -
  have m: "sh_budget H = None" using assms by (simp add: scope_wf_def)
  let ?T = "\<lparr>st_items = replicate 11 None, st_count = 0, st_size = 11, st_deactivated = 0\<rparr>"
  obtain T where T: "symtable_init H = Some (T, H, SYMTAB_OK)" "st_wf H T" "names H (st_items T) = {}"
    by (rule init_wf [OF m])
  then have eq: "T = ?T" by (simp add: symtable_init_def alloc_None [OF m])
  have "replicate 11 None ! path key 11 0 = None" for key
    using path_less [of 11 key 0] by (simp add: nth_replicate del: replicate_Suc)
  then have "probe_ends H (st_items T) key" for key
    unfolding probe_ends_def eq by auto
  moreover have "add_scope (map Some Ts) H = Some (map Some (T # Ts), H, SYMTAB_OK)"
    using T(1) by (simp add: add_scope_def create_local_symtab_def alloc_None [OF m])
  moreover have "scope_wf H (T # Ts)" using assms T(2) by (simp add: scope_wf_def)
  ultimately show ?thesis using that T(3) eq by simp
qed

text \<open>Closing a scope releases its items and no others.\<close>

lemma pop_scope_wf:
  assumes "scope_wf H (T # Ts)" "\<forall>a it. Some a \<in> set (st_items T) \<and> sh_items H a = Some it \<longrightarrow>
      (\<forall>p\<in>set (it_parameters it). p_label p \<noteq> None)"
  shows "pop_scope (map Some (T # Ts)) H = Some (map Some Ts,
    H\<lparr>sh_items := (\<lambda>a. if Some a \<in> set (st_items T) then None else sh_items H a)\<rparr>, SYMTAB_OK)"
  using dispose_wf [of H T] assms by (simp add: pop_scope_def scope_wf_def)

text \<open>
  A scope is opened on the heap \<open>H0\<close> and names are declared in it: on the heap \<open>H\<close> its table \<open>T\<close>
  holds exactly the items that are new since then.
\<close>

definition opened :: "symheap \<Rightarrow> symtab \<Rightarrow> symheap \<Rightarrow> bool" where
  "opened H0 T H \<longleftrightarrow> table_inv H T \<and> st_deactivated T = 0 \<and> sh_fresh H0 \<le> sh_fresh H \<and>
     (\<forall>a. a < sh_fresh H0 \<longrightarrow> sh_items H a = sh_items H0 a) \<and>
     (\<forall>a. Some a \<in> set (st_items T) \<longleftrightarrow> sh_fresh H0 \<le> a \<and> a \<in> dom (sh_items H)) \<and>
     (\<forall>a it. Some a \<in> set (st_items T) \<and> sh_items H a = Some it \<longrightarrow> it_parameters it = [])"

lemma insert_deactivated:
  assumes "symtable_insert (Some T) key H = Some (Some T', H', e)" "st_deactivated T = 0"
  shows "st_deactivated T' = 0"
proof -
  have "st_deactivated U' = 0" if "check_load U K e0 = Some (U', K', e1)" "st_deactivated U = 0" for U K e0 U' K' e1
    using that by (cases "alloc K") (auto simp: check_load_def resize_def bind_Some_iff split: if_splits bool.splits)
  then show ?thesis
    using assms by (cases "item_init key H SYMTAB_OK") (auto simp: symtable_insert_def bind_Some_iff Let_def split: if_splits)
qed

text \<open>Without deleted items every slot that is taken is an entry.\<close>

lemma slot_entry:
  assumes "st_wf H T" "st_deactivated T = 0" "Some a \<in> set (st_items T)" "sh_items H a = Some it"
  shows "entry H (st_items T) (it_name it) a"
proof -
  have "finite (inactive H (st_items T))"
    by (rule finite_subset [of _ "{..<length (st_items T)}"]) (auto simp: inactive_def)
  then have "inactive H (st_items T) = {}" using assms(1,2) by (simp add: st_wf_def)
  then have "it_active it" using assms(3,4) by (fastforce simp: inactive_def in_set_conv_nth)
  then show ?thesis using assms(3,4) by (auto simp: entry_def)
qed

lemma names_entry:
  assumes "st_wf H T" "st_deactivated T = 0" "key \<in> names H (st_items T)"
  obtains a where "entry H (st_items T) key a"
  using assms slot_entry [OF assms(1,2)] by (auto simp: names_alt)

text \<open>An insertion that returns adds one item, or none when the name is there.\<close>

lemma insert_opened:
  assumes o: "opened H0 T H" and i: "symtable_insert (Some T) key H = Some (X, H', e)"
  obtains T' a where "X = Some T'" "opened H0 T' H'" "entry H' (st_items T') key a"
    "\<And>k b. entry H (st_items T) k b \<Longrightarrow> entry H' (st_items T') k b"
proof (cases "key \<in> names H (st_items T)")
  case True
  have w: "st_wf H T" "st_deactivated T = 0" using o by (simp_all add: opened_def table_inv_def)
  obtain a where "entry H (st_items T) key a" by (rule names_entry [OF w True])
  with insert_present [OF w(1) this] i o show ?thesis using that [of T a] by simp
next
  case new: False
  have inv: "table_inv H T" and w: "st_wf H T" "heap_wf H" "sh_budget H = None" and d: "st_deactivated T = 0"
    using o by (simp_all add: opened_def table_inv_def)
  have s: "slots_wf H (st_items T)" "length (st_items T) = st_size T" "20 * st_count T \<le> 13 * st_size T" "st_size T \<in> set primes"
    using w(1) by (simp_all add: st_wf_def)
  have ends: "probe_ends H (st_items T) key"
    by (rule ccontr) (use search_diverges [OF s(1,2)] i in \<open>simp add: symtable_insert_def\<close>)
  have room: "st_count T < 16398"
  proof (rule ccontr)
    assume "\<not> st_count T < 16398"
    with s(3,4) have "st_size T = 25229" "st_count T = 16398" by (auto simp: primes_def)
    with insert_overflow [OF w(1,3) new ends] i show False by simp
  qed
  obtain T' where T': "symtable_insert (Some T) key H = Some (Some T', after_insert key H, SYMTAB_OK)"
    "table_inv (after_insert key H) T'"
    "\<forall>k a. entry (after_insert key H) (st_items T') k a \<longleftrightarrow> entry H (st_items T) k a \<or> k = key \<and> a = sh_fresh H"
    using insert_ends [OF inv new ends room] by metis
  have X: "X = Some T'" "H' = after_insert key H" using T'(1) i by simp_all
  have d': "st_deactivated T' = 0" by (rule insert_deactivated [OF T'(1) d])
  have w': "st_wf H' T'" using T'(2) X(2) by (simp add: table_inv_def)
  have items: "\<exists>it. sh_items K a = Some it" if "st_wf K U" "Some a \<in> set (st_items U)" for K U a
    using slots_wf_items [of K "st_items U"] that by (auto simp: st_wf_def)
  have slots: "Some a \<in> set (st_items T') \<longleftrightarrow> Some a \<in> set (st_items T) \<or> a = sh_fresh H" for a
  proof
    assume a: "Some a \<in> set (st_items T')"
    then obtain it where it: "sh_items H' a = Some it" using items [OF w'] by blast
    have "entry H (st_items T) (it_name it) a \<or> it_name it = key \<and> a = sh_fresh H"
      using slot_entry [OF w' d' a it] T'(3) X(2) by blast
    then show "Some a \<in> set (st_items T) \<or> a = sh_fresh H" by (auto simp: entry_def)
  next
    assume a: "Some a \<in> set (st_items T) \<or> a = sh_fresh H"
    have "\<exists>k. entry H (st_items T) k a" if "Some a \<in> set (st_items T)"
    proof -
      obtain it where "sh_items H a = Some it" using items [OF w(1) \<open>Some a \<in> set (st_items T)\<close>] by blast
      then show ?thesis using slot_entry [OF w(1) d that] by blast
    qed
    with a obtain k where "entry (after_insert key H) (st_items T') k a" using T'(3) by metis
    then show "Some a \<in> set (st_items T')" by (simp add: entry_def)
  qed
  have f: "sh_fresh H0 \<le> sh_fresh H" using o by (simp add: opened_def)
  have "opened H0 T' H'"
    using o T'(2) d' f slots w(2) X(2) by (auto simp: opened_def new_item_def heap_wf_def split: if_splits)
  then show ?thesis using that [of T' "sh_fresh H"] X T'(3) by blast
qed

lemma insert_all_opened:
  "opened H0 T H \<Longrightarrow> insert_all keys T H = Some (T', H') \<Longrightarrow>
    opened H0 T' H' \<and> (\<forall>key\<in>set keys. \<exists>a. entry H' (st_items T') key a) \<and>
    (\<forall>k b. entry H (st_items T) k b \<longrightarrow> entry H' (st_items T') k b)"
proof (induction keys arbitrary: T H)
  case (Cons key keys)
  then obtain X H1 e T1 where i: "symtable_insert (Some T) key H = Some (X, H1, e)" "X = Some T1"
    "insert_all keys T1 H1 = Some (T', H')"
    by (auto simp: bind_Some_iff)
  obtain T2 a where "X = Some T2" "opened H0 T2 H1" "entry H1 (st_items T2) key a"
    "\<And>k b. entry H (st_items T) k b \<Longrightarrow> entry H1 (st_items T2) k b"
    by (rule insert_opened [OF Cons.prems(1) i(1)]) blast
  with Cons.IH [of T1 H1] i(2,3) show ?case by fastforce
qed simp

lemma st_wf_items: "sh_items H' = sh_items H \<Longrightarrow> st_wf H' T = st_wf H T"
  by (simp add: st_wf_def slots_wf_def reached_def occupied_by_others_def slot_name_def inactive_def cong: option.case_cong)

text \<open>
  Closing the scope: the outer scopes are there again, and the items of the heap are those from
  before.
\<close>

lemma close_opened:
  assumes w: "scope_wf H Ts" and o: "opened H T' H1"
  shows "\<exists>H2. pop_scope (map Some (T' # Ts)) H1 = Some (map Some Ts, H2, SYMTAB_OK) \<and> sh_items H2 = sh_items H \<and> scope_wf H2 Ts"
proof -
  let ?H2 = "H1\<lparr>sh_items := (\<lambda>a. if Some a \<in> set (st_items T') then None else sh_items H1 a)\<rparr>"
  have t: "st_wf H1 T'" "heap_wf H1" "sh_budget H1 = None" using o by (simp_all add: opened_def table_inv_def)
  have hw: "heap_wf H" using w by (simp add: scope_wf_def)
  have "symtable_dispose T' H1 = Some (T'\<lparr>st_items := []\<rparr>, ?H2)"
    by (rule dispose_wf [OF t(1)]) (use o in \<open>auto simp: opened_def\<close>)
  then have p: "pop_scope (map Some (T' # Ts)) H1 = Some (map Some Ts, ?H2, SYMTAB_OK)" by (simp add: pop_scope_def)
  have s: "sh_items ?H2 = sh_items H"
  proof
    fix a
    show "sh_items ?H2 a = sh_items H a"
    proof (cases "a < sh_fresh H")
      case True
      then show ?thesis using o by (simp add: opened_def)
    next
      case False
      then have "sh_items H a = None" using hw by (auto simp: heap_wf_def)
      moreover have "sh_items ?H2 a = None" using o False by (auto simp: opened_def)
      ultimately show ?thesis by simp
    qed
  qed
  have "scope_wf ?H2 Ts"
  proof -
    have "a < sh_fresh ?H2" if "a \<in> dom (sh_items ?H2)" for a
    proof -
      have "a < sh_fresh H" using that hw unfolding s heap_wf_def by blast
      then show ?thesis using o by (simp add: opened_def)
    qed
    then have "heap_wf ?H2" unfolding heap_wf_def by blast
    moreover have "\<forall>T\<in>set Ts. st_wf ?H2 T" using w st_wf_items [OF s] by (simp add: scope_wf_def)
    ultimately show ?thesis using t(3) by (simp add: scope_wf_def)
  qed
  with p s show ?thesis by blast
qed

lemma open_declare_close:
  assumes w: "scope_wf H Ts" and a: "add_scope (map Some Ts) H = Some (Some T # Ss, H0, e)"
    and i: "insert_all keys T H0 = Some (T', H1)"
  shows "(\<forall>key\<in>set keys. \<exists>a\<ge>sh_fresh H. symtable_search (Some T') key H1 = Some (Some a, SYMTAB_OK)) \<and>
    (\<exists>H2. pop_scope (Some T' # Ss) H1 = Some (map Some Ts, H2, SYMTAB_OK) \<and> sh_items H2 = sh_items H \<and> scope_wf H2 Ts)"
proof -
  obtain U where U: "add_scope (map Some Ts) H = Some (map Some (U # Ts), H, SYMTAB_OK)"
    "scope_wf H (U # Ts)" "names H (st_items U) = {}" "st_count U = 0" by (rule add_scope_wf [OF w]) blast
  have eq: "U = T" "Ss = map Some Ts" "H0 = H" using a U(1) by auto
  have v: "table_inv H T" using U(2) eq(1) by (simp add: scope_wf_def table_inv_def)
  have "slots_wf H (st_items T)" "st_deactivated T = card (inactive H (st_items T))" using v by (simp_all add: table_inv_def st_wf_def)
  moreover have no: "Some b \<notin> set (st_items T)" for b
    using U(3) eq(1) slots_wf_items [OF calculation(1)] by (fastforce simp: names_alt)
  then have "inactive H (st_items T) = {}" using nth_mem by (fastforce simp: inactive_def)
  moreover have "b \<notin> dom (sh_items H)" if "sh_fresh H \<le> b" for b
    using w that by (auto simp: scope_wf_def heap_wf_def simp del: not_less simp flip: not_less)
  ultimately have "opened H T H" using v no by (simp add: opened_def)
  then have o: "opened H T' H1" "\<forall>key\<in>set keys. \<exists>a. entry H1 (st_items T') key a"
    using insert_all_opened i eq(3) by blast+
  have "\<exists>a\<ge>sh_fresh H. symtable_search (Some T') key H1 = Some (Some a, SYMTAB_OK)" if "key \<in> set keys" for key
    using o that search_entry [of H1 T'] by (auto simp: opened_def entry_def)
  with close_opened [OF w o(1)] eq(2) show ?thesis by simp
qed

lemma pop_scope_empty: "pop_scope [] H = Some ([], H, SYMTAB_NOT_INITIALIZED)"
  by (simp add: pop_scope_def report_error_def symtab_errors)

text \<open>
  \<open>search_scopes_initialized_var\<close> passes over tables whose entry has no value yet: it
  returns the innermost entry that was initialised.
\<close>

definition no_value :: "symheap \<Rightarrow> string \<Rightarrow> symtab \<Rightarrow> bool" where
  "no_value H key T \<longleftrightarrow> probe_ends H (st_items T) key \<and>
     (\<forall>a it. entry H (st_items T) key a \<and> sh_items H a = Some it \<longrightarrow> \<not> it_is_var_initialized it)"

lemma search_cases:
  assumes "table_inv H T" "probe_ends H (st_items T) key"
  obtains (found) a where "symtable_search (Some T) key H = Some (Some a, SYMTAB_OK)" "entry H (st_items T) key a"
  | (missing) e where "symtable_search (Some T) key H = Some (None, e)"
proof -
  have wf: "slots_wf H (st_items T)" "length (st_items T) = st_size T"
    using assms(1) by (simp_all add: table_inv_def st_wf_def)
  obtain r e where "symtable_search (Some T) key H = Some (r, e)"
    using table.search_law [OF assms] by auto
  then show ?thesis using search_ok_entry [OF wf] found missing by (cases r) auto
qed

lemma find_initialized_skip:
  assumes "\<forall>U\<in>set Us. table_inv H U \<and> no_value H key U"
  shows "\<exists>e'. find_initialized (map Some (Us @ Ts)) key H e = find_initialized (map Some Ts) key H e'"
  using assms
proof (induction Us arbitrary: e)
  case (Cons U Us)
  then have U: "table_inv H U" "no_value H key U" by simp_all
  then have ends: "probe_ends H (st_items U) key" by (simp add: no_value_def)
  from U(1) ends show ?case
  proof (cases rule: search_cases)
    case (found a)
    then obtain it where "sh_items H a = Some it" "\<not> it_is_var_initialized it"
      using U(2) by (auto simp: no_value_def entry_def)
    then show ?thesis using found Cons by simp
  next
    case (missing e)
    then show ?thesis using Cons by simp
  qed
qed auto

lemma search_initialized_innermost:
  assumes "\<forall>U\<in>set Us. table_inv H U \<and> no_value H key U" "table_inv H T"
    "entry H (st_items T) key a" "sh_items H a = Some it" "it_is_var_initialized it"
  shows "search_scopes_initialized_var (map Some (Us @ T # Ts)) key H e = Some (Some a, SYMTAB_OK)"
proof -
  have s: "symtable_search (Some T) key H = Some (Some a, SYMTAB_OK)"
    using assms(2,3) entry_search [of H T key a] by (simp add: table_inv_def st_wf_def)
  obtain e' where "find_initialized (map Some (Us @ T # Ts)) key H e = find_initialized (map Some (T # Ts)) key H e'"
    using find_initialized_skip [OF assms(1)] by blast
  also have "\<dots> = Some (map Some (T # Ts), SYMTAB_OK)"
    using s assms(4,5) by simp
  finally show ?thesis
    using s by (simp add: search_scopes_initialized_var_def peek_scope_def)
qed

lemma search_scopes_innermost:
  assumes "\<forall>U\<in>set Us. table_inv H U \<and> probe_ends H (st_items U) key \<and> (\<forall>b. \<not> entry H (st_items U) key b)"
    "table_inv H T" "entry H (st_items T) key a"
  shows "\<exists>e'. search_scopes (map Some (Us @ T # Ts)) key H e = Some (Some a, e')"
proof -
  have "map_option fst (search_scopes (map Some (Us @ T # Ts)) key H e) = Some (Some a)"
    by (subst search_scopes_chain) (simp, rule table.chain_innermost [OF assms])
  then show ?thesis by (cases "search_scopes (map Some (Us @ T # Ts)) key H e") auto
qed

text \<open>A declaration in the innermost scope is what a search finds from then on.\<close>

lemma declare_in_scope:
  assumes "scope_wf H (T # Ts)" "st_count T < 16398" "probe_ends H (st_items T) key" "key \<notin> names H (st_items T)"
  shows "\<exists>T' H' a e'. symtable_insert (Some T) key H = Some (Some T', H', SYMTAB_OK) \<and> table_inv H' T' \<and>
    search_scopes (map Some (T' # Ts)) key H' e = Some (Some a, e') \<and>
    sh_items H' a = Some (new_item key (sh_unique_id H))"
proof -
  have w: "st_wf H T" "heap_wf H" "sh_budget H = None" using assms(1) by (simp_all add: scope_wf_def)
  from insert_new [OF w assms(4,3,2)] obtain T' where T':
    "symtable_insert (Some T) key H = Some (Some T', after_insert key H, SYMTAB_OK)" "st_wf (after_insert key H) T'"
    "entry (after_insert key H) (st_items T') key (sh_fresh H)" by blast
  have i: "table_inv (after_insert key H) T'"
    using T'(2) w heap_wf_after_insert [OF w(2)] by (simp add: table_inv_def)
  have "\<exists>e'. search_scopes (map Some ([] @ T' # Ts)) key (after_insert key H) e = Some (Some (sh_fresh H), e')"
    by (rule search_scopes_innermost [OF _ i T'(3)]) simp
  then show ?thesis using T'(1) i by auto
qed

end
