(* ===== verification/Codegen.thy ===== *)
theory Codegen
  imports Scope
begin

text \<open>
  The generator of IFJcode23 of \<open>src/code_generator.c\<close>. Its state is the text printed so far,
  the buffer that holds the code of an open loop, and two counters. A text that goes through
  \<open>code_generator_buffer_print\<close> is used as a format of \<open>printf\<close>, as in the code.
\<close>

section \<open>State\<close>

record codegen =
  func_param_id :: "32 word"
  for_open :: "32 word"
  print_buffer :: dstring
  cg_out :: string
  cg_budget :: budget

definition codegen_init :: "budget \<Rightarrow> codegen" where
  "codegen_init m = \<lparr>func_param_id = 0, for_open = 0,
     print_buffer = \<lparr>ds_str = [], ds_length = 0, ds_alloc_size = 0\<rparr>, cg_out = [], cg_budget = m\<rparr>"

text \<open>What the pointers \<open>global_symtable\<close> and \<open>scope_stack\<close> point to (\<open>None\<close>: null).\<close>

record cg_env =
  env_global :: "symtab option"
  env_scopes :: "scope option"
  env_heap :: symheap

definition code_generator_set_current_symtable :: "symtab option \<Rightarrow> scope option \<Rightarrow> symheap \<Rightarrow> cg_env" where
  "code_generator_set_current_symtable g stack H = \<lparr>env_global = g, env_scopes = stack, env_heap = H\<rparr>"

definition gf_name :: string where "gf_name = ''GF''"
definition lf_name :: string where "lf_name = ''LF''"

section \<open>Printing\<close>

text \<open>
  \<open>printf(text)\<close> without further arguments: \<open>%%\<close> prints one per cent sign, every other
  conversion reads an argument that is not there or is incomplete.
\<close>

fun printf_text :: "string \<Rightarrow> string c" where
  "printf_text [] = Some []"
| "printf_text [ch] = (if ch = CHR ''%'' then UB else Some [ch])"
| "printf_text (ch # d # s) =
     (if ch = CHR ''%'' then (if d = CHR ''%'' then map_option ((#) ch) (printf_text s) else UB)
      else map_option ((#) ch) (printf_text (d # s)))"

definition emit :: "string \<Rightarrow> codegen \<Rightarrow> codegen" where
  "emit text G = G\<lparr>cg_out := cg_out G @ text\<rparr>"

definition code_generator_buffer_print :: "string \<Rightarrow> codegen \<Rightarrow> codegen c" where
  "code_generator_buffer_print text G =
     (if for_open G > 0 then do {
        (_, d, m) \<leftarrow> dstring_add_const_str (print_buffer G) text (cg_budget G);
        Some (G\<lparr>print_buffer := d, cg_budget := m\<rparr>)
      } else do { s \<leftarrow> printf_text text; Some (emit s G) })"

text \<open>\<open>BUFFER_PRINT\<close> of the text its format and arguments give; its \<open>malloc\<close> is not checked.\<close>

definition BUFFER_PRINT :: "string \<Rightarrow> codegen \<Rightarrow> codegen c" where
  "BUFFER_PRINT text G =
     (case take_alloc (cg_budget G) of
        (False, m) \<Rightarrow> UB
      | (True, m) \<Rightarrow> code_generator_buffer_print text (G\<lparr>cg_budget := m\<rparr>))"

definition code_generator_buffer_transmit :: "codegen \<Rightarrow> codegen c" where
  "code_generator_buffer_transmit G = do {
     text \<leftarrow> c_string (ds_str (print_buffer G));
     s \<leftarrow> printf_text text;
     d \<leftarrow> dstring_clear (print_buffer G);
     Some ((emit s G)\<lparr>print_buffer := d\<rparr>)
   }"

text \<open>A line, and a line behind an empty one.\<close>

abbreviation ln :: "string \<Rightarrow> string" where "ln s \<equiv> s @ [NL]"
abbreviation nl :: "string \<Rightarrow> string" where "nl s \<equiv> NL # s @ [NL]"

text \<open>\<open>frame@name_id\<close>, printed with \<open>%s@%s_%d\<close>.\<close>

definition var_text :: "string \<Rightarrow> string \<Rightarrow> 32 word \<Rightarrow> string" where
  "var_text frame name uid = frame @ ''@'' @ name @ ''_'' @ print_d uid"

text \<open>A sequence of statements.\<close>

fun run :: "(codegen \<Rightarrow> codegen c) list \<Rightarrow> codegen \<Rightarrow> codegen c" where
  "run [] G = Some G"
| "run (f # fs) G = do { G \<leftarrow> f G; run fs G }"

section \<open>Variables\<close>

text \<open>
  The copy of the name into a dynamic string: when its memory is missing, a later access to
  it is undefined whatever path is taken.
\<close>

definition copy_varname :: "string \<Rightarrow> codegen \<Rightarrow> codegen c" where
  "copy_varname name G =
     (case take_alloc (cg_budget G) of
        (False, m) \<Rightarrow> UB
      | (True, m) \<Rightarrow>
          (if length name + 1 \<ge> DSTR_ALLOC_SIZE
           then (case take_alloc m of (False, m) \<Rightarrow> UB | (True, m) \<Rightarrow> Some (G\<lparr>cg_budget := m\<rparr>))
           else Some (G\<lparr>cg_budget := m\<rparr>)))"

definition search_env_scopes :: "scope \<Rightarrow> bool \<Rightarrow> string \<Rightarrow> symheap \<Rightarrow> (nat option \<times> nat) c" where
  "search_env_scopes stack initialized name H =
     (if initialized then search_scopes_initialized_var stack name H SYMTAB_NOT_INITIALIZED
      else search_scopes stack name H SYMTAB_NOT_INITIALIZED)"

definition uid_of :: "symheap \<Rightarrow> nat option \<Rightarrow> 32 word c" where
  "uid_of H item = do { a \<leftarrow> item; it \<leftarrow> sh_items H a; Some (it_uid it) }"

definition code_generator_get_var_uid ::
  "cg_env \<Rightarrow> string \<Rightarrow> bool \<Rightarrow> codegen \<Rightarrow> (32 word \<times> codegen) c" where
  "code_generator_get_var_uid E varname initialized G = do {
     G \<leftarrow> copy_varname varname G;
     case env_scopes E of
       None \<Rightarrow> Some (0, G)
     | Some stack \<Rightarrow> do {
         (item, error) \<leftarrow> search_env_scopes stack initialized varname (env_heap E);
         if error = SYMTAB_OK then do { uid \<leftarrow> uid_of (env_heap E) item; Some (uid, G) }
         else if env_global E = None then Some (0, G)
         else do {
           (item, error) \<leftarrow> symtable_search (env_global E) varname (env_heap E);
           if error = SYMTAB_OK then do { uid \<leftarrow> uid_of (env_heap E) item; Some (uid, G) }
           else Some (0, G)
         }
       }
   }"

definition code_generator_get_var_frame ::
  "cg_env \<Rightarrow> string \<Rightarrow> bool \<Rightarrow> codegen \<Rightarrow> (string \<times> codegen) c" where
  "code_generator_get_var_frame E varname initialized G = do {
     G \<leftarrow> copy_varname varname G;
     case env_scopes E of
       None \<Rightarrow> Some (lf_name, G)
     | Some stack \<Rightarrow> do {
         (_, error) \<leftarrow> search_env_scopes stack initialized varname (env_heap E);
         if error = SYMTAB_OK then Some (lf_name, G)
         else if env_global E = None then Some (lf_name, G)
         else do {
           (_, error) \<leftarrow> symtable_search (env_global E) varname (env_heap E);
           Some (if error = SYMTAB_OK then gf_name else lf_name, G)
         }
       }
   }"

text \<open>The text \<open>frame@name_id\<close> of a variable.\<close>

definition var_ref :: "cg_env \<Rightarrow> string \<Rightarrow> bool \<Rightarrow> codegen \<Rightarrow> (string \<times> codegen) c" where
  "var_ref E name initialized G = do {
     (frame, G) \<leftarrow> code_generator_get_var_frame E name initialized G;
     (uid, G) \<leftarrow> code_generator_get_var_uid E name initialized G;
     Some (var_text frame name uid, G)
   }"

text \<open>\<open>BUFFER_PRINT\<close> evaluates its arguments twice: for the length and for the text.\<close>

definition BUFFER_PRINT_var :: "string \<Rightarrow> cg_env \<Rightarrow> string \<Rightarrow> bool \<Rightarrow> string \<Rightarrow> codegen \<Rightarrow> codegen c" where
  "BUFFER_PRINT_var pre E name initialized post G = do {
     (_, G) \<leftarrow> var_ref E name initialized G;
     (v, G) \<leftarrow> var_ref E name initialized G;
     BUFFER_PRINT (pre @ v @ post) G
   }"

text \<open>\<open>code_generator_defvar\<close> prints directly, also while a loop is open.\<close>

definition code_generator_defvar :: "string \<Rightarrow> string \<Rightarrow> 32 word \<Rightarrow> codegen \<Rightarrow> codegen" where
  "code_generator_defvar frame varname uid = emit (nl (''DEFVAR '' @ var_text frame varname uid))"

definition code_generator_defvar_token :: "cg_env \<Rightarrow> token \<Rightarrow> codegen \<Rightarrow> codegen c" where
  "code_generator_defvar_token E t G = do {
     name \<leftarrow> tok_str t;
     (frame, G) \<leftarrow> code_generator_get_var_frame E name False G;
     (uid, G) \<leftarrow> code_generator_get_var_uid E name False G;
     Some (code_generator_defvar frame name uid G)
   }"

definition no_frame_functions :: "string list" where
  "no_frame_functions = [''readString'', ''readInt'', ''readDouble'', ''write'', ''Int2Double'',
     ''Double2Int'', ''length'', ''chr'']"

definition code_generator_need_function_frame :: "string \<Rightarrow> bool" where
  "code_generator_need_function_frame name \<longleftrightarrow> (\<forall>f\<in>set no_frame_functions. strcmp name f \<noteq> 0)"

section \<open>Frames\<close>

definition code_generator_pushframe :: "codegen \<Rightarrow> codegen c" where
  "code_generator_pushframe = BUFFER_PRINT (nl ''PUSHFRAME'')"

definition code_generator_popframe :: "codegen \<Rightarrow> codegen c" where
  "code_generator_popframe = BUFFER_PRINT (nl ''POPFRAME'')"

definition code_generator_createframe :: "codegen \<Rightarrow> codegen c" where
  "code_generator_createframe = BUFFER_PRINT (nl ''CREATEFRAME'')"

section \<open>Conditions and loops\<close>

definition code_generator_if_header :: "32 word \<Rightarrow> codegen \<Rightarrow> codegen c" where
  "code_generator_if_header n = run
     [BUFFER_PRINT (nl ''PUSHS bool@true''), BUFFER_PRINT (ln (''JUMPIFNEQS $$ELSE_'' @ print_u n))]"

definition code_generator_if_else :: "32 word \<Rightarrow> codegen \<Rightarrow> codegen c" where
  "code_generator_if_else n = run
     [BUFFER_PRINT (nl (''JUMP $$IF_END_'' @ print_u n)), BUFFER_PRINT (ln (''LABEL $$ELSE_'' @ print_u n))]"

definition code_generator_if_end :: "32 word \<Rightarrow> codegen \<Rightarrow> codegen c" where
  "code_generator_if_end n = BUFFER_PRINT (nl (''LABEL $$IF_END_'' @ print_u n))"

definition code_generator_for_loop_end :: "32 word \<Rightarrow> codegen \<Rightarrow> codegen c" where
  "code_generator_for_loop_end n G = do {
     G \<leftarrow> BUFFER_PRINT (nl (''JUMP $$FOR_'' @ print_u n)) G;
     G \<leftarrow> BUFFER_PRINT (ln (''LABEL $$FOR_END_'' @ print_u n)) G;
     let G = G\<lparr>for_open := for_open G - 1\<rparr>;
     if for_open G \<le> 0 then code_generator_buffer_transmit G else Some G
   }"

definition code_generator_for_loop_if :: "32 word \<Rightarrow> codegen \<Rightarrow> codegen c" where
  "code_generator_for_loop_if n = run
     [BUFFER_PRINT (nl ''PUSHS bool@true''), BUFFER_PRINT (ln (''JUMPIFNEQS $$FOR_END_'' @ print_u n)),
      BUFFER_PRINT (ln (''JUMP $$FOR_BODY_'' @ print_u n))]"

definition code_generator_for_label :: "32 word \<Rightarrow> codegen \<Rightarrow> codegen c" where
  "code_generator_for_label n G =
     BUFFER_PRINT (nl (''LABEL $$FOR_'' @ print_u n)) (G\<lparr>for_open := for_open G + 1\<rparr>)"

definition code_generator_for_body :: "32 word \<Rightarrow> codegen \<Rightarrow> codegen c" where
  "code_generator_for_body n = BUFFER_PRINT (nl (''LABEL $$FOR_BODY_'' @ print_u n))"

section \<open>Values\<close>

text \<open>\<open>%03d\<close> of a number below 1000.\<close>

definition dec3 :: "nat \<Rightarrow> string" where
  "dec3 n = [char_of (48 + n div 100 mod 10), char_of (48 + n div 10 mod 10), char_of (48 + n mod 10)]"

definition escape_char :: "char \<Rightarrow> string" where
  "escape_char ch =
     (if (schar ch \<ge> 0 \<and> schar ch \<le> 32) \<or> ch = CHR ''#'' \<or> ch = CHR 0x5C
      then CHR 0x5C # dec3 (of_char ch) else [ch])"

definition code_generator_print_value :: "cg_env \<Rightarrow> token \<Rightarrow> codegen \<Rightarrow> codegen c" where
  "code_generator_print_value E t G =
     (case tok_type t of
        TOKEN_IDENTIFIER \<Rightarrow> do { name \<leftarrow> tok_str t; BUFFER_PRINT_var [] E name True [] G }
      | TOKEN_NIL \<Rightarrow> BUFFER_PRINT ''nil@nil'' G
      | TOKEN_INT \<Rightarrow> (case tok_value t of V_int w \<Rightarrow> BUFFER_PRINT (''int@'' @ print_d w) G | _ \<Rightarrow> UB)
      | TOKEN_DBL \<Rightarrow> (case tok_value t of V_double d \<Rightarrow> BUFFER_PRINT (''float@'' @ print_a d) G | _ \<Rightarrow> UB)
      | TOKEN_STRING \<Rightarrow> do {
          s \<leftarrow> tok_str t;
          run (BUFFER_PRINT ''string@'' # map (\<lambda>ch. BUFFER_PRINT (escape_char ch)) s) G
        }
      | _ \<Rightarrow> Some G)"

definition code_generator_push :: "cg_env \<Rightarrow> token \<Rightarrow> codegen \<Rightarrow> codegen c" where
  "code_generator_push E t G =
     (if tok_type t \<noteq> TOKEN_IDENTIFIER \<and> tok_type t \<noteq> TOKEN_NIL \<and> tok_type t \<noteq> TOKEN_INT \<and>
         tok_type t \<noteq> TOKEN_DBL \<and> tok_type t \<noteq> TOKEN_STRING
      then Some G
      else run [BUFFER_PRINT (NL # ''PUSHS ''), code_generator_print_value E t, BUFFER_PRINT [NL]] G)"

section \<open>Assignment and declaration\<close>

definition code_generator_var_assign :: "cg_env \<Rightarrow> string \<Rightarrow> codegen \<Rightarrow> codegen c" where
  "code_generator_var_assign E var =
     (if strcmp var ''_'' \<noteq> 0 then BUFFER_PRINT_var (NL # ''POPS '') E var True [NL]
      else run [code_generator_createframe, code_generator_pushframe,
        \<lambda>G. Some (code_generator_defvar ''LF'' ''TMP'' 0 G),
        BUFFER_PRINT (ln (''POPS LF@TMP_'' @ print_u 0)), code_generator_popframe])"

definition code_generator_var_assign_token :: "cg_env \<Rightarrow> token \<Rightarrow> codegen \<Rightarrow> codegen c" where
  "code_generator_var_assign_token E t G = do { var \<leftarrow> tok_str t; code_generator_var_assign E var G }"

definition declare_var :: "cg_env \<Rightarrow> string \<Rightarrow> codegen \<Rightarrow> codegen c" where
  "declare_var E name G = do {
     (frame, G) \<leftarrow> code_generator_get_var_frame E name False G;
     (uid, G) \<leftarrow> code_generator_get_var_uid E name False G;
     Some (code_generator_defvar frame name uid G)
   }"

definition code_generator_var_declare :: "cg_env \<Rightarrow> string \<Rightarrow> codegen \<Rightarrow> codegen c" where
  "code_generator_var_declare E variable =
     run [declare_var E variable, BUFFER_PRINT_var ''POPS '' E variable False [NL]]"

definition code_generator_var_declare_token :: "cg_env \<Rightarrow> token \<Rightarrow> codegen \<Rightarrow> codegen c" where
  "code_generator_var_declare_token E t G = do { var \<leftarrow> tok_str t; code_generator_var_declare E var G }"

definition code_generator_eof :: "codegen \<Rightarrow> codegen c" where
  "code_generator_eof G = do {
     G \<leftarrow> BUFFER_PRINT (nl ''LABEL $$EOF'') G;
     d \<leftarrow> dstring_free (print_buffer G);
     Some (G\<lparr>print_buffer := d\<rparr>)
   }"

section \<open>Operations\<close>

definition code_generator_operations :: "token_type \<Rightarrow> bool \<Rightarrow> codegen \<Rightarrow> codegen c" where
  "code_generator_operations operator is_int =
     (case operator of
        TOKEN_ADD \<Rightarrow> BUFFER_PRINT (nl ''ADDS'')
      | TOKEN_SUB \<Rightarrow> BUFFER_PRINT (nl ''SUBS'')
      | TOKEN_MUL \<Rightarrow> BUFFER_PRINT (nl ''MULS'')
      | TOKEN_DIV \<Rightarrow> if \<not> is_int then BUFFER_PRINT (nl ''DIVS'') else BUFFER_PRINT (nl ''IDIVS'')
      | TOKEN_LT \<Rightarrow> BUFFER_PRINT (nl ''LTS'')
      | TOKEN_LEQ \<Rightarrow> run [BUFFER_PRINT (nl ''GTS''), BUFFER_PRINT (nl ''NOTS'')]
      | TOKEN_GT \<Rightarrow> BUFFER_PRINT (nl ''GTS'')
      | TOKEN_GEQ \<Rightarrow> run [BUFFER_PRINT (nl ''LTS''), BUFFER_PRINT (nl ''NOTS'')]
      | TOKEN_EQ \<Rightarrow> BUFFER_PRINT (nl ''EQS'')
      | TOKEN_NEQ \<Rightarrow> run [BUFFER_PRINT (nl ''EQS''), BUFFER_PRINT (nl ''NOTS'')]
      | _ \<Rightarrow> Some)"

definition code_generator_nil_check :: "32 word \<Rightarrow> codegen \<Rightarrow> codegen c" where
  "code_generator_nil_check n = run
     [code_generator_createframe, code_generator_pushframe,
      BUFFER_PRINT (ln ''DEFVAR LF@op_2''), BUFFER_PRINT (ln ''POPS LF@op_2''),
      BUFFER_PRINT (ln ''DEFVAR LF@op_1''), BUFFER_PRINT (ln ''POPS LF@op_1''),
      BUFFER_PRINT (nl ''PUSHS nil@nil''), BUFFER_PRINT (nl ''PUSHS LF@op_1''),
      code_generator_operations TOKEN_NEQ False,
      code_generator_if_header n,
      BUFFER_PRINT (nl ''PUSHS LF@op_1''),
      code_generator_if_else n,
      BUFFER_PRINT (nl ''PUSHS LF@op_2''),
      code_generator_if_end n,
      code_generator_popframe]"

definition code_generator_concats :: "codegen \<Rightarrow> codegen c" where
  "code_generator_concats = run
     [BUFFER_PRINT (nl ''POPS GF@?PARAM_2''), BUFFER_PRINT (ln ''POPS GF@?PARAM_1''),
      BUFFER_PRINT (ln ''CONCAT GF@?RESULT_1 GF@?PARAM_1 GF@?PARAM_2''),
      BUFFER_PRINT (ln ''PUSHS GF@?RESULT_1'')]"

definition code_generator_clears :: "codegen \<Rightarrow> codegen c" where
  "code_generator_clears = BUFFER_PRINT (nl ''CLEARS'')"

section \<open>Functions\<close>

definition code_generator_function_call :: "string \<Rightarrow> codegen \<Rightarrow> codegen c" where
  "code_generator_function_call name G = do {
     G \<leftarrow> (if strcmp name ''readString'' = 0 then
             run [BUFFER_PRINT (ln ''READ GF@?READED_1 string''), BUFFER_PRINT (ln ''PUSHS GF@?READED_1'')] G
           else if strcmp name ''readInt'' = 0 then
             run [BUFFER_PRINT (ln ''READ GF@?READED_2 int''), BUFFER_PRINT (ln ''PUSHS GF@?READED_2'')] G
           else if strcmp name ''readDouble'' = 0 then
             run [BUFFER_PRINT (ln ''READ GF@?READED_3 float''), BUFFER_PRINT (ln ''PUSHS GF@?READED_3'')] G
           else if code_generator_need_function_frame name then do {
             G \<leftarrow> (if func_param_id G = 0 then code_generator_createframe G else Some G);
             BUFFER_PRINT (ln (''CALL $$FUNCTION_'' @ name)) G
           } else Some G);
     Some (G\<lparr>func_param_id := 0\<rparr>)
   }"

definition code_generator_function_call_token :: "token \<Rightarrow> codegen \<Rightarrow> codegen c" where
  "code_generator_function_call_token t G = do { name \<leftarrow> tok_str t; code_generator_function_call name G }"

definition code_generator_function_call_param_add :: "cg_env \<Rightarrow> string \<Rightarrow> token \<Rightarrow> codegen \<Rightarrow> codegen c" where
  "code_generator_function_call_param_add E name t G = do {
     G \<leftarrow> (if code_generator_need_function_frame name then do {
             G \<leftarrow> (if func_param_id G = 0 then code_generator_createframe G else Some G);
             let G = code_generator_defvar ''TF'' ''??'' (func_param_id G) G;
             G \<leftarrow> BUFFER_PRINT (''MOVE TF@??_'' @ print_d (func_param_id G) @ '' '') G;
             G \<leftarrow> code_generator_print_value E t G;
             G \<leftarrow> BUFFER_PRINT [NL] G;
             Some (G\<lparr>func_param_id := func_param_id G + 1\<rparr>)
           } else Some G);
     if strcmp name ''write'' = 0 then
       run [BUFFER_PRINT ''WRITE '', code_generator_print_value E t, BUFFER_PRINT [NL]] G
     else if strcmp name ''Int2Double'' = 0 then
       run [code_generator_push E t, BUFFER_PRINT (ln ''INT2FLOATS'')] G
     else if strcmp name ''Double2Int'' = 0 then
       run [code_generator_push E t, BUFFER_PRINT (ln ''FLOAT2INTS'')] G
     else if strcmp name ''length'' = 0 then
       run [BUFFER_PRINT ''STRLEN GF@?LENGTH_1 '', code_generator_print_value E t, BUFFER_PRINT [NL],
            BUFFER_PRINT (ln ''PUSHS GF@?LENGTH_1'')] G
     else if strcmp name ''chr'' = 0 then
       run [BUFFER_PRINT ''INT2CHAR GF@?INT2CHAR_1 '', code_generator_print_value E t, BUFFER_PRINT [NL],
            BUFFER_PRINT (ln ''PUSHS GF@?INT2CHAR_1'')] G
     else Some G
   }"

definition code_generator_function_call_param_add_token ::
  "cg_env \<Rightarrow> token \<Rightarrow> token \<Rightarrow> codegen \<Rightarrow> codegen c" where
  "code_generator_function_call_param_add_token E token_name token_value G = do {
     name \<leftarrow> tok_str token_name;
     code_generator_function_call_param_add E name token_value G
   }"

text \<open>The loops of \<open>code_generator_int2doubles\<close>, upwards and downwards over the same range.\<close>

definition code_generator_int2doubles :: "nat \<Rightarrow> codegen \<Rightarrow> codegen c" where
  "code_generator_int2doubles depth = run (
     [code_generator_createframe, code_generator_pushframe] @
     concat (map (\<lambda>i. [BUFFER_PRINT (ln (''DEFVAR LF@stack_'' @ dec_string i)),
                       BUFFER_PRINT (ln (''POPS LF@stack_'' @ dec_string i))]) [0..<depth]) @
     [BUFFER_PRINT (ln ''INT2FLOATS'')] @
     map (\<lambda>i. BUFFER_PRINT (ln (''PUSHS LF@stack_'' @ dec_string i))) (rev [0..<depth]) @
     [code_generator_popframe])"

definition code_generator_function_label :: "string \<Rightarrow> codegen \<Rightarrow> codegen c" where
  "code_generator_function_label name = run
     [BUFFER_PRINT (nl (''JUMP $$FUNCTION_END_'' @ name)), BUFFER_PRINT (nl (''LABEL $$FUNCTION_'' @ name)),
      code_generator_pushframe]"

definition code_generator_function_label_token :: "token \<Rightarrow> codegen \<Rightarrow> codegen c" where
  "code_generator_function_label_token t G = do { name \<leftarrow> tok_str t; code_generator_function_label name G }"

definition code_generator_param_map :: "cg_env \<Rightarrow> string \<Rightarrow> 32 word \<Rightarrow> codegen \<Rightarrow> codegen c" where
  "code_generator_param_map E param_name param_id =
     run [declare_var E param_name,
          BUFFER_PRINT_var ''MOVE '' E param_name False (ln ('' LF@??_'' @ print_d param_id))]"

definition code_generator_return :: "codegen \<Rightarrow> codegen c" where
  "code_generator_return = run [code_generator_popframe, BUFFER_PRINT (ln ''RETURN'')]"

definition code_generator_function_end :: "string \<Rightarrow> codegen \<Rightarrow> codegen c" where
  "code_generator_function_end name = run
     [code_generator_popframe, BUFFER_PRINT (ln ''RETURN''), BUFFER_PRINT (nl (''LABEL $$FUNCTION_END_'' @ name))]"

section \<open>The built-in functions and the prolog\<close>

abbreviation defvar :: "string \<Rightarrow> string \<Rightarrow> 32 word \<Rightarrow> codegen \<Rightarrow> codegen c" where
  "defvar frame name uid \<equiv> \<lambda>G. Some (code_generator_defvar frame name uid G)"

abbreviation print_ln :: "string \<Rightarrow> codegen \<Rightarrow> codegen c" where
  "print_ln text \<equiv> \<lambda>G. Some (emit (ln text) G)"

definition code_generator_function_ord :: "codegen \<Rightarrow> codegen c" where
  "code_generator_function_ord = run
     [code_generator_function_label ''ord'',
      defvar ''LF'' ''length'' 0,
      print_ln ''STRLEN LF@length_0 LF@??_0'',
      print_ln ''JUMPIFNEQ ORD_NOT0 int@0 LF@length_0'',
      print_ln ''PUSHS int@0'',
      code_generator_return,
      print_ln ''LABEL ORD_NOT0'',
      defvar ''LF'' ''ord_value'' 0,
      print_ln ''STRI2INT LF@ord_value_0 LF@??_0 int@0'',
      print_ln ''PUSHS LF@ord_value_0'',
      code_generator_function_end ''ord'']"

definition code_generator_substring :: "codegen \<Rightarrow> codegen c" where
  "code_generator_substring = run
     [code_generator_function_label ''substring'',
      defvar ''LF'' ''length'' 0,
      print_ln ''STRLEN LF@length_0 LF@??_0'',
      defvar ''LF'' ''condition'' 0,
      print_ln ''LT LF@condition_0 LF@??_1 int@0'',
      print_ln ''JUMPIFEQ SUSTRING_nil LF@condition_0 bool@true'',
      print_ln ''LT LF@condition_0 LF@??_2 int@0'',
      print_ln ''JUMPIFEQ SUSTRING_nil LF@condition_0 bool@true'',
      print_ln ''GT LF@condition_0 LF@??_1 LF@??_2'',
      print_ln ''JUMPIFEQ SUSTRING_nil LF@condition_0 bool@true'',
      print_ln ''LT LF@condition_0 LF@??_1 LF@length_0'',
      print_ln ''JUMPIFNEQ SUSTRING_nil LF@condition_0 bool@true'',
      print_ln ''GT LF@condition_0 LF@??_2 LF@length_0'',
      print_ln ''JUMPIFEQ SUSTRING_nil LF@condition_0 bool@true'',
      defvar ''LF'' ''result'' 0,
      defvar ''LF'' ''char'' 0,
      print_ln ''MOVE LF@result_0 string@'',
      print_ln ''LABEL SUSTRING_loop'',
      print_ln ''LT LF@condition_0 LF@??_1 LF@??_2'',
      print_ln ''JUMPIFNEQ SUSTRING_loop_end LF@condition_0 bool@true'',
      print_ln ''GETCHAR LF@char_0 LF@??_0 LF@??_1'',
      print_ln ''CONCAT LF@result_0 LF@result_0 LF@char_0'',
      print_ln ''ADD LF@??_1 int@1 LF@??_1'',
      print_ln ''JUMP SUSTRING_loop'',
      print_ln ''LABEL SUSTRING_loop_end'',
      print_ln ''PUSHS LF@result_0'',
      code_generator_return,
      print_ln ''LABEL SUSTRING_nil'',
      print_ln ''PUSHS nil@nil'',
      code_generator_function_end ''substring'']"

definition code_generator_prolog :: "codegen \<Rightarrow> codegen c" where
  "code_generator_prolog G = do {
     (_, d, m) \<leftarrow> dstring_init (print_buffer G) (cg_budget G);
     run [print_ln ''.IFJcode23'',
          defvar ''GF'' ''?PARAM'' 1, defvar ''GF'' ''?PARAM'' 2, defvar ''GF'' ''?RESULT'' 1,
          defvar ''GF'' ''?LENGTH'' 1, defvar ''GF'' ''?READED'' 1, defvar ''GF'' ''?READED'' 2,
          defvar ''GF'' ''?READED'' 3, defvar ''GF'' ''?INT2CHAR'' 1,
          code_generator_createframe, code_generator_pushframe,
          code_generator_function_ord, code_generator_substring]
       (G\<lparr>print_buffer := d, cg_budget := m\<rparr>)
   }"

end
