(* ===== verification/Codegen_Output.thy ===== *)
theory Codegen_Output
  imports Codegen
begin

text \<open>
  What the generator prints. The effect of an operation is a list of events: a text printed
  at once, or a text that goes through the buffer. Outside loops both are printed in order;
  inside a loop the buffered texts wait for the end of the outermost loop, so the texts
  printed at once overtake them.
\<close>

section \<open>Events\<close>

datatype event = Direct string | Buffered string

fun event_text :: "event \<Rightarrow> string" where
  "event_text (Direct s) = s"
| "event_text (Buffered s) = s"

definition all_text :: "event list \<Rightarrow> string" where
  "all_text es = concat (map event_text es)"

fun direct :: "event list \<Rightarrow> string" where
  "direct [] = []"
| "direct (Direct s # es) = s @ direct es"
| "direct (Buffered s # es) = direct es"

fun buffered :: "event list \<Rightarrow> string" where
  "buffered [] = []"
| "buffered (Direct s # es) = buffered es"
| "buffered (Buffered s # es) = s @ buffered es"

lemma all_text_simps [simp]:
  "all_text [] = []" "all_text (e # es) = event_text e @ all_text es"
  "all_text (es @ es') = all_text es @ all_text es'"
  by (simp_all add: all_text_def)

lemma direct_append [simp]: "direct (es @ es') = direct es @ direct es'"
  by (induction es rule: direct.induct) simp_all

lemma buffered_append [simp]: "buffered (es @ es') = buffered es @ buffered es'"
  by (induction es rule: buffered.induct) simp_all

text \<open>Texts that \<open>printf\<close> and the buffer take as they are.\<close>

definition plain :: "string \<Rightarrow> bool" where
  "plain s \<longleftrightarrow> NUL \<notin> set s \<and> CHR ''%'' \<notin> set s"

lemma plain_append [simp]: "plain (s @ t) \<longleftrightarrow> plain s \<and> plain t"
  by (auto simp: plain_def)

lemma plain_Nil [simp]: "plain []"
  by (simp add: plain_def)

lemma plain_Cons [simp]: "plain (ch # s) \<longleftrightarrow> ch \<noteq> NUL \<and> ch \<noteq> CHR ''%'' \<and> plain s"
  by (auto simp: plain_def)

lemma printf_plain: "plain s \<Longrightarrow> printf_text s = Some s"
  by (induction s rule: printf_text.induct) simp_all

section \<open>The invariant of the generator and the effect of an operation\<close>

definition cg_wf :: "codegen \<Rightarrow> bool" where
  "cg_wf G \<longleftrightarrow> cg_budget G = None \<and> ds_wf (print_buffer G) \<and> plain (ds_abs (print_buffer G)) \<and>
     (for_open G = 0 \<longrightarrow> ds_abs (print_buffer G) = [])"

definition writes :: "event list \<Rightarrow> codegen \<Rightarrow> codegen \<Rightarrow> bool" where
  "writes es G G' \<longleftrightarrow> cg_wf G' \<and> for_open G' = for_open G \<and>
     (if for_open G > 0
      then cg_out G' = cg_out G @ direct es \<and> ds_abs (print_buffer G') = ds_abs (print_buffer G) @ buffered es
      else cg_out G' = cg_out G @ all_text es)"

text \<open>
  \<open>prints Q k f es\<close>: with \<open>k\<close> further loops that may be opened, \<open>f\<close> is defined and has the
  effect \<open>es\<close>.
\<close>

definition prints :: "32 word set \<Rightarrow> nat \<Rightarrow> (codegen \<Rightarrow> codegen c) \<Rightarrow> event list \<Rightarrow> bool" where
  "prints Q k f es \<longleftrightarrow> (\<forall>G. cg_wf G \<and> unat (for_open G) + k < 2 ^ 32 \<and> func_param_id G \<in> Q \<longrightarrow>
     (\<exists>G'. f G = Some G' \<and> writes es G G' \<and> func_param_id G' = func_param_id G))"

lemma writes_trans: "writes es G G1 \<Longrightarrow> writes es' G1 G2 \<Longrightarrow> writes (es @ es') G G2"
  by (auto simp: writes_def)

lemma writes_refl: "cg_wf G \<Longrightarrow> writes [] G G"
  by (simp add: writes_def)

lemma printsE:
  assumes "prints Q k f es" "cg_wf G" "unat (for_open G) + k < 2 ^ 32" "func_param_id G \<in> Q"
  obtains G' where "f G = Some G'" "writes es G G'" "func_param_id G' = func_param_id G"
  using assms by (auto simp: prints_def)

lemma prints_mono: "prints Q k f es \<Longrightarrow> k \<le> l \<Longrightarrow> prints Q l f es"
  by (auto simp: prints_def)

lemma prints_run:
  "list_all2 (prints Q k) fs ess \<Longrightarrow> prints Q k (run fs) (concat ess)"
proof (induction rule: list_all2_induct)
  case Nil
  then show ?case by (simp add: prints_def writes_refl)
next
  case (Cons f fs es ess)
  show ?case
    unfolding prints_def
  proof (intro allI impI)
    fix G
    assume G: "cg_wf G \<and> unat (for_open G) + k < 2 ^ 32 \<and> func_param_id G \<in> Q"
    then obtain G1 where G1: "f G = Some G1" "writes es G G1" "func_param_id G1 = func_param_id G"
      using Cons(1) by (elim printsE [of Q k f es G]) auto
    then have "cg_wf G1 \<and> unat (for_open G1) + k < 2 ^ 32 \<and> func_param_id G1 \<in> Q" using G by (simp add: writes_def)
    then obtain G2 where "run fs G1 = Some G2" "writes (concat ess) G1 G2" "func_param_id G2 = func_param_id G1"
      using Cons(3) by (elim printsE [of Q k _ _ G1]) auto
    then show "\<exists>G'. run (f # fs) G = Some G' \<and> writes (concat (es # ess)) G G' \<and> func_param_id G' = func_param_id G"
      using G1 writes_trans by auto
  qed
qed

lemma emit_writes:
  assumes "cg_wf G"
  shows "writes [Direct s] G (emit s G)"
  using assms by (auto simp: writes_def cg_wf_def emit_def)

lemma prints_emit: "prints Q k (\<lambda>G. Some (emit s G)) [Direct s]"
  by (auto simp: prints_def emit_writes) (auto simp: emit_def)

lemma prints_BUFFER_PRINT:
  assumes "plain s"
  shows "prints Q k (BUFFER_PRINT s) [Buffered s]"
  unfolding prints_def
proof (intro allI impI)
  fix G
  assume "cg_wf G \<and> unat (for_open G) + k < 2 ^ 32 \<and> func_param_id G \<in> Q"
  then have G: "cg_budget G = None" "ds_wf (print_buffer G)" "plain (ds_abs (print_buffer G))"
    "for_open G = 0 \<longrightarrow> ds_abs (print_buffer G) = []"
    by (simp_all add: cg_wf_def)
  show "\<exists>G'. BUFFER_PRINT s G = Some G' \<and> writes [Buffered s] G G' \<and> func_param_id G' = func_param_id G"
  proof (cases "for_open G > 0")
    case True
    have "NUL \<notin> set (ds_abs (print_buffer G))" using G(3) by (simp add: plain_def)
    from dstring_add_const_str_result [OF G(2) this, of None s] obtain d where
      d: "dstring_add_const_str (print_buffer G) s None = Some (True, d, None)" "ds_wf d"
        "ds_abs d = ds_abs (print_buffer G) @ s"
      by (auto simp: ds_result_def)
    have "BUFFER_PRINT s G = Some (G\<lparr>print_buffer := d, cg_budget := None\<rparr>)"
      using True d(1) by (simp add: BUFFER_PRINT_def G(1) code_generator_buffer_print_def)
    then show ?thesis
      using True G d assms by (auto simp: writes_def cg_wf_def)
  next
    case False
    then have "BUFFER_PRINT s G = Some (emit s (G\<lparr>cg_budget := None\<rparr>))"
      using G(1) assms by (simp add: BUFFER_PRINT_def code_generator_buffer_print_def printf_plain)
    then show ?thesis
      using False G by (auto simp: writes_def cg_wf_def emit_def)
  qed
qed

section \<open>Loops\<close>

definition loop_start :: "32 word \<Rightarrow> string" where
  "loop_start n = nl (''LABEL $$FOR_'' @ print_u n)"

definition loop_stop :: "32 word \<Rightarrow> string" where
  "loop_stop n = nl (''JUMP $$FOR_'' @ print_u n) @ ln (''LABEL $$FOR_END_'' @ print_u n)"

lemma plain_dec_string: "plain (dec_string n)"
proof (induction n rule: dec_string.induct)
  case (1 n)
  have c: "char_of (48 + d) \<noteq> NUL \<and> char_of (48 + d) \<noteq> CHR ''%''" if "d < 10" for d :: nat
  proof -
    have "\<forall>d\<in>set [0..<10]. char_of (48 + d :: nat) \<noteq> NUL \<and> char_of (48 + d :: nat) \<noteq> CHR ''%''"
      by code_simp
    then show ?thesis using that by simp
  qed
  then show ?case using 1 c [of "n mod 10"] c [of n] by (subst dec_string.simps) auto
qed

lemma plain_print_u: "plain (print_u n)"
  by (simp add: print_u_def plain_dec_string)

lemma plain_print_d: "plain (print_d n)"
  by (simp add: print_d_def plain_dec_string)

lemma loop_opens:
  assumes "cg_wf G" "unat (for_open G) + 1 < 2 ^ 32"
  obtains G1 where "code_generator_for_label n G = Some G1" "cg_wf G1" "for_open G1 = for_open G + 1" "for_open G1 > 0"
    "unat (for_open G1) = unat (for_open G) + 1" "cg_out G1 = cg_out G"
    "ds_abs (print_buffer G1) = ds_abs (print_buffer G) @ loop_start n" "func_param_id G1 = func_param_id G"
proof -
  let ?G = "G\<lparr>for_open := for_open G + 1\<rparr>"
  have fo: "unat (for_open G + 1) = unat (for_open G) + 1"
    using assms(2) by (simp add: unat_word_ariths)
  then have pos: "for_open ?G > 0" by (simp add: word_greater_zero_iff unat_gt_0 [symmetric])
  have w0: "cg_wf ?G" using assms(1) pos by (auto simp: cg_wf_def)
  have p: "plain (nl (''LABEL $$FOR_'' @ print_u n))" by (simp add: plain_print_u)
  obtain G1 where G1: "BUFFER_PRINT (nl (''LABEL $$FOR_'' @ print_u n)) ?G = Some G1"
    "writes [Buffered (loop_start n)] ?G G1" "func_param_id G1 = func_param_id ?G"
    by (rule printsE [OF prints_BUFFER_PRINT [OF p, of UNIV 0] w0]) (use fo assms(2) in \<open>auto simp: loop_start_def\<close>)
  show ?thesis
    by (rule that [of G1]) (use G1 pos fo in \<open>simp_all add: code_generator_for_label_def writes_def\<close>)
qed

text \<open>
  The end of the loop that was opened in \<open>G\<close>, when the output and the buffer have grown by what
  the body printed at once and by what it buffered.
\<close>

lemma loop_closes:
  assumes G: "cg_wf G" "unat (for_open G) + 1 < 2 ^ 32" and w2: "cg_wf G2" "for_open G2 = for_open G + 1"
    and out: "cg_out G2 = cg_out G @ d"
    and buf: "ds_abs (print_buffer G2) = ds_abs (print_buffer G) @ loop_start n @ s"
  obtains G' where "code_generator_for_loop_end n G2 = Some G'"
    "writes [Direct d, Buffered (loop_start n @ s @ loop_stop n)] G G'" "func_param_id G' = func_param_id G2"
proof -
  have pos: "for_open G2 > 0" using G(2) w2(2) by (simp add: word_greater_zero_iff unat_gt_0 [symmetric] unat_word_ariths)
  have b0: "unat (for_open G2) + 0 < 2 ^ 32" using unsigned_less [of "for_open G2"] by simp
  have p3: "plain (nl (''JUMP $$FOR_'' @ print_u n))" by (simp add: plain_print_u)
  obtain G3 where G3: "BUFFER_PRINT (nl (''JUMP $$FOR_'' @ print_u n)) G2 = Some G3"
    "writes [Buffered (nl (''JUMP $$FOR_'' @ print_u n))] G2 G3" "func_param_id G3 = func_param_id G2"
    by (rule printsE [OF prints_BUFFER_PRINT [OF p3, of UNIV 0] w2(1) b0]) simp_all
  then have w3: "cg_wf G3" "for_open G3 = for_open G2" by (simp_all add: writes_def)
  have p4: "plain (ln (''LABEL $$FOR_END_'' @ print_u n))" by (simp add: plain_print_u)
  obtain G4 where G4: "BUFFER_PRINT (ln (''LABEL $$FOR_END_'' @ print_u n)) G3 = Some G4"
    "writes [Buffered (ln (''LABEL $$FOR_END_'' @ print_u n))] G3 G4" "func_param_id G4 = func_param_id G3"
    by (rule printsE [OF prints_BUFFER_PRINT [OF p4, of UNIV 0] w3(1)]) (use w3(2) b0 in simp_all)
  let ?text = "loop_start n @ s @ loop_stop n"
  have wf4: "cg_wf G4" "for_open G4 = for_open G2"
    and out4: "cg_out G4 = cg_out G @ d" and buf4: "ds_abs (print_buffer G4) = ds_abs (print_buffer G) @ ?text"
    using writes_trans [OF G3(2) G4(2)] pos out buf by (simp_all add: writes_def loop_stop_def)
  have id: "func_param_id G4 = func_param_id G2" using G3(3) G4(3) by simp
  let ?G5 = "G4\<lparr>for_open := for_open G4 - 1\<rparr>"
  have dec: "for_open ?G5 = for_open G" using wf4(2) w2(2) by simp
  have "\<exists>G'. (if for_open ?G5 \<le> 0 then code_generator_buffer_transmit ?G5 else Some ?G5) = Some G' \<and>
      writes [Direct d, Buffered ?text] G G' \<and> func_param_id G' = func_param_id G2"
  proof (cases "for_open G = 0")
    case False
    then have "writes [Direct d, Buffered ?text] G ?G5"
      using wf4(1) out4 buf4 dec by (auto simp: writes_def cg_wf_def word_greater_zero_iff)
    then show ?thesis using False dec id by simp
  next
    case True
    then have b: "ds_abs (print_buffer G4) = ?text" using buf4 G by (simp add: cg_wf_def)
    have wfd: "ds_wf (print_buffer G4)" "plain ?text" using wf4(1) b by (simp_all add: cg_wf_def)
    obtain d' where d': "dstring_clear (print_buffer G4) = Some d'" "ds_wf d'" "ds_abs d' = []"
      using dstring_clear_wf [OF wfd(1)] by blast
    have "c_string (ds_str (print_buffer G4)) = Some ?text"
      using ds_wf_c_string [OF wfd(1)] wfd(2) by (simp add: b cstr_no_NUL plain_def)
    then have "code_generator_buffer_transmit ?G5 = Some ((emit ?text ?G5)\<lparr>print_buffer := d'\<rparr>)"
      using d'(1) wfd(2) by (simp add: code_generator_buffer_transmit_def printf_plain)
    moreover have "writes [Direct d, Buffered ?text] G ((emit ?text ?G5)\<lparr>print_buffer := d'\<rparr>)"
      using True wf4(1) out4 dec d' by (simp add: writes_def cg_wf_def emit_def)
    ultimately show ?thesis using True dec id by (simp add: emit_def)
  qed
  then obtain G' where G': "(if for_open ?G5 \<le> 0 then code_generator_buffer_transmit ?G5 else Some ?G5) = Some G'"
    "writes [Direct d, Buffered ?text] G G'" "func_param_id G' = func_param_id G2" by blast
  have "code_generator_for_loop_end n G2 = Some G'"
    unfolding code_generator_for_loop_end_def G3(1) bind.bind_lunit G4(1) Let_def by (rule G'(1))
  then show ?thesis using that G'(2,3) by blast
qed

lemma prints_loop:
  assumes body: "prints Q k f es"
  shows "prints Q (Suc k) (run [code_generator_for_label n, f, code_generator_for_loop_end n])
     [Direct (direct es), Buffered (loop_start n @ buffered es @ loop_stop n)]"
  unfolding prints_def
proof (intro allI impI)
  fix G
  assume G: "cg_wf G \<and> unat (for_open G) + Suc k < 2 ^ 32 \<and> func_param_id G \<in> Q"
  then have g: "cg_wf G" "unat (for_open G) + 1 < 2 ^ 32" by simp_all
  obtain G1 where G1: "code_generator_for_label n G = Some G1" "cg_wf G1" "for_open G1 = for_open G + 1" "for_open G1 > 0"
    "unat (for_open G1) = unat (for_open G) + 1" "cg_out G1 = cg_out G"
    "ds_abs (print_buffer G1) = ds_abs (print_buffer G) @ loop_start n" "func_param_id G1 = func_param_id G"
    by (rule loop_opens [OF g])
  obtain G2 where G2: "f G1 = Some G2" "writes es G1 G2" "func_param_id G2 = func_param_id G1"
    by (rule printsE [OF body G1(2)]) (use G G1(5,8) in auto)
  obtain G' where "code_generator_for_loop_end n G2 = Some G'"
    "writes [Direct (direct es), Buffered (loop_start n @ buffered es @ loop_stop n)] G G'" "func_param_id G' = func_param_id G2"
    by (rule loop_closes [OF g, of G2 "direct es" n "buffered es"]) (use G1 G2 in \<open>auto simp: writes_def\<close>)
  then show "\<exists>G'. run [code_generator_for_label n, f, code_generator_for_loop_end n] G = Some G' \<and>
      writes [Direct (direct es), Buffered (loop_start n @ buffered es @ loop_stop n)] G G' \<and> func_param_id G' = func_param_id G"
    using G1(1,8) G2(1,3) by auto
qed

section \<open>The texts of the operations\<close>

lemma prints_buffer_list:
  "\<forall>s\<in>set ss. plain s \<Longrightarrow> prints Q k (run (map BUFFER_PRINT ss)) (map Buffered ss)"
proof -
  assume "\<forall>s\<in>set ss. plain s"
  then have "list_all2 (prints Q k) (map BUFFER_PRINT ss) (map (\<lambda>s. [Buffered s]) ss)"
    by (auto simp: list_all2_conv_all_nth intro: prints_BUFFER_PRINT)
  from prints_run [OF this] show ?thesis by (simp add: concat_map_singleton)
qed

lemma prints_seq:
  "prints Q k f es \<Longrightarrow> prints Q k (run fs) es' \<Longrightarrow> prints Q k (run (f # fs)) (es @ es')"
proof -
  assume a: "prints Q k f es" "prints Q k (run fs) es'"
  have "prints Q k (run [f, run fs]) (concat [es, es'])"
    by (rule prints_run) (simp add: a)
  moreover have "run [f, run fs] = run (f # fs)"
    by (rule ext) (simp split: bind_split)
  ultimately show ?thesis by simp
qed

lemma prints_Nil: "prints Q k (run []) []"
  by (simp add: prints_def writes_refl)

lemma prints_Some: "prints Q k Some []"
  by (simp add: prints_def writes_refl)

lemmas prints_intros = prints_seq prints_Nil prints_BUFFER_PRINT prints_emit

lemma prints_frames:
  "prints Q k code_generator_createframe [Buffered (nl ''CREATEFRAME'')]"
  "prints Q k code_generator_pushframe [Buffered (nl ''PUSHFRAME'')]"
  "prints Q k code_generator_popframe [Buffered (nl ''POPFRAME'')]"
  unfolding code_generator_createframe_def code_generator_pushframe_def code_generator_popframe_def
  by (rule prints_BUFFER_PRINT; simp)+

lemma prints_if_header:
  "prints Q k (code_generator_if_header n)
     ([Buffered (nl ''PUSHS bool@true'')] @ [Buffered (ln (''JUMPIFNEQS $$ELSE_'' @ print_u n))] @ [])"
  unfolding code_generator_if_header_def
  by (intro prints_intros) (simp_all add: plain_print_u)

lemma prints_if_else:
  "prints Q k (code_generator_if_else n)
     ([Buffered (nl (''JUMP $$IF_END_'' @ print_u n))] @ [Buffered (ln (''LABEL $$ELSE_'' @ print_u n))] @ [])"
  unfolding code_generator_if_else_def
  by (intro prints_intros) (simp_all add: plain_print_u)

lemma prints_if_end:
  "prints Q k (code_generator_if_end n) [Buffered (nl (''LABEL $$IF_END_'' @ print_u n))]"
  unfolding code_generator_if_end_def
  by (intro prints_intros) (simp_all add: plain_print_u)

text \<open>A conditional: each branch behind its label, and both jump to the same end.\<close>

lemma prints_if:
  assumes "prints Q k f es" "prints Q k g es'"
  shows "prints Q k (run [code_generator_if_header n, f, code_generator_if_else n, g, code_generator_if_end n])
    ([Buffered (nl ''PUSHS bool@true''), Buffered (ln (''JUMPIFNEQS $$ELSE_'' @ print_u n))] @ es @
     [Buffered (nl (''JUMP $$IF_END_'' @ print_u n)), Buffered (ln (''LABEL $$ELSE_'' @ print_u n))] @ es' @
     [Buffered (nl (''LABEL $$IF_END_'' @ print_u n))])"
proof -
  have "list_all2 (prints Q k) [code_generator_if_header n, f, code_generator_if_else n, g, code_generator_if_end n]
      [[Buffered (nl ''PUSHS bool@true''), Buffered (ln (''JUMPIFNEQS $$ELSE_'' @ print_u n))], es,
       [Buffered (nl (''JUMP $$IF_END_'' @ print_u n)), Buffered (ln (''LABEL $$ELSE_'' @ print_u n))], es',
       [Buffered (nl (''LABEL $$IF_END_'' @ print_u n))]]"
    using assms prints_if_header [of Q k n] prints_if_else [of Q k n] prints_if_end [of Q k n] by simp
  from prints_run [OF this] show ?thesis by simp
qed

lemma prints_operations: "prints Q k (code_generator_operations oper i) (
    case oper of
      TOKEN_ADD \<Rightarrow> [Buffered (nl ''ADDS'')] | TOKEN_SUB \<Rightarrow> [Buffered (nl ''SUBS'')]
    | TOKEN_MUL \<Rightarrow> [Buffered (nl ''MULS'')]
    | TOKEN_DIV \<Rightarrow> [Buffered (nl (if i then ''IDIVS'' else ''DIVS''))]
    | TOKEN_LT \<Rightarrow> [Buffered (nl ''LTS'')] | TOKEN_GT \<Rightarrow> [Buffered (nl ''GTS'')]
    | TOKEN_EQ \<Rightarrow> [Buffered (nl ''EQS'')]
    | TOKEN_LEQ \<Rightarrow> [Buffered (nl ''GTS''), Buffered (nl ''NOTS'')]
    | TOKEN_GEQ \<Rightarrow> [Buffered (nl ''LTS''), Buffered (nl ''NOTS'')]
    | TOKEN_NEQ \<Rightarrow> [Buffered (nl ''EQS''), Buffered (nl ''NOTS'')]
    | _ \<Rightarrow> [])"
proof -
  have two: "prints Q k (run [BUFFER_PRINT s, BUFFER_PRINT t]) [Buffered s, Buffered t]" if "plain s" "plain t" for s t
    using prints_seq [OF prints_BUFFER_PRINT [OF that(1)] prints_seq [OF prints_BUFFER_PRINT [OF that(2)] prints_Nil]]
    by simp
  show ?thesis
    by (cases oper) (simp_all add: code_generator_operations_def prints_BUFFER_PRINT two prints_Some del: run.simps)
qed

section \<open>String literals\<close>

text \<open>The reading of IFJcode23 escapes: a backslash and three decimal digits.\<close>

fun unescape :: "string \<Rightarrow> string" where
  "unescape (ch # a # b # d # s) =
     (if ch = CHR 0x5C
      then char_of (100 * (of_char a - 48) + 10 * (of_char b - 48) + (of_char d - 48 :: nat)) # unescape s
      else ch # unescape (a # b # d # s))"
| "unescape s = s"

lemma unescape_plain: "ch \<noteq> CHR 0x5C \<Longrightarrow> unescape (ch # s) = ch # unescape s"
proof -
  assume a: "ch \<noteq> CHR 0x5C"
  consider "s = []" | x where "s = [x]" | x y where "s = [x, y]" | x y z t where "s = x # y # z # t"
    by (metis list.exhaust)
  then show ?thesis using a by cases simp_all
qed

definition escape :: "string \<Rightarrow> string" where
  "escape s = concat (map escape_char s)"

lemma escape_char_cases: "escape_char ch = [ch] \<and> ch \<noteq> CHR 0x5C \<or>
    escape_char ch = CHR 0x5C # dec3 (of_char ch) \<and>
    char_of (100 * (of_char (dec3 (of_char ch) ! 0) - 48) + 10 * (of_char (dec3 (of_char ch) ! 1) - 48) +
      (of_char (dec3 (of_char ch) ! 2) - 48 :: nat)) = ch"
proof -
  have "\<forall>ch. escape_char ch = [ch] \<and> ch \<noteq> CHR 0x5C \<or>
    escape_char ch = CHR 0x5C # dec3 (of_char ch) \<and>
    char_of (100 * (of_char (dec3 (of_char ch) ! 0) - 48) + 10 * (of_char (dec3 (of_char ch) ! 1) - 48) +
      (of_char (dec3 (of_char ch) ! 2) - 48 :: nat)) = ch" by code_simp
  then show ?thesis by blast
qed

lemma unescape_escape: "unescape (escape s) = s"
proof (induction s)
  case Nil
  then show ?case by (simp add: escape_def)
next
  case (Cons ch s)
  have e: "escape (ch # s) = escape_char ch @ escape s" by (simp add: escape_def)
  obtain a b d where d: "dec3 (of_char ch) = [a, b, d]" by (simp add: dec3_def)
  from escape_char_cases [of ch] show ?case
  proof (elim disjE conjE)
    assume "escape_char ch = [ch]" "ch \<noteq> CHR 0x5C"
    then show ?thesis using Cons unescape_plain by (simp add: e)
  next
    assume a: "escape_char ch = CHR 0x5C # dec3 (of_char ch)"
      and b: "char_of (100 * (of_char (dec3 (of_char ch) ! 0) - 48) + 10 * (of_char (dec3 (of_char ch) ! 1) - 48) +
        (of_char (dec3 (of_char ch) ! 2) - 48 :: nat)) = ch"
    have "escape (ch # s) = CHR 0x5C # a # b # d # escape s" by (simp add: e a d)
    moreover have "char_of (100 * (of_char a - 48) + 10 * (of_char b - 48) + (of_char d - 48 :: nat)) = ch"
      using b by (simp add: d)
    ultimately show ?thesis using Cons by (simp del: of_char_of)
  qed
qed

text \<open>The literal stays one word of the output: no white space, no comment sign.\<close>

lemma escape_word: "ch \<in> set (escape s) \<Longrightarrow> of_char ch > (32 :: nat) \<and> ch \<noteq> CHR ''#''"
proof -
  have "\<forall>c. \<forall>ch\<in>set (escape_char c). of_char ch > (32 :: nat) \<and> ch \<noteq> CHR ''#''" by code_simp
  then show "ch \<in> set (escape s) \<Longrightarrow> of_char ch > (32 :: nat) \<and> ch \<noteq> CHR ''#''"
    by (auto simp: escape_def)
qed

lemma escape_plain:
  assumes "CHR ''%'' \<notin> set s" "ch \<in> set s"
  shows "plain (escape_char ch)"
proof -
  have "\<forall>c. c = CHR ''%'' \<or> list_all (\<lambda>ch. ch \<noteq> NUL \<and> ch \<noteq> CHR ''%'') (escape_char c)" by code_simp
  moreover have "ch \<noteq> CHR ''%''" using assms by blast
  ultimately have "list_all (\<lambda>ch. ch \<noteq> NUL \<and> ch \<noteq> CHR ''%'') (escape_char ch)" by blast
  then show ?thesis unfolding plain_def list_all_iff by blast
qed

lemma prints_string:
  assumes "tok_type t = TOKEN_STRING" "tok_value t = V_string s" "CHR ''%'' \<notin> set s"
  shows "prints Q k (code_generator_print_value E t) (Buffered ''string@'' # map (Buffered \<circ> escape_char) s)"
proof -
  have "code_generator_print_value E t = run (map BUFFER_PRINT (''string@'' # map escape_char s))"
    using assms(1,2) by (auto simp: code_generator_print_value_def tok_str_def fun_eq_iff comp_def)
  then show ?thesis
    using prints_buffer_list [of "''string@'' # map escape_char s" Q k] escape_plain [OF assms(3)] by simp
qed

text \<open>What is printed for a literal, directly or into the buffer of a loop.\<close>

lemma buffered_map [simp]:
  "direct (map (Buffered \<circ> f) s) = []" "buffered (map (Buffered \<circ> f) s) = concat (map f s)"
  "all_text (map (Buffered \<circ> f) s) = concat (map f s)"
  by (induction s) simp_all

lemma printed_string:
  assumes "cg_wf G" "tok_type t = TOKEN_STRING" "tok_value t = V_string s" "CHR ''%'' \<notin> set s"
  shows "\<exists>G'. code_generator_print_value E t G = Some G' \<and>
    (if for_open G = 0 then cg_out G' = cg_out G @ ''string@'' @ escape s
     else cg_out G' = cg_out G \<and> ds_abs (print_buffer G') = ds_abs (print_buffer G) @ ''string@'' @ escape s)"
proof -
  have "unat (for_open G) + 0 < 2 ^ 32" using unsigned_less [of "for_open G"] by simp
  from printsE [OF prints_string [OF assms(2-4), of UNIV 0 E] assms(1) this] obtain G' where
    "code_generator_print_value E t G = Some G'" "writes (Buffered ''string@'' # map (Buffered \<circ> escape_char) s) G G'" by blast
  then show ?thesis by (auto simp: writes_def escape_def word_gt_0)
qed

text \<open>A per cent sign in a literal is taken as a conversion of \<open>printf\<close>.\<close>

lemma string_percent:
  assumes "cg_wf G" "for_open G = 0" "tok_type t = TOKEN_STRING" "tok_value t = V_string s" "CHR ''%'' \<in> set s"
  shows "code_generator_print_value E t G = UB"
proof -
  have pc: "BUFFER_PRINT (escape_char CHR ''%'') G = UB" if "cg_budget G = None" "for_open G = 0" for G
    using that by (simp add: BUFFER_PRINT_def code_generator_buffer_print_def escape_char_def schar_def)
  have "run (map (\<lambda>ch. BUFFER_PRINT (escape_char ch)) s) G = UB"
    if "cg_wf G" "for_open G = 0" "CHR ''%'' \<in> set s" for G s
    using that
  proof (induction s arbitrary: G)
    case (Cons ch s)
    show ?case
    proof (cases "ch = CHR ''%''")
      case True
      then show ?thesis using pc [of G] Cons.prems by (simp add: cg_wf_def)
    next
      case False
      then have "plain (escape_char ch)" using escape_plain [of "[ch]" ch] by simp
      from prints_BUFFER_PRINT [OF this, of UNIV 0] obtain G1 where
        "BUFFER_PRINT (escape_char ch) G = Some G1" "writes [Buffered (escape_char ch)] G G1"
        by (rule printsE [OF _ Cons.prems(1)]) (use Cons.prems(2) in auto)
      then show ?thesis using Cons False by (simp add: writes_def)
    qed
  qed simp
  moreover obtain G1 where "BUFFER_PRINT ''string@'' G = Some G1" "writes [Buffered ''string@''] G G1"
    by (rule printsE [OF prints_BUFFER_PRINT [of "''string@''" UNIV 0] assms(1)]) (use assms(2) in auto)
  ultimately show ?thesis
    using assms by (simp add: code_generator_print_value_def tok_str_def writes_def)
qed


section \<open>Calls\<close>

lemma prints_defvar: "prints Q k (\<lambda>G. Some (code_generator_defvar frame name uid G))
    [Direct (nl (''DEFVAR '' @ var_text frame name uid))]"
  unfolding code_generator_defvar_def by (rule prints_emit)

text \<open>The events of passing the parameter with number \<open>i\<close> whose value prints as \<open>es\<close>.\<close>

definition param_events :: "32 word \<Rightarrow> event list \<Rightarrow> event list" where
  "param_events i es =
     (if i = 0 then [Buffered (nl ''CREATEFRAME'')] else []) @
     [Direct (nl (''DEFVAR '' @ var_text ''TF'' ''??'' i)), Buffered (''MOVE TF@??_'' @ print_d i @ '' '')] @
     es @ [Buffered [NL]]"

lemma need_frame_not:
  "code_generator_need_function_frame name \<Longrightarrow> f \<in> set no_frame_functions \<Longrightarrow> strcmp name f \<noteq> 0"
  by (simp add: code_generator_need_function_frame_def)

lemma special_functions:
  "''readString'' \<in> set no_frame_functions" "''readInt'' \<in> set no_frame_functions"
  "''readDouble'' \<in> set no_frame_functions" "''write'' \<in> set no_frame_functions"
  "''Int2Double'' \<in> set no_frame_functions" "''Double2Int'' \<in> set no_frame_functions"
  "''length'' \<in> set no_frame_functions" "''chr'' \<in> set no_frame_functions"
  by (simp_all add: no_frame_functions_def)

lemmas need_frame = special_functions [THEN need_frame_not [rotated]]

definition bumps :: "nat \<Rightarrow> 32 word \<Rightarrow> (codegen \<Rightarrow> codegen c) \<Rightarrow> event list \<Rightarrow> 32 word \<Rightarrow> bool" where
  "bumps k i f es j \<longleftrightarrow> (\<forall>G. cg_wf G \<and> unat (for_open G) + k < 2 ^ 32 \<and> func_param_id G = i \<longrightarrow>
     (\<exists>G'. f G = Some G' \<and> writes es G G' \<and> func_param_id G' = j))"

lemma bumps_seq:
  assumes "bumps k i f es j" "bumps k j (run fs) es' l"
  shows "bumps k i (run (f # fs)) (es @ es') l"
  unfolding bumps_def
proof (intro allI impI)
  fix G
  assume G: "cg_wf G \<and> unat (for_open G) + k < 2 ^ 32 \<and> func_param_id G = i"
  then obtain G1 where G1: "f G = Some G1" "writes es G G1" "func_param_id G1 = j"
    using assms(1) by (auto simp: bumps_def)
  then have "cg_wf G1 \<and> unat (for_open G1) + k < 2 ^ 32 \<and> func_param_id G1 = j"
    using G by (simp add: writes_def)
  then obtain G2 where "run fs G1 = Some G2" "writes es' G1 G2" "func_param_id G2 = l"
    using assms(2) by (auto simp: bumps_def)
  then show "\<exists>G'. run (f # fs) G = Some G' \<and> writes (es @ es') G G' \<and> func_param_id G' = l"
    using G1 writes_trans by auto
qed

lemma bumps_prints: "prints {i} k f es \<Longrightarrow> bumps k i f es i"
  by (auto simp: prints_def bumps_def)

lemma prints_bumps: "bumps k i f es i \<Longrightarrow> prints {i} k f es"
  by (auto simp: prints_def bumps_def)

lemma bumps_set: "bumps k i (\<lambda>G. Some (G\<lparr>func_param_id := j\<rparr>)) [] j"
  by (auto simp: bumps_def writes_def cg_wf_def)

lemma bumps_param_add:
  assumes nf: "code_generator_need_function_frame name"
    and v: "prints {i} k (code_generator_print_value E t) es"
  shows "bumps k i (code_generator_function_call_param_add E name t) (param_events i es) (i + 1)"
  unfolding bumps_def
proof (intro allI impI)
  fix G
  assume G: "cg_wf G \<and> unat (for_open G) + k < 2 ^ 32 \<and> func_param_id G = i"
  have st: "cg_wf G'" "unat (for_open G') + k < 2 ^ 32"
    if "writes es G1 G'" "unat (for_open G1) + k < 2 ^ 32" for es G1 G'
    using that by (simp_all add: writes_def)
  let ?c = "if i = 0 then code_generator_createframe else Some"
  let ?ce = "if i = 0 then [Buffered (nl ''CREATEFRAME'')] else []"
  have c: "prints {i} k ?c ?ce" using prints_frames(1) prints_Some by simp
  obtain G1 where G1: "?c G = Some G1" "writes ?ce G G1" "func_param_id G1 = i"
    by (rule printsE [OF c, of G]) (use G in auto)
  let ?G2 = "code_generator_defvar ''TF'' ''??'' i G1"
  have w2: "writes [Direct (nl (''DEFVAR '' @ var_text ''TF'' ''??'' i))] G1 ?G2" "func_param_id ?G2 = i"
    using emit_writes [of G1] st [OF G1(2)] G G1(3) by (simp_all add: code_generator_defvar_def emit_def)
  note s2 = st [OF w2(1)] st [OF G1(2)]
  have p: "plain (''MOVE TF@??_'' @ print_d i @ '' '')" "plain [NL]" by (simp_all add: plain_print_d)
  obtain G3 where G3: "BUFFER_PRINT (''MOVE TF@??_'' @ print_d i @ '' '') ?G2 = Some G3"
    "writes [Buffered (''MOVE TF@??_'' @ print_d i @ '' '')] ?G2 G3" "func_param_id G3 = func_param_id ?G2"
    by (rule printsE [OF prints_BUFFER_PRINT [OF p(1), of "{i}" k] s2(1,2)]) (use G s2 w2(2) in auto)
  obtain G4 where G4: "code_generator_print_value E t G3 = Some G4" "writes es G3 G4" "func_param_id G4 = func_param_id G3"
    by (rule printsE [OF v st [OF G3(2)]]) (use G s2 w2(2) G3(3) in auto)
  obtain G5 where G5: "BUFFER_PRINT [NL] G4 = Some G5" "writes [Buffered [NL]] G4 G5" "func_param_id G5 = func_param_id G4"
    by (rule printsE [OF prints_BUFFER_PRINT [OF p(2), of "{i}" k] st [OF G4(2)]])
      (use G s2 st(2) [OF G3(2)] w2(2) G3(3) G4(3) in auto)
  have id: "func_param_id G5 = i" using w2(2) G3(3) G4(3) G5(3) by simp
  have "writes (?ce @ [Direct (nl (''DEFVAR '' @ var_text ''TF'' ''??'' i))] @
      [Buffered (''MOVE TF@??_'' @ print_d i @ '' '')] @ es @ [Buffered [NL]]) G G5"
    by (rule writes_trans [OF G1(2) writes_trans [OF w2(1) writes_trans [OF G3(2) writes_trans [OF G4(2) G5(2)]]]])
  then have "writes (param_events i es) G (G5\<lparr>func_param_id := i + 1\<rparr>)"
    by (simp add: param_events_def writes_def cg_wf_def split: if_splits)
  moreover have "code_generator_function_call_param_add E name t G = Some (G5\<lparr>func_param_id := i + 1\<rparr>)"
    using G G1(1,3) G3(1) w2(2) G4(1) G5(1) id nf need_frame [OF nf]
    by (simp add: code_generator_function_call_param_add_def Let_def split: if_splits)
  ultimately show "\<exists>G'. code_generator_function_call_param_add E name t G = Some G' \<and>
      writes (param_events i es) G G' \<and> func_param_id G' = i + 1"
    by simp
qed

fun pass_params :: "cg_env \<Rightarrow> string \<Rightarrow> token list \<Rightarrow> codegen \<Rightarrow> codegen c" where
  "pass_params E name [] G = Some G"
| "pass_params E name (t # ts) G = do { G \<leftarrow> code_generator_function_call_param_add E name t G; pass_params E name ts G }"

fun params_events :: "32 word \<Rightarrow> event list list \<Rightarrow> event list" where
  "params_events i [] = []"
| "params_events i (es # ess) = param_events i es @ params_events (i + 1) ess"

lemma bumps_params:
  assumes "code_generator_need_function_frame name"
    "list_all2 (\<lambda>t (es :: event list). \<forall>i. prints {i} k (code_generator_print_value E t) es) ts ess"
  shows "bumps k i (pass_params E name ts) (params_events i ess) (i + of_nat (length ts))"
  using assms(2)
proof (induction arbitrary: i rule: list_all2_induct)
  case Nil
  then show ?case by (auto simp: bumps_def writes_refl)
next
  case (Cons t ts es ess)
  have "bumps k i (code_generator_function_call_param_add E name t) (param_events i es) (i + 1)"
    using Cons.hyps(1) by (intro bumps_param_add [OF assms(1)]) simp
  moreover have "bumps k (i + 1) (run [pass_params E name ts]) (params_events (i + 1) ess) (i + 1 + of_nat (length ts))"
    using Cons.IH [of "i + 1"] by (auto simp: bumps_def)
  ultimately have "bumps k i (run [code_generator_function_call_param_add E name t, pass_params E name ts])
      (param_events i es @ params_events (i + 1) ess) (i + 1 + of_nat (length ts))"
    by (rule bumps_seq)
  moreover have "run [code_generator_function_call_param_add E name t, pass_params E name ts] = pass_params E name (t # ts)"
    by (rule ext) (simp split: bind_split)
  ultimately show ?case by (simp add: ac_simps del: run.simps pass_params.simps)
qed

lemma bumps_call:
  assumes "code_generator_need_function_frame name" "plain name"
  shows "bumps k i (code_generator_function_call name)
    ((if i = 0 then [Buffered (nl ''CREATEFRAME'')] else []) @ [Buffered (ln (''CALL $$FUNCTION_'' @ name))]) 0"
  unfolding bumps_def
proof (intro allI impI)
  fix G
  assume G: "cg_wf G \<and> unat (for_open G) + k < 2 ^ 32 \<and> func_param_id G = i"
  let ?c = "if i = 0 then code_generator_createframe else Some"
  let ?ce = "if i = 0 then [Buffered (nl ''CREATEFRAME'')] else []"
  let ?call = "Buffered (ln (''CALL $$FUNCTION_'' @ name))"
  have c: "prints {i} k ?c ?ce" using prints_frames(1) prints_Some by simp
  obtain G1 where G1: "?c G = Some G1" "writes ?ce G G1" "func_param_id G1 = func_param_id G"
    by (rule printsE [OF c, of G]) (use G in auto)
  have p: "plain (ln (''CALL $$FUNCTION_'' @ name))" using assms(2) by simp
  obtain G2 where G2: "BUFFER_PRINT (ln (''CALL $$FUNCTION_'' @ name)) G1 = Some G2" "writes [?call] G1 G2"
    by (rule printsE [OF prints_BUFFER_PRINT [OF p, of "{i}" k], of G1]) (use G G1 in \<open>auto simp: writes_def\<close>)
  have "writes (?ce @ [?call]) G (G2\<lparr>func_param_id := 0\<rparr>)"
    using writes_trans [OF G1(2) G2(2)] by (simp add: writes_def cg_wf_def split: if_splits)
  moreover have "code_generator_function_call name G = Some (G2\<lparr>func_param_id := 0\<rparr>)"
    using G G1(1) G2(1) assms(1) need_frame [OF assms(1)]
    by (simp add: code_generator_function_call_def split: if_splits)
  ultimately show "\<exists>G'. code_generator_function_call name G = Some G' \<and> writes (?ce @ [?call]) G G' \<and> func_param_id G' = 0"
    by simp
qed

text \<open>A complete call: the parameters are numbered from 0 and the counter is 0 again.\<close>

definition call_events :: "string \<Rightarrow> event list list \<Rightarrow> event list" where
  "call_events name ess = params_events 0 ess @
     (if ess = [] then [Buffered (nl ''CREATEFRAME'')] else []) @ [Buffered (ln (''CALL $$FUNCTION_'' @ name))]"

lemma prints_call:
  assumes "code_generator_need_function_frame name" "plain name" "length ts < 2 ^ 32"
    "list_all2 (\<lambda>t es. \<forall>i. prints {i} k (code_generator_print_value E t) es) ts ess"
  shows "prints {0} k (run [pass_params E name ts, code_generator_function_call name]) (call_events name ess)"
proof -
  let ?n = "of_nat (length ts) :: 32 word"
  have n: "?n = 0 \<longleftrightarrow> ess = []"
    using assms(3) list_all2_lengthD [OF assms(4)] by (auto simp: word_eq_iff_unsigned unat_of_nat take_bit_nat_eq_self dest: arg_cong [where f = unat])
  have "bumps k ?n (run [code_generator_function_call name])
      ((if ess = [] then [Buffered (nl ''CREATEFRAME'')] else []) @ [Buffered (ln (''CALL $$FUNCTION_'' @ name))]) 0"
    using bumps_call [OF assms(1,2), of k ?n] n by (auto simp: bumps_def)
  with bumps_params [OF assms(1,4), of 0, unfolded add_0]
  have "bumps k 0 (run [pass_params E name ts, code_generator_function_call name])
      (params_events 0 ess @ (if ess = [] then [Buffered (nl ''CREATEFRAME'')] else []) @
        [Buffered (ln (''CALL $$FUNCTION_'' @ name))]) 0"
    by (rule bumps_seq)
  then show ?thesis by (intro prints_bumps) (simp add: call_events_def)
qed

lemma prints_int: "tok_type t = TOKEN_INT \<Longrightarrow> tok_value t = V_int w \<Longrightarrow>
    prints Q k (code_generator_print_value E t) [Buffered (''int@'' @ print_d w)]"
proof -
  assume "tok_type t = TOKEN_INT" "tok_value t = V_int w"
  then have "code_generator_print_value E t = BUFFER_PRINT (''int@'' @ print_d w)"
    by (simp add: code_generator_print_value_def fun_eq_iff)
  then show ?thesis using prints_BUFFER_PRINT [of "''int@'' @ print_d w" Q k] by (simp add: plain_print_d)
qed

text \<open>
  A call inside a loop: the definition of the parameter is printed in front of the loop,
  but the frame it belongs to is created inside, behind it.
\<close>

lemma call_in_loop:
  assumes "code_generator_need_function_frame name" "plain name"
    "tok_type t = TOKEN_INT" "tok_value t = V_int w" "cg_wf G" "for_open G = 0" "func_param_id G = 0"
  shows "\<exists>G'. run [code_generator_for_label n,
      run [pass_params E name [t], code_generator_function_call name], code_generator_for_loop_end n] G = Some G' \<and>
    cg_out G' = cg_out G @ nl ''DEFVAR TF@??_0'' @ loop_start n @ nl ''CREATEFRAME'' @
      ''MOVE TF@??_0 int@'' @ print_d w @ [NL] @ ln (''CALL $$FUNCTION_'' @ name) @ loop_stop n"
proof -
  let ?es = "[[Buffered (''int@'' @ print_d w)]]"
  have z: "print_d 0 = ''0''" by code_simp
  have c: "prints {0} 0 (run [pass_params E name [t], code_generator_function_call name]) (call_events name ?es)"
    by (rule prints_call [OF assms(1,2)]) (simp_all add: prints_int [OF assms(3,4)] del: append.simps)
  have b: "buffered (call_events name ?es) = nl ''CREATEFRAME'' @ ''MOVE TF@??_0 int@'' @ print_d w @ [NL] @
      ln (''CALL $$FUNCTION_'' @ name)" "direct (call_events name ?es) = nl ''DEFVAR TF@??_0''"
    by (simp_all add: call_events_def param_events_def var_text_def z)
  from prints_loop [OF c, of n] obtain G' where
    "run [code_generator_for_label n, run [pass_params E name [t], code_generator_function_call name],
      code_generator_for_loop_end n] G = Some G'"
    "writes [Direct (nl ''DEFVAR TF@??_0''), Buffered (loop_start n @ buffered (call_events name ?es) @ loop_stop n)] G G'"
    unfolding b(2) by (rule printsE [where G = G]) (use assms(5,6,7) in auto)
  then show ?thesis using assms(6) unfolding b(1) writes_def by (auto simp del: run.simps)
qed

end
