(* ===== verification/Token_Buffer.thy ===== *)
theory Token_Buffer
  imports Token
begin

text \<open>
  The token buffer of \<open>src/token_buffer.c\<close>: a doubly linked list with a runner, from which
  the parser reads the tokens in its second phase. The nodes live in a heap; a node that was
  freed is not in it, so a use after free is undefined. The second half relates the heap to
  the list of tokens and a position in it.
\<close>

section \<open>The operations\<close>

type_synonym node_ptr = "nat option"

record tb_node =
  n_token :: token
  n_next :: node_ptr
  n_prev :: node_ptr

text \<open>
  The buffer with its part of the heap: the live nodes, the next unused address, and the
  strings of the tokens whose buffers \<open>tb_pop\<close> has released.
\<close>

record token_buffer =
  tb_head :: node_ptr
  tb_runner :: node_ptr
  tb_nodes :: "nat \<Rightarrow> tb_node option"
  tb_fresh :: nat
  tb_freed :: "string list"

definition tb_empty_heap :: token_buffer where
  "tb_empty_heap = \<lparr>tb_head = None, tb_runner = None, tb_nodes = (\<lambda>_. None), tb_fresh = 0, tb_freed = []\<rparr>"

definition EXIT_SUCCESS :: nat where "EXIT_SUCCESS = 0"
definition EXIT_FAILURE :: nat where "EXIT_FAILURE = 1"

text \<open>Dereferencing a pointer: null and dangling pointers are undefined.\<close>

definition deref :: "token_buffer \<Rightarrow> node_ptr \<Rightarrow> tb_node c" where
  "deref B p = do { a \<leftarrow> p; tb_nodes B a }"

definition set_node :: "token_buffer \<Rightarrow> node_ptr \<Rightarrow> (tb_node \<Rightarrow> tb_node) \<Rightarrow> token_buffer c" where
  "set_node B p f = do {
     a \<leftarrow> p;
     n \<leftarrow> tb_nodes B a;
     Some (B\<lparr>tb_nodes := (tb_nodes B)(a \<mapsto> f n)\<rparr>)
   }"

definition tb_init :: "token_buffer \<Rightarrow> token_buffer" where
  "tb_init B = B\<lparr>tb_head := None, tb_runner := None\<rparr>"

definition tb_peek :: "token_buffer \<Rightarrow> bool" where
  "tb_peek B \<longleftrightarrow> tb_head B \<noteq> None"

text \<open>The search for the last node; on a cyclic list it does not return.\<close>

partial_function (option) tb_last :: "token_buffer \<Rightarrow> node_ptr \<Rightarrow> node_ptr c" where
  "tb_last B current = do {
     n \<leftarrow> deref B current;
     if n_next n \<noteq> None then tb_last B (n_next n) else Some current
   }"

declare tb_last.simps [code]

definition tb_push :: "token \<Rightarrow> token_buffer \<Rightarrow> budget \<Rightarrow> (nat \<times> token_buffer \<times> budget) c" where
  "tb_push tok B m =
     (case take_alloc m of
        (False, m') \<Rightarrow> Some (EXIT_FAILURE, B, m')
      | (True, m') \<Rightarrow> do {
          let new_node = tb_fresh B;
          let B = B\<lparr>tb_fresh := new_node + 1,
                    tb_nodes := (tb_nodes B)(new_node \<mapsto> \<lparr>n_token = tok, n_next = None, n_prev = None\<rparr>)\<rparr>;
          B \<leftarrow> (if \<not> tb_peek B
               then Some (B\<lparr>tb_head := Some new_node, tb_runner := Some new_node\<rparr>)
               else do {
                 current \<leftarrow> tb_last B (tb_runner B);
                 B \<leftarrow> set_node B current (\<lambda>n. n\<lparr>n_next := Some new_node\<rparr>);
                 set_node B (Some new_node) (\<lambda>n. n\<lparr>n_prev := current\<rparr>)
               });
          Some (EXIT_SUCCESS, B, m')
        })"

definition tb_release :: "token \<Rightarrow> token_buffer \<Rightarrow> token_buffer c" where
  "tb_release t B =
     (if tok_type t = TOKEN_STRING \<or> tok_type t = TOKEN_IDENTIFIER
      then do { s \<leftarrow> tok_str t; Some (B\<lparr>tb_freed := s # tb_freed B\<rparr>) }
      else Some B)"

definition tb_pop :: "token_buffer \<Rightarrow> token_buffer c" where
  "tb_pop B =
     (if tb_peek B then do {
        let current = tb_runner B;
        n \<leftarrow> deref B current;
        B \<leftarrow> (if n_prev n \<noteq> None then set_node B (n_prev n) (\<lambda>p. p\<lparr>n_next := n_next n\<rparr>) else Some B);
        n \<leftarrow> deref B current;
        B \<leftarrow> (if n_next n \<noteq> None then set_node B (n_next n) (\<lambda>p. p\<lparr>n_prev := n_prev n\<rparr>) else Some B);
        n \<leftarrow> deref B current;
        let B = (if tb_runner B = tb_head B then B\<lparr>tb_head := n_next n\<rparr> else B);
        let B = B\<lparr>tb_runner := n_next n\<rparr>;
        B \<leftarrow> tb_release (n_token n) B;
        a \<leftarrow> current;
        Some (B\<lparr>tb_nodes := (tb_nodes B)(a := None)\<rparr>)
      } else Some B)"

partial_function (option) tb_pop_all :: "token_buffer \<Rightarrow> token_buffer c" where
  "tb_pop_all B = (if tb_peek B then do { B \<leftarrow> tb_pop B; tb_pop_all B } else Some B)"

declare tb_pop_all.simps [code]

definition tb_dispose :: "token_buffer \<Rightarrow> token_buffer c" where
  "tb_dispose B = tb_pop_all (B\<lparr>tb_runner := tb_head B\<rparr>)"

definition err_token :: token where
  "err_token = \<lparr>preceding_eol = False, tok_type = TOKEN_UNDEFINED, tok_value = V_int 0\<rparr>"

definition tb_get_token :: "token_buffer \<Rightarrow> token c" where
  "tb_get_token B =
     (if \<not> tb_peek B then Some err_token
      else do { n \<leftarrow> deref B (tb_runner B); Some (n_token n) })"

text \<open>The numbers \<open>tb_print_token_type\<close> prints, as the enumeration orders them.\<close>

definition token_number :: "token_type \<Rightarrow> nat" where
  "token_number ty = length (takeWhile (\<lambda>t. t \<noteq> ty) (TOKEN_UNDEFINED # tokens))"

partial_function (option) tb_print_token_type :: "token_buffer \<Rightarrow> node_ptr \<Rightarrow> string c" where
  "tb_print_token_type B current =
     (if current \<noteq> None then do {
        n \<leftarrow> deref B current;
        rest \<leftarrow> tb_print_token_type B (n_next n);
        Some (''token: '' @ dec_string (token_number (tok_type (n_token n))) @ [NL] @ rest)
      } else Some [])"

declare tb_print_token_type.simps [code]

definition tb_next :: "token_buffer \<Rightarrow> token_buffer c" where
  "tb_next B = do {
     n \<leftarrow> deref B (tb_runner B);
     Some (if n_next n \<noteq> None then B\<lparr>tb_runner := n_next n\<rparr> else B)
   }"

definition tb_prev :: "token_buffer \<Rightarrow> token_buffer c" where
  "tb_prev B = do {
     n \<leftarrow> deref B (tb_runner B);
     Some (if n_prev n \<noteq> None then B\<lparr>tb_runner := n_prev n\<rparr> else B)
   }"

section \<open>The list in the heap\<close>

text \<open>
  \<open>dll ns p ps q\<close>: the nodes \<open>ps\<close>, given by their addresses and tokens, are linked in both
  directions, the first points back to \<open>p\<close> and the last on to \<open>q\<close>.
\<close>

fun first_of :: "(nat \<times> token) list \<Rightarrow> node_ptr \<Rightarrow> node_ptr" where
  "first_of [] q = q"
| "first_of (x # ps) q = Some (fst x)"

fun last_of :: "node_ptr \<Rightarrow> (nat \<times> token) list \<Rightarrow> node_ptr" where
  "last_of p [] = p"
| "last_of p (x # ps) = last_of (Some (fst x)) ps"

fun dll :: "(nat \<Rightarrow> tb_node option) \<Rightarrow> node_ptr \<Rightarrow> (nat \<times> token) list \<Rightarrow> node_ptr \<Rightarrow> bool" where
  "dll ns p [] q \<longleftrightarrow> True"
| "dll ns p (x # ps) q \<longleftrightarrow>
     ns (fst x) = Some \<lparr>n_token = snd x, n_next = first_of ps q, n_prev = p\<rparr> \<and> dll ns (Some (fst x)) ps q"

text \<open>
  The representation: the tokens \<open>toks\<close> with the runner at position \<open>i\<close>, and nothing else in
  the heap.
\<close>

definition tb_list :: "token_buffer \<Rightarrow> (nat \<times> token) list \<Rightarrow> bool" where
  "tb_list B ps \<longleftrightarrow> dll (tb_nodes B) None ps None \<and> distinct (map fst ps) \<and>
     dom (tb_nodes B) = fst ` set ps \<and> (\<forall>x\<in>set ps. fst x < tb_fresh B) \<and>
     tb_head B = first_of ps None"

definition tb_repr :: "token_buffer \<Rightarrow> token list \<Rightarrow> nat \<Rightarrow> bool" where
  "tb_repr B toks i \<longleftrightarrow> (\<exists>ps. tb_list B ps \<and> toks = map snd ps \<and>
     (if ps = [] then tb_runner B = None \<and> i = 0
      else i < length ps \<and> tb_runner B = Some (fst (ps ! i))))"

lemma first_of_append [simp]: "first_of (ps @ qs) q = first_of ps (first_of qs q)"
  by (cases ps) simp_all

lemma first_of_None [simp]: "first_of ps q = None \<longleftrightarrow> ps = [] \<and> q = None"
  by (cases ps) simp_all

lemma last_of_append [simp]: "last_of p (ps @ qs) = last_of (last_of p ps) qs"
  by (induction ps arbitrary: p) simp_all

lemma last_of_ne: "ps \<noteq> [] \<Longrightarrow> last_of p ps = Some (fst (last ps))"
  by (induction ps arbitrary: p) auto

lemma dll_append [simp]: "dll ns p (ps @ qs) q \<longleftrightarrow> dll ns p ps (first_of qs q) \<and> dll ns (last_of p ps) qs q"
  by (induction ps arbitrary: p) auto

lemma dll_frame: "(\<And>x. x \<in> set ps \<Longrightarrow> ns' (fst x) = ns (fst x)) \<Longrightarrow> dll ns' p ps q = dll ns p ps q"
  by (induction ps arbitrary: p) auto

lemma dll_upd [simp]: "a \<notin> fst ` set ps \<Longrightarrow> dll (ns(a := v)) p ps q = dll ns p ps q"
  by (rule dll_frame) auto

lemma dll_node:
  assumes "dll ns p ps q" "i < length ps"
  shows "ns (fst (ps ! i)) = Some \<lparr>n_token = snd (ps ! i),
      n_next = (if Suc i < length ps then Some (fst (ps ! Suc i)) else q),
      n_prev = (if i = 0 then p else Some (fst (ps ! (i - 1))))\<rparr>"
  using assms
proof (induction ps arbitrary: p i)
  case Nil
  then show ?case by simp
next
  case (Cons x ps)
  show ?case
  proof (cases i)
    case 0
    then show ?thesis using Cons.prems by (cases ps) auto
  next
    case (Suc j)
    then show ?thesis using Cons.IH [of "Some (fst x)" j] Cons.prems by (cases j) auto
  qed
qed

lemma tb_repr_nodes:
  assumes "tb_repr B toks i" "toks \<noteq> []"
  obtains ps where "tb_list B ps" "toks = map snd ps" "i < length ps"
    "tb_runner B = Some (fst (ps ! i))"
  using assms by (auto simp: tb_repr_def split: if_splits)

lemma tb_list_deref:
  assumes "tb_list B ps" "i < length ps"
  shows "deref B (Some (fst (ps ! i))) = Some \<lparr>n_token = snd (ps ! i),
      n_next = (if Suc i < length ps then Some (fst (ps ! Suc i)) else None),
      n_prev = (if i = 0 then None else Some (fst (ps ! (i - 1))))\<rparr>"
  using dll_node [OF _ assms(2)] assms(1) by (simp add: deref_def tb_list_def)

section \<open>The operations on the list\<close>

lemma tb_init_repr: "tb_repr (tb_init tb_empty_heap) [] 0"
  by (simp add: tb_repr_def tb_list_def tb_init_def tb_empty_heap_def)

lemma tb_peek_repr: "tb_repr B toks i \<Longrightarrow> tb_peek B \<longleftrightarrow> toks \<noteq> []"
  by (auto simp: tb_peek_def tb_repr_def tb_list_def split: if_splits)

lemma tb_last_repr:
  assumes "dll (tb_nodes B) None ps None" "i < length ps"
  shows "tb_last B (Some (fst (ps ! i))) = Some (Some (fst (last ps)))"
  using assms(2)
proof (induction "length ps - i" arbitrary: i)
  case 0
  then show ?case by simp
next
  case (Suc n)
  have d: "deref B (Some (fst (ps ! i))) = Some \<lparr>n_token = snd (ps ! i),
      n_next = (if Suc i < length ps then Some (fst (ps ! Suc i)) else None),
      n_prev = (if i = 0 then None else Some (fst (ps ! (i - 1))))\<rparr>"
    using dll_node [OF assms(1) Suc.prems] by (simp add: deref_def)
  show ?case
  proof (cases "Suc i < length ps")
    case True
    then have "tb_last B (Some (fst (ps ! Suc i))) = Some (Some (fst (last ps)))"
      using Suc by simp
    then show ?thesis using True by (subst tb_last.simps) (simp add: d)
  next
    case False
    then have "i = length ps - 1" using Suc.prems by simp
    then have "last ps = ps ! i" using Suc.prems by (metis last_conv_nth length_0_conv not_less_zero)
    then show ?thesis using False by (subst tb_last.simps) (simp add: d)
  qed
qed

text \<open>A push appends at the end and leaves the runner where it is.\<close>

lemma tb_push_list:
  assumes "tb_list B ps" "i < length ps" "tb_runner B = Some (fst (ps ! i))"
  shows "\<exists>B'. tb_push tok B None = Some (EXIT_SUCCESS, B', None) \<and>
    tb_list B' (ps @ [(tb_fresh B, tok)]) \<and> tb_runner B' = tb_runner B"
proof -
  let ?n = "tb_fresh B"
  let ?ns = "(tb_nodes B)(?n \<mapsto> \<lparr>n_token = tok, n_next = None, n_prev = None\<rparr>)"
  let ?B = "B\<lparr>tb_fresh := ?n + 1, tb_nodes := ?ns\<rparr>"
  from assms(2) obtain qs l where ps: "ps = qs @ [l]" by (metis list.size(3) not_less_zero rev_exhaust)
  from assms(1) have d: "dll (tb_nodes B) None ps None" "distinct (map fst ps)"
    "dom (tb_nodes B) = fst ` set ps" "\<forall>x\<in>set ps. fst x < ?n" "tb_head B = first_of ps None"
    by (simp_all add: tb_list_def)
  have new: "?n \<notin> fst ` set ps" using d(4) by fastforce
  have d': "dll (tb_nodes ?B) None ps None" using d(1) new by simp
  have l: "tb_last ?B (tb_runner B) = Some (Some (fst l))"
    using tb_last_repr [OF d' assms(2)] by (simp add: assms(3) ps)
  have pk: "tb_peek ?B" using d(5) by (simp add: tb_peek_def ps del: first_of_append)
  have nl: "tb_nodes B (fst l) = Some \<lparr>n_token = snd l, n_next = None, n_prev = last_of None qs\<rparr>"
    and nq: "dll (tb_nodes B) None qs (Some (fst l))"
    using d(1) by (simp_all add: ps)
  have ne: "fst l \<noteq> ?n" "fst l \<notin> fst ` set qs" "?n \<notin> fst ` set qs"
    using new d(2) by (auto simp: ps)
  let ?ns2 = "(?ns(fst l \<mapsto> \<lparr>n_token = snd l, n_next = Some ?n, n_prev = last_of None qs\<rparr>))
    (?n \<mapsto> \<lparr>n_token = tok, n_next = None, n_prev = Some (fst l)\<rparr>)"
  let ?B2 = "?B\<lparr>tb_nodes := ?ns2\<rparr>"
  have "tb_push tok B None = Some (EXIT_SUCCESS, ?B2, None)"
    using pk l nl ne by (simp add: tb_push_def set_node_def Let_def fun_upd_twist)
  moreover have "dll ?ns2 None (ps @ [(?n, tok)]) None"
    using nq ne by (simp add: ps)
  moreover have "dom ?ns2 = insert ?n (fst ` set ps)" using d(3) by (auto simp: ps)
  moreover have "first_of (ps @ [(?n, tok)]) None = tb_head B" using d(5) by (simp add: ps)
  moreover have "\<forall>x\<in>set ps. fst x < Suc ?n" using d(4) by auto
  ultimately show ?thesis
    using d(2) new by (auto simp: tb_list_def)
qed

lemma tb_push_repr:
  assumes "tb_repr B toks i"
  shows "\<exists>B'. tb_push tok B None = Some (EXIT_SUCCESS, B', None) \<and> tb_repr B' (toks @ [tok]) i"
proof (cases toks)
  case Nil
  then have B: "tb_head B = None" "i = 0" "tb_nodes B = Map.empty"
    using assms by (auto simp: tb_repr_def tb_list_def)
  then have "tb_list (B\<lparr>tb_fresh := Suc (tb_fresh B),
      tb_nodes := (tb_nodes B)(tb_fresh B \<mapsto> \<lparr>n_token = tok, n_next = None, n_prev = None\<rparr>),
      tb_head := Some (tb_fresh B), tb_runner := Some (tb_fresh B)\<rparr>) [(tb_fresh B, tok)]"
    by (simp add: tb_list_def)
  then show ?thesis
    using Nil B by (fastforce simp: tb_push_def tb_peek_def tb_repr_def Let_def)
next
  case Cons
  then have ne: "toks \<noteq> []" by simp
  obtain ps where p: "tb_list B ps" "toks = map snd ps" "i < length ps"
    "tb_runner B = Some (fst (ps ! i))"
    by (rule tb_repr_nodes [OF assms ne])
  from tb_push_list [OF p(1,3,4), of tok] p show ?thesis
    by (auto simp: tb_repr_def nth_append intro!: exI [of _ "ps @ [(tb_fresh B, tok)]"])
qed

lemma tb_push_fail:
  "tb_push tok B (Some 0) = Some (EXIT_FAILURE, B, Some 0)"
  by (simp add: tb_push_def)

lemma tb_get_token_repr:
  assumes "tb_repr B toks i"
  shows "tb_get_token B = Some (if toks = [] then err_token else toks ! i)"
proof (cases "toks = []")
  case True
  then show ?thesis using tb_peek_repr [OF assms] by (simp add: tb_get_token_def)
next
  case False
  obtain ps where p: "tb_list B ps" "toks = map snd ps" "i < length ps"
    "tb_runner B = Some (fst (ps ! i))"
    by (rule tb_repr_nodes [OF assms False])
  then show ?thesis
    using False tb_peek_repr [OF assms] tb_list_deref [OF p(1,3)] by (simp add: tb_get_token_def)
qed

lemma tb_list_runner: "tb_list (B\<lparr>tb_runner := r\<rparr>) ps = tb_list B ps"
  by (simp add: tb_list_def)

lemma tb_next_repr:
  assumes "tb_repr B toks i" "toks \<noteq> []"
  shows "\<exists>B'. tb_next B = Some B' \<and> tb_repr B' toks (if Suc i < length toks then Suc i else i)"
proof -
  obtain ps where p: "tb_list B ps" "toks = map snd ps" "i < length ps"
    "tb_runner B = Some (fst (ps ! i))"
    by (rule tb_repr_nodes [OF assms])
  note d = tb_list_deref [OF p(1,3)]
  show ?thesis
  proof (cases "Suc i < length ps")
    case True
    then have "tb_next B = Some (B\<lparr>tb_runner := Some (fst (ps ! Suc i))\<rparr>)"
      by (simp add: tb_next_def p(4) d)
    moreover have "tb_repr (B\<lparr>tb_runner := Some (fst (ps ! Suc i))\<rparr>) toks (Suc i)"
      unfolding tb_repr_def tb_list_runner using p True
      by (intro exI [of _ ps]) auto
    ultimately show ?thesis using True p(2) by simp
  next
    case False
    then show ?thesis using assms(1) p(2) by (simp add: tb_next_def p(4) d)
  qed
qed

lemma tb_prev_repr:
  assumes "tb_repr B toks i" "toks \<noteq> []"
  shows "\<exists>B'. tb_prev B = Some B' \<and> tb_repr B' toks (i - 1)"
proof -
  obtain ps where p: "tb_list B ps" "toks = map snd ps" "i < length ps"
    "tb_runner B = Some (fst (ps ! i))"
    by (rule tb_repr_nodes [OF assms])
  note d = tb_list_deref [OF p(1,3)]
  show ?thesis
  proof (cases i)
    case (Suc j)
    then have "tb_prev B = Some (B\<lparr>tb_runner := Some (fst (ps ! j))\<rparr>)"
      using d by (simp add: tb_prev_def p(4))
    moreover have "tb_repr (B\<lparr>tb_runner := Some (fst (ps ! j))\<rparr>) toks j"
      unfolding tb_repr_def tb_list_runner using p Suc
      by (intro exI [of _ ps]) auto
    ultimately show ?thesis using Suc by simp
  next
    case 0
    then show ?thesis using assms(1) d by (simp add: tb_prev_def p(4))
  qed
qed

section \<open>Disposal\<close>

text \<open>What a pop releases besides the node.\<close>

definition owned_string :: "token \<Rightarrow> string list" where
  "owned_string t = (case tok_value t of
     V_string s \<Rightarrow> if tok_type t = TOKEN_STRING \<or> tok_type t = TOKEN_IDENTIFIER then [s] else []
   | _ \<Rightarrow> [])"

definition string_token_ok :: "token \<Rightarrow> bool" where
  "string_token_ok t \<longleftrightarrow>
     (tok_type t = TOKEN_STRING \<or> tok_type t = TOKEN_IDENTIFIER \<longrightarrow> (\<exists>s. tok_value t = V_string s))"

lemma tb_release_ok:
  "string_token_ok t \<Longrightarrow> tb_release t B = Some (B\<lparr>tb_freed := owned_string t @ tb_freed B\<rparr>)"
  by (auto simp: tb_release_def string_token_ok_def owned_string_def tok_str_def
      split: token_value.split)

lemma tb_pop_repr:
  assumes "tb_list B (x # ps)" "tb_runner B = Some (fst x)" "string_token_ok (snd x)"
  shows "\<exists>B'. tb_pop B = Some B' \<and> tb_list B' ps \<and> tb_runner B' = first_of ps None \<and>
    tb_freed B' = owned_string (snd x) @ tb_freed B"
proof -
  from assms(1) have d: "dll (tb_nodes B) None (x # ps) None" "distinct (map fst (x # ps))"
    "dom (tb_nodes B) = fst ` set (x # ps)" "\<forall>y\<in>set (x # ps). fst y < tb_fresh B"
    "tb_head B = Some (fst x)"
    by (simp_all add: tb_list_def)
  let ?fr = "owned_string (snd x) @ tb_freed B"
  have nx: "tb_nodes B (fst x) = Some \<lparr>n_token = snd x, n_next = first_of ps None, n_prev = None\<rparr>"
    using d(1) by simp
  note str = tb_release_ok [OF assms(3)]
  show ?thesis
  proof (cases ps)
    case Nil
    let ?B = "B\<lparr>tb_head := None, tb_runner := None, tb_freed := ?fr, tb_nodes := (tb_nodes B)(fst x := None)\<rparr>"
    have "tb_pop B = Some ?B"
      by (simp add: tb_pop_def tb_peek_def deref_def assms(2) d(5) nx Nil str Let_def)
    moreover have "tb_list ?B ps" using d(3) Nil by (simp add: tb_list_def)
    ultimately show ?thesis using Nil by simp
  next
    case (Cons y qs)
    from d(1) have ny: "tb_nodes B (fst y) = Some \<lparr>n_token = snd y, n_next = first_of qs None, n_prev = Some (fst x)\<rparr>"
      by (simp add: Cons)
    have ne: "fst y \<noteq> fst x" "fst x \<notin> fst ` set qs" "fst y \<notin> fst ` set qs" using d(2) by (auto simp: Cons)
    let ?ns = "((tb_nodes B)(fst y \<mapsto> \<lparr>n_token = snd y, n_next = first_of qs None, n_prev = None\<rparr>))(fst x := None)"
    let ?B = "B\<lparr>tb_nodes := ?ns, tb_head := Some (fst y), tb_runner := Some (fst y), tb_freed := ?fr\<rparr>"
    have "tb_pop B = Some ?B"
      using ne by (simp add: tb_pop_def tb_peek_def deref_def set_node_def assms(2) d(5) nx ny Cons str Let_def)
    moreover have "dll ?ns None ps None" using d(1) ne by (simp add: Cons)
    moreover have "dom ?ns = fst ` set ps" using d(3) ne by (simp add: Cons insert_Diff_if)
    ultimately show ?thesis using d by (simp add: tb_list_def Cons)
  qed
qed

lemma tb_pop_all_repr:
  assumes "tb_list B ps" "tb_runner B = first_of ps None" "\<forall>x\<in>set ps. string_token_ok (snd x)"
  shows "\<exists>B'. tb_pop_all B = Some B' \<and> tb_nodes B' = Map.empty \<and> tb_head B' = None \<and>
    tb_freed B' = rev (concat (map (\<lambda>x. owned_string (snd x)) ps)) @ tb_freed B"
  using assms
proof (induction ps arbitrary: B)
  case Nil
  then have "\<not> tb_peek B" "tb_nodes B = Map.empty" "tb_head B = None"
    by (simp_all add: tb_list_def tb_peek_def)
  then show ?case by (subst tb_pop_all.simps) simp
next
  case (Cons x ps)
  obtain B1 where B1: "tb_pop B = Some B1" "tb_list B1 ps" "tb_runner B1 = first_of ps None"
    "tb_freed B1 = owned_string (snd x) @ tb_freed B"
    using tb_pop_repr [OF Cons.prems(1)] Cons.prems(2,3) by auto
  have p: "tb_peek B" using Cons.prems(1) by (simp add: tb_list_def tb_peek_def)
  have o: "rev (owned_string t) = owned_string t" for t
    by (simp add: owned_string_def split: token_value.split)
  obtain B' where "tb_pop_all B1 = Some B'" "tb_nodes B' = Map.empty" "tb_head B' = None"
    "tb_freed B' = rev (concat (map (\<lambda>x. owned_string (snd x)) ps)) @ tb_freed B1"
    using Cons.IH [OF B1(2,3)] Cons.prems(3) by auto
  then show ?case using p B1 by (subst tb_pop_all.simps) (simp add: o)
qed

text \<open>Disposal empties the heap and releases every owned string exactly once.\<close>

lemma tb_dispose_repr:
  assumes "tb_repr B toks i" "\<forall>t\<in>set toks. string_token_ok t"
  shows "\<exists>B'. tb_dispose B = Some B' \<and> tb_nodes B' = Map.empty \<and> tb_head B' = None \<and>
    tb_freed B' = rev (concat (map owned_string toks)) @ tb_freed B"
proof -
  from assms(1) obtain ps where p: "tb_list B ps" "toks = map snd ps" by (auto simp: tb_repr_def)
  let ?B = "B\<lparr>tb_runner := tb_head B\<rparr>"
  have "tb_list ?B ps" "tb_runner ?B = first_of ps None" "tb_freed ?B = tb_freed B"
    using p(1) by (simp_all add: tb_list_def)
  then show ?thesis
    using tb_pop_all_repr [of ?B ps] assms(2) p(2) by (auto simp: tb_dispose_def comp_def)
qed

section \<open>The token stream the parser reads\<close>

text \<open>
  The parser uses the buffer through four operations: it fills it once, reads the token at
  the runner, and moves the runner by one in either direction.
\<close>

locale token_stream =
  fixes repr :: "'b \<Rightarrow> token list \<Rightarrow> nat \<Rightarrow> bool"
    and push :: "token \<Rightarrow> 'b \<Rightarrow> 'b c"
    and cur :: "'b \<Rightarrow> token c"
    and nxt :: "'b \<Rightarrow> 'b c"
    and prv :: "'b \<Rightarrow> 'b c"
  assumes push_law: "repr B toks i \<Longrightarrow> \<exists>B'. push t B = Some B' \<and> repr B' (toks @ [t]) i"
    and cur_law: "repr B toks i \<Longrightarrow> toks \<noteq> [] \<Longrightarrow> cur B = Some (toks ! i)"
    and nxt_law: "repr B toks i \<Longrightarrow> Suc i < length toks \<Longrightarrow> \<exists>B'. nxt B = Some B' \<and> repr B' toks (Suc i)"
    and prv_law: "repr B toks (Suc i) \<Longrightarrow> Suc i < length toks \<Longrightarrow> \<exists>B'. prv B = Some B' \<and> repr B' toks i"
begin

fun push_all :: "token list \<Rightarrow> 'b \<Rightarrow> 'b c" where
  "push_all [] B = Some B"
| "push_all (t # ts) B = do { B \<leftarrow> push t B; push_all ts B }"

fun skip :: "nat \<Rightarrow> 'b \<Rightarrow> 'b c" where
  "skip 0 B = Some B"
| "skip (Suc n) B = do { B \<leftarrow> nxt B; skip n B }"

lemma push_all_repr:
  "repr B toks i \<Longrightarrow> \<exists>B'. push_all ts B = Some B' \<and> repr B' (toks @ ts) i"
proof (induction ts arbitrary: B toks)
  case Nil
  then show ?case by simp
next
  case (Cons t ts)
  obtain B1 where "push t B = Some B1" "repr B1 (toks @ [t]) i" using push_law [OF Cons.prems] by blast
  then show ?case using Cons.IH [of B1 "toks @ [t]"] by simp
qed

lemma skip_repr:
  "repr B toks i \<Longrightarrow> i + n < length toks \<Longrightarrow> \<exists>B'. skip n B = Some B' \<and> repr B' toks (i + n)"
proof (induction n arbitrary: B i)
  case 0
  then show ?case by simp
next
  case (Suc n)
  obtain B1 where "nxt B = Some B1" "repr B1 toks (Suc i)" using nxt_law [of B toks i] Suc.prems by auto
  then show ?case using Suc.IH [of B1 "Suc i"] Suc.prems by simp
qed

lemma fill_skip_read:
  assumes "repr B [] 0" "n < length ts"
  shows "do { B \<leftarrow> push_all ts B; B \<leftarrow> skip n B; cur B } = Some (ts ! n)"
proof -
  obtain B1 where B1: "push_all ts B = Some B1" "repr B1 ts 0"
    using push_all_repr [OF assms(1), of ts] by auto
  obtain B2 where B2: "skip n B1 = Some B2" "repr B2 ts n"
    using skip_repr [OF B1(2), of n] assms(2) by auto
  have "cur B2 = Some (ts ! n)" using cur_law [OF B2(2)] assms(2) by fastforce
  then show ?thesis using B1(1) B2(1) by simp
qed

lemma look_back:
  assumes "repr B toks i" "Suc i < length toks"
  shows "do { B \<leftarrow> nxt B; B \<leftarrow> prv B; cur B } = cur B"
proof -
  obtain B1 where B1: "nxt B = Some B1" "repr B1 toks (Suc i)" using nxt_law [OF assms] by blast
  obtain B2 where B2: "prv B1 = Some B2" "repr B2 toks i" using prv_law [OF B1(2) assms(2)] by blast
  have "toks \<noteq> []" using assms(2) by auto
  then show ?thesis using B1(1) B2 cur_law [OF B2(2)] cur_law [OF assms(1)] by simp
qed

end

text \<open>A push by an allocator with memory left.\<close>

definition tb_add :: "token \<Rightarrow> token_buffer \<Rightarrow> token_buffer c" where
  "tb_add t B = map_option (fst \<circ> snd) (tb_push t B None)"

interpretation tb: token_stream tb_repr tb_add tb_get_token tb_next tb_prev
proof
  fix B toks i t
  show "\<exists>B'. tb_add t B = Some B' \<and> tb_repr B' (toks @ [t]) i" if "tb_repr B toks i"
    using tb_push_repr [OF that, of t] by (auto simp: tb_add_def)
  show "tb_get_token B = Some (toks ! i)" if "tb_repr B toks i" "toks \<noteq> []"
    using tb_get_token_repr [OF that(1)] that(2) by simp
  show "\<exists>B'. tb_next B = Some B' \<and> tb_repr B' toks (Suc i)" if "tb_repr B toks i" "Suc i < length toks"
    using tb_next_repr [OF that(1)] that(2) by force
  show "\<exists>B'. tb_prev B = Some B' \<and> tb_repr B' toks i" if "tb_repr B toks (Suc i)" "Suc i < length toks"
    using tb_prev_repr [OF that(1)] that(2) by force
qed

end
