(* ===== verification/Samples.thy ===== *)
theory Samples
  imports Codegen_Output Token_Buffer
begin

text \<open>
  The concrete tables, heaps and tokens on which the properties of the root theory are
  instantiated: the empty table of \<open>symtable_init\<close>, the table after the insertion of the
  name \<open>a\<close>, which the hash functions put into slot 9, and the same with the item turned
  into a function.
\<close>

section \<open>Tables\<close>

definition fresh_heap :: symheap where
  "fresh_heap = symheap_init None"

definition fresh_table :: symtab where
  "fresh_table = \<lparr>st_items = replicate 11 None, st_count = 0, st_size = 11, st_deactivated = 0\<rparr>"

definition one_heap :: symheap where
  "one_heap = after_insert ''a'' fresh_heap"

definition one_table :: symtab where
  "one_table = \<lparr>st_items = (replicate 11 None)[9 := Some 0], st_count = 1, st_size = 11, st_deactivated = 0\<rparr>"

lemma fresh_init: "symtable_init fresh_heap = Some (fresh_table, fresh_heap, SYMTAB_OK)"
  by (simp add: symtable_init_def fresh_heap_def fresh_table_def symheap_init_def alloc_def)

lemma fresh_wf:
  "st_wf fresh_heap fresh_table" "names fresh_heap (st_items fresh_table) = {}" "heap_wf fresh_heap"
  "sh_budget fresh_heap = None"
proof -
  have b: "sh_budget fresh_heap = None" by (simp add: fresh_heap_def symheap_init_def)
  obtain T where "symtable_init fresh_heap = Some (T, fresh_heap, SYMTAB_OK)" "st_wf fresh_heap T"
    "names fresh_heap (st_items T) = {}" by (rule init_wf [OF b])
  then show "st_wf fresh_heap fresh_table" "names fresh_heap (st_items fresh_table) = {}"
    by (simp_all add: fresh_init)
  show "heap_wf fresh_heap" "sh_budget fresh_heap = None"
    by (simp_all add: heap_wf_def fresh_heap_def symheap_init_def)
qed

lemma fresh_ends: "probe_ends fresh_heap (st_items fresh_table) key"
proof -
  have "home key 11 < 11" by (simp add: home_def)
  then have "st_items fresh_table ! path key (length (st_items fresh_table)) 0 = None"
    by (simp add: fresh_table_def path_0 nth_replicate del: replicate_Suc)
  then show ?thesis unfolding probe_ends_def by blast
qed

lemma fresh_room: "st_count fresh_table < 16398"
  by (simp add: fresh_table_def)

lemma fresh_id: "sh_fresh fresh_heap = 0" "sh_unique_id fresh_heap = 0"
  by (simp_all add: fresh_heap_def symheap_init_def)

lemma one_insert: "symtable_insert (Some fresh_table) ''a'' fresh_heap = Some (Some one_table, one_heap, SYMTAB_OK)"
proof -
  have "sh_budget fresh_heap = None" "sh_fresh fresh_heap = 0"
    by (simp_all add: fresh_heap_def symheap_init_def)
  then show ?thesis
    using insert_home [of fresh_table "''a''" fresh_heap]
    by (simp add: fresh_table_def one_table_def one_heap_def letters_home del: replicate_Suc)
qed

lemma one_wf:
  "st_wf one_heap one_table" "entry one_heap (st_items one_table) ''a'' 0" "heap_wf one_heap"
  "sh_budget one_heap = None" "names one_heap (st_items one_table) \<subseteq> {''a''}"
proof -
  have new: "''a'' \<notin> names fresh_heap (st_items fresh_table)" by (simp add: fresh_wf)
  from insert_new [OF fresh_wf(1,3,4) new fresh_ends fresh_room] one_insert
  show "st_wf one_heap one_table" "entry one_heap (st_items one_table) ''a'' 0"
    "names one_heap (st_items one_table) \<subseteq> {''a''}"
    using fresh_wf(2) by (auto simp: one_heap_def fresh_id)
  show "heap_wf one_heap" "sh_budget one_heap = None"
    using heap_wf_after_insert [OF fresh_wf(3)] fresh_wf(4) by (simp_all add: one_heap_def)
qed

lemma one_item: "sh_items one_heap 0 = Some (new_item ''a'' 0)"
  by (simp add: one_heap_def fresh_heap_def symheap_init_def)

lemma one_free: "st_items one_table ! path ''a'' (st_size one_table) 2 = None"
proof -
  have "stride ''a'' 11 = 1" by (simp add: stride_def schar_def)
  then have "path ''a'' 11 2 = 10" by (simp add: path_def letters_home numeral_2_eq_2)
  then show ?thesis by (simp add: one_table_def)
qed

lemma one_search: "symtable_search (Some one_table) ''a'' one_heap = Some (Some 0, SYMTAB_OK)"
  using entry_search [OF _ _ one_wf(2)] one_wf(1) by (simp add: st_wf_def)

text \<open>The empty table beside the other one, on the heap of that one.\<close>

lemma fresh_below:
  "st_wf one_heap fresh_table" "names one_heap (st_items fresh_table) = {}"
  "probe_ends one_heap (st_items fresh_table) key" "\<not> entry one_heap (st_items fresh_table) key a"
proof -
  obtain T where "symtable_init one_heap = Some (T, one_heap, SYMTAB_OK)" "st_wf one_heap T"
    "names one_heap (st_items T) = {}" by (rule init_wf [OF one_wf(4)])
  moreover have "symtable_init one_heap = Some (fresh_table, one_heap, SYMTAB_OK)"
    by (simp add: symtable_init_def alloc_None [OF one_wf(4)] fresh_table_def)
  ultimately show "st_wf one_heap fresh_table" "names one_heap (st_items fresh_table) = {}" by simp_all
  then show "\<not> entry one_heap (st_items fresh_table) key a" by (auto simp: entry_def names_alt)
  have "fresh_table = \<lparr>st_items = replicate 11 None, st_count = 0, st_size = 11, st_deactivated = 0\<rparr>"
    by (rule fresh_table_def)
  then show "probe_ends one_heap (st_items fresh_table) key"
    using fresh_ends [of key] by (auto simp: probe_ends_def fresh_wf(2))
qed

text \<open>Two names in that table.\<close>

definition two_table :: symtab where
  "two_table = \<lparr>st_items = (replicate 11 None)[9 := Some 1, 10 := Some 2], st_count = 2, st_size = 11, st_deactivated = 0\<rparr>"

definition two_heap :: symheap where
  "two_heap = after_insert ''b'' (after_insert ''a'' one_heap)"

lemma two_insert: "insert_all [''a'', ''b''] fresh_table one_heap = Some (two_table, two_heap)"
proof -
  have f: "sh_budget one_heap = None" "sh_fresh one_heap = 1"
    by (simp_all add: one_heap_def fresh_heap_def symheap_init_def)
  let ?T = "\<lparr>st_items = (replicate 11 None)[9 := Some 1], st_count = 1, st_size = 11, st_deactivated = 0\<rparr>"
  have "symtable_insert (Some fresh_table) ''a'' one_heap = Some (Some ?T, after_insert ''a'' one_heap, SYMTAB_OK)"
    using insert_home [of fresh_table "''a''" one_heap] f by (simp add: fresh_table_def letters_home del: replicate_Suc)
  moreover have "symtable_insert (Some ?T) ''b'' (after_insert ''a'' one_heap) = Some (Some two_table, two_heap, SYMTAB_OK)"
    using insert_home [of ?T "''b''" "after_insert ''a'' one_heap"] f
    by (simp add: two_table_def two_heap_def letters_home numeral_2_eq_2 del: replicate_Suc)
  ultimately show ?thesis by simp
qed

lemma two_items: "sh_items two_heap \<noteq> sh_items one_heap"
proof -
  have "sh_items two_heap 2 \<noteq> None" "sh_items one_heap 2 = None"
    by (simp_all add: two_heap_def one_heap_def fresh_heap_def symheap_init_def)
  then show ?thesis by metis
qed

text \<open>The name \<open>a\<close> as an initialised variable.\<close>

definition set_heap :: symheap where
  "set_heap = upd_item 0 (\<lambda>it. it\<lparr>it_is_var_initialized := True\<rparr>) one_heap"

lemma set_wf:
  "table_inv set_heap one_table" "table_inv set_heap fresh_table" "no_value set_heap key fresh_table"
  "entry set_heap (st_items one_table) ''a'' 0"
  "sh_items set_heap 0 = Some ((new_item ''a'' 0)\<lparr>it_is_var_initialized := True\<rparr>)"
proof -
  have k: "keeps_identity (\<lambda>it. it\<lparr>it_is_var_initialized := True\<rparr>)" by (simp add: keeps_identity_def)
  note w = st_wf_upd [OF one_item k] entry_upd [OF one_item k]
  have hp: "heap_wf set_heap" "sh_budget set_heap = None"
    using one_wf(3,4) by (auto simp: set_heap_def upd_item_def heap_wf_def one_item)
  show "table_inv set_heap one_table" "table_inv set_heap fresh_table" "entry set_heap (st_items one_table) ''a'' 0"
    using w one_wf(1,2) fresh_below(1) hp by (simp_all add: table_inv_def set_heap_def)
  show "no_value set_heap key fresh_table"
    using fresh_below(2,4) fresh_ends [of key] w by (auto simp: no_value_def set_heap_def probe_ends_def fresh_wf(2))
  show "sh_items set_heap 0 = Some ((new_item ''a'' 0)\<lparr>it_is_var_initialized := True\<rparr>)"
    by (simp add: set_heap_def upd_item_def one_item)
qed

text \<open>The name \<open>a\<close> declared as a function.\<close>

definition fun_heap :: symheap where
  "fun_heap = upd_item 0 (\<lambda>it. it\<lparr>it_type := T_function\<rparr>) one_heap"

lemma fun_wf:
  "st_wf fun_heap one_table" "entry fun_heap (st_items one_table) ''a'' 0" "sh_budget fun_heap = None"
  "sh_items fun_heap 0 = Some ((new_item ''a'' 0)\<lparr>it_type := T_function\<rparr>)"
proof -
  have k: "keeps_identity (\<lambda>it. it\<lparr>it_type := T_function\<rparr>)" by (simp add: keeps_identity_def)
  show "st_wf fun_heap one_table" "entry fun_heap (st_items one_table) ''a'' 0"
    using one_wf st_wf_upd [OF one_item k] entry_upd [OF one_item k] by (simp_all add: fun_heap_def)
  show "sh_budget fun_heap = None" "sh_items fun_heap 0 = Some ((new_item ''a'' 0)\<lparr>it_type := T_function\<rparr>)"
    using one_wf(4) by (simp_all add: fun_heap_def upd_item_def one_item)
qed

section \<open>Tokens\<close>

definition int_token :: "32 word \<Rightarrow> token" where
  "int_token w = \<lparr>preceding_eol = False, tok_type = TOKEN_INT, tok_value = V_int w\<rparr>"

definition name_token :: "string \<Rightarrow> token" where
  "name_token s = \<lparr>preceding_eol = False, tok_type = TOKEN_IDENTIFIER, tok_value = V_string s\<rparr>"

definition text_token :: "string \<Rightarrow> token" where
  "text_token s = \<lparr>preceding_eol = False, tok_type = TOKEN_STRING, tok_value = V_string s\<rparr>"

lemma sample_tokens:
  "string_token_ok (name_token s)" "string_token_ok (int_token w)" "string_token_ok (text_token s)"
  "owned_string (name_token s) = [s]" "owned_string (int_token w) = []" "owned_string (text_token s) = [s]"
  by (simp_all add: string_token_ok_def owned_string_def name_token_def int_token_def text_token_def)

section \<open>The generator\<close>

text \<open>The generator with an empty buffer and nothing printed.\<close>

definition ready_codegen :: codegen where
  "ready_codegen = (codegen_init None)\<lparr>print_buffer := \<lparr>ds_str = Some NUL # replicate 7 None, ds_length = 0, ds_alloc_size = 8\<rparr>\<rparr>"

definition sample_env :: cg_env where
  "sample_env = code_generator_set_current_symtable (Some fresh_table) (Some []) fresh_heap"

lemma ready_wf: "cg_wf ready_codegen" "for_open ready_codegen = 0" "func_param_id ready_codegen = 0"
  by (simp_all add: ready_codegen_def codegen_init_def cg_wf_def ds_wf_def ds_abs_def)

end
