(* ===== verification/Lexer.thy ===== *)
theory Lexer
  imports Token Dyn_String
begin

text \<open>
  The lexical analyser of \<open>src/lexical_analyzer.c\<close>: its global variables as a record, one
  definition per state function of the automaton, the indentation handling of multi-line
  strings, and \<open>get_token\<close> with its reading loop. Standard input is the list of the bytes
  that are still to be read.
\<close>

section \<open>State\<close>

text \<open>
  The functions the pointer \<open>actual_state\<close> may point to. \<open>ERROR_PRINT\<close> and
  \<open>DEBUG_PRINT\<close> are compiled out unless the program is built for debugging.
\<close>

datatype (plugins only: code size) lstate =
    S_start | S_und_scr | S_comma | S_lt | S_leq | S_gt | S_geq | S_not_nil | S_neq | S_qm
  | S_nil_check | S_ass | S_eq | S_col | S_semicol | S_r_bkt | S_l_bkt | S_r_par | S_l_par
  | S_add | S_sub | S_ret_val | S_mul | S_div
  | S_identifier | S_data_type
  | S_line_c | S_block_c | S_block_c_end_q | S_block_c_start_q
  | S_int | S_dbl_s | S_dbl | S_exp_s | S_exp_sign | S_exp
  | S_string_start | S_empty_string | S_eol_start_q | S_m_string_inner | S_m_string_escape
  | S_m_string_hexa_q | S_m_string_hexa | S_eol_end_q | S_m_string_end1 | S_m_string_end2
  | S_string_end | S_string_inner | S_string_escape | S_string_hexa_q | S_string_hexa

record lexer =
  actual_state :: "lstate option"
  is_final :: bool
  set_eol :: bool
  unread :: char
  actual_token :: token
  actual_line :: "32 word"
  actual_column :: "32 word"
  open_comments :: int
  hexa_string :: int
  malloc_error :: bool
  read_string :: dstring
  tmp_string :: dstring
  lex_budget :: budget
  stdin :: string

definition no_token :: token where
  "no_token = \<lparr>preceding_eol = False, tok_type = TOKEN_UNDEFINED, tok_value = V_unset\<rparr>"

definition no_dstring :: dstring where
  "no_dstring = \<lparr>ds_str = [], ds_length = 0, ds_alloc_size = 0\<rparr>"

text \<open>The initial values of the globals, for an input and an allocation budget.\<close>

definition lexer_init :: "budget \<Rightarrow> string \<Rightarrow> lexer" where
  "lexer_init m inp =
     \<lparr>actual_state = None, is_final = False, set_eol = False, unread = NUL,
      actual_token = no_token, actual_line = 1, actual_column = 0, open_comments = 0,
      hexa_string = 0, malloc_error = False, read_string = no_dstring, tmp_string = no_dstring,
      lex_budget = m, stdin = inp\<rparr>"

section \<open>Character classes\<close>

definition is_whitespace :: "char \<Rightarrow> bool" where
  "is_whitespace ch \<longleftrightarrow> ch = CHR '' '' \<or> ch = CHR 0x09 \<or> ch = CHR 0x0B \<or> ch = CHR 0x0C \<or> ch = CHR 0x0D"

definition is_number :: "char \<Rightarrow> bool" where
  "is_number ch \<longleftrightarrow> schar CHR ''0'' \<le> schar ch \<and> schar ch \<le> schar CHR ''9''"

definition is_alfa :: "char \<Rightarrow> bool" where
  "is_alfa ch \<longleftrightarrow> (schar CHR ''a'' \<le> schar ch \<and> schar ch \<le> schar CHR ''z'') \<or>
     (schar CHR ''A'' \<le> schar ch \<and> schar ch \<le> schar CHR ''Z'')"

definition is_alfa_num :: "char \<Rightarrow> bool" where
  "is_alfa_num ch \<longleftrightarrow> is_alfa ch \<or> is_number ch"

definition is_last :: "lexer \<Rightarrow> bool" where
  "is_last L \<longleftrightarrow> open_comments L = 0"

definition is_hexa :: "char \<Rightarrow> bool" where
  "is_hexa ch \<longleftrightarrow> (schar CHR ''a'' \<le> schar ch \<and> schar ch \<le> schar CHR ''f'') \<or>
     (schar CHR ''A'' \<le> schar ch \<and> schar ch \<le> schar CHR ''F'') \<or> is_number ch"

definition is_in_string_sigma :: "char \<Rightarrow> bool" where
  "is_in_string_sigma ch \<longleftrightarrow> schar ch > 31 \<and> ch \<noteq> CHR 0x22"

section \<open>Hexadecimal escapes\<close>

definition c_tolower :: "char \<Rightarrow> char" where
  "c_tolower ch = (if schar CHR ''A'' \<le> schar ch \<and> schar ch \<le> schar CHR ''Z''
                   then char_of (of_char ch + (32::nat)) else ch)"

text \<open>The loop shifts an 8-bit \<open>char\<close> and ors the value of one digit into it.\<close>

fun hexa_loop :: "block \<Rightarrow> nat list \<Rightarrow> 8 word \<Rightarrow> 8 word c" where
  "hexa_loop s [] tmp = Some tmp"
| "hexa_loop s (i # js) tmp = do {
     ch \<leftarrow> load s i;
     let hexa_num = c_tolower ch;
     let digit = (if is_number hexa_num then schar hexa_num - schar CHR ''0''
                  else schar hexa_num - schar CHR ''a'' + 10);
     hexa_loop s js (or (push_bit 4 tmp) (word_of_int digit))
   }"

definition hexa_to_dec :: "dstring \<Rightarrow> char c" where
  "hexa_to_dec hexa = do {
     let start = (if ds_length hexa > 1 then ds_length hexa - 2 else 0);
     w \<leftarrow> hexa_loop (dstring_to_str hexa) [start..<ds_length hexa] 0;
     Some (char_of (unat w))
   }"

section \<open>Indentation of multi-line strings\<close>

datatype indentation_status = indentation_ok | indentation_fail | indentation_memory_fail

text \<open>
  The first loop collects the bytes before the closing quotes back to the last newline (so
  the indentation is reversed); \<open>i\<close> counts down as in \<open>i-- > 0\<close>.
\<close>

fun indent_collect :: "block \<Rightarrow> nat \<Rightarrow> dstring \<Rightarrow> budget \<Rightarrow> (bool \<times> dstring \<times> budget) c" where
  "indent_collect s 0 indent m = Some (True, indent, m)"
| "indent_collect s (Suc i) indent m = do {
     ch \<leftarrow> load s i;
     if ch = NL then Some (True, indent, m)
     else do {
       (ok, indent, m) \<leftarrow> dstring_append indent ch m;
       if \<not> ok then Some (False, indent, m) else indent_collect s i indent m
     }
   }"

text \<open>The number of bytes the second loop copies.\<close>

definition indent_for_iter :: "dstring \<Rightarrow> dstring \<Rightarrow> nat c" where
  "indent_for_iter rs indent =
     (if ds_length rs \<ge> ds_length indent + 4 then do {
        let for_iter = ds_length rs - ds_length indent - 4;
        if for_iter = 0 then do {
          c0 \<leftarrow> load (ds_str rs) 0;
          Some (if c0 = NL then for_iter + 1 else for_iter)
        } else do {
          cl \<leftarrow> load (ds_str rs) (for_iter - 1);
          Some (if cl = NL then for_iter + 1 else for_iter)
        }
      } else Some 0)"

text \<open>The second loop copies the text without the indentation, checking every line's.\<close>

fun indent_copy :: "block \<Rightarrow> nat list \<Rightarrow> nat \<Rightarrow> dstring \<Rightarrow> dstring \<Rightarrow> budget \<Rightarrow>
    (indentation_status \<times> dstring \<times> budget) c" where
  "indent_copy s [] indent_position indent result m = Some (indentation_ok, result, m)"
| "indent_copy s (i # js) indent_position indent result m = do {
     ch \<leftarrow> load s i;
     if ch = NL then
       if indent_position < ds_length indent \<and> indent_position \<noteq> 0
       then Some (indentation_fail, result, m)
       else do {
         (ok, result, m) \<leftarrow> dstring_append result ch m;
         if \<not> ok then Some (indentation_memory_fail, result, m)
         else indent_copy s js 0 indent result m
       }
     else if indent_position < ds_length indent then do {
       d \<leftarrow> load (ds_str indent) (ds_length indent - indent_position - 1);
       if ch \<noteq> d then Some (indentation_fail, result, m)
       else indent_copy s js (indent_position + 1) indent result m
     } else do {
       (ok, result, m) \<leftarrow> dstring_append result ch m;
       if \<not> ok then Some (indentation_memory_fail, result, m)
       else indent_copy s js (indent_position + 1) indent result m
     }
   }"

text \<open>Every exit frees both strings, also the one whose \<open>realloc\<close> just failed.\<close>

definition indentation_perform ::
  "dstring \<Rightarrow> budget \<Rightarrow> (indentation_status \<times> dstring \<times> budget) c" where
  "indentation_perform rs m = do {
     (ok, indent, m) \<leftarrow> dstring_init no_dstring m;
     if \<not> ok then Some (indentation_memory_fail, rs, m) else do {
     (ok, result, m) \<leftarrow> dstring_init no_dstring m;
     if \<not> ok then do {
       _ \<leftarrow> dstring_free indent;
       Some (indentation_memory_fail, rs, m)
     } else do {
     (ok, indent, m) \<leftarrow> indent_collect (ds_str rs) (to_size_t (int (ds_length rs) - 3)) indent m;
     if \<not> ok then do {
       _ \<leftarrow> dstring_free indent;
       _ \<leftarrow> dstring_free result;
       Some (indentation_memory_fail, rs, m)
     } else do {
     for_iter \<leftarrow> indent_for_iter rs indent;
     (status, result, m) \<leftarrow> indent_copy (ds_str rs) [0..<for_iter] 0 indent result m;
     if status \<noteq> indentation_ok then do {
       _ \<leftarrow> dstring_free indent;
       _ \<leftarrow> dstring_free result;
       Some (status, rs, m)
     } else do {
     rs \<leftarrow> dstring_clear rs;
     (ok, rs, m) \<leftarrow> dstring_copy result rs m;
     _ \<leftarrow> dstring_free indent;
     _ \<leftarrow> dstring_free result;
     Some (if ok then indentation_ok else indentation_memory_fail, rs, m)
     }}}}
   }"

section \<open>Steps shared by the state functions\<close>

text \<open>\<open>NEXT_STATE(X)\<close>, \<open>UNREAD(X)\<close>, and the append that sets \<open>malloc_error\<close> on failure.\<close>

definition next_state :: "lstate option \<Rightarrow> lexer \<Rightarrow> lexer" where
  "next_state S L = L\<lparr>actual_state := S\<rparr>"

abbreviation goto :: "lstate \<Rightarrow> lexer \<Rightarrow> lexer c" where
  "goto S L \<equiv> Some (next_state (Some S) L)"

abbreviation stop :: "lexer \<Rightarrow> lexer c" where
  "stop L \<equiv> Some (next_state None L)"

definition append_read :: "char \<Rightarrow> lexer \<Rightarrow> (bool \<times> lexer) c" where
  "append_read ch L = do {
     (ok, d, m) \<leftarrow> dstring_append (read_string L) ch (lex_budget L);
     let L = L\<lparr>read_string := d, lex_budget := m\<rparr>;
     Some (ok, if ok then L else L\<lparr>malloc_error := True\<rparr>)
   }"

definition append_tmp :: "char \<Rightarrow> lexer \<Rightarrow> (bool \<times> lexer) c" where
  "append_tmp ch L = do {
     (ok, d, m) \<leftarrow> dstring_append (tmp_string L) ch (lex_budget L);
     let L = L\<lparr>tmp_string := d, lex_budget := m\<rparr>;
     Some (ok, if ok then L else L\<lparr>malloc_error := True\<rparr>)
   }"

text \<open>Run the rest of a state function only when the append succeeded.\<close>

definition when_ok :: "(bool \<times> lexer) c \<Rightarrow> (lexer \<Rightarrow> lexer c) \<Rightarrow> lexer c" where
  "when_ok r f = do { (ok, L) \<leftarrow> r; if ok then f L else Some L }"

text \<open>
  The block most states end with: \<open>is_final = true\<close>, the end-of-line flag moved into the
  token, and the token's type.
\<close>

definition mark_final :: "token_type \<Rightarrow> lexer \<Rightarrow> lexer" where
  "mark_final ty L = L\<lparr>is_final := True,
     actual_token := (actual_token L)\<lparr>preceding_eol := set_eol L, tok_type := ty\<rparr>,
     set_eol := False\<rparr>"

definition set_value :: "token_value \<Rightarrow> lexer \<Rightarrow> lexer" where
  "set_value v L = L\<lparr>actual_token := (actual_token L)\<lparr>tok_value := v\<rparr>\<rparr>"

definition unread_char :: "char \<Rightarrow> lexer \<Rightarrow> lexer" where
  "unread_char ch L = L\<lparr>unread := ch\<rparr>"

definition accept :: "token_type \<Rightarrow> char \<Rightarrow> lexer \<Rightarrow> lexer c" where
  "accept ty read L = stop (unread_char read (mark_final ty L))"

section \<open>Operators and punctuation\<close>

definition lex_eof :: "char \<Rightarrow> lexer \<Rightarrow> lexer c" where
  "lex_eof read L = stop (mark_final TOKEN_EOF L)"

definition lex_start :: "char \<Rightarrow> lexer \<Rightarrow> lexer c" where
  "lex_start read L =
     (if is_whitespace read then goto S_start L
      else if is_number read then when_ok (append_read read L) (goto S_int)
      else if read = NL then goto S_start (L\<lparr>set_eol := True\<rparr>)
      else do {
        L \<leftarrow> (if read = EOF then lex_eof read L else Some L);
        if read = CHR ''_'' then when_ok (append_read read L) (goto S_und_scr)
        else if read = CHR '','' then goto S_comma L
        else if read = CHR ''<'' then goto S_lt L
        else if read = CHR ''>'' then goto S_gt L
        else if read = CHR ''!'' then goto S_not_nil L
        else if read = CHR ''?'' then goto S_qm L
        else if read = CHR ''='' then goto S_ass L
        else if read = CHR '':'' then goto S_col L
        else if read = CHR '';'' then goto S_semicol L
        else if read = CHR ''}'' then goto S_r_bkt L
        else if read = CHR ''{'' then goto S_l_bkt L
        else if read = CHR '')'' then goto S_r_par L
        else if read = CHR ''('' then goto S_l_par L
        else if read = CHR ''+'' then goto S_add L
        else if read = CHR ''-'' then goto S_sub L
        else if read = CHR ''*'' then goto S_mul L
        else if read = CHR ''/'' then goto S_div L
        else if is_alfa read then when_ok (append_read read L) (goto S_identifier)
        else if read = CHR 0x22 then goto S_string_start L
        else stop L
      })"

definition lex_und_scr :: "char \<Rightarrow> lexer \<Rightarrow> lexer c" where
  "lex_und_scr read L = when_ok (append_read read L) (\<lambda>L.
     if is_alfa_num read then goto S_identifier L
     else accept TOKEN_UND_SCR read L)"

definition lex_comma :: "char \<Rightarrow> lexer \<Rightarrow> lexer c" where
  "lex_comma read L = accept TOKEN_COMMA read L"

definition lex_lt :: "char \<Rightarrow> lexer \<Rightarrow> lexer c" where
  "lex_lt read L = (if read = CHR ''='' then goto S_leq L else accept TOKEN_LT read L)"

definition lex_leq :: "char \<Rightarrow> lexer \<Rightarrow> lexer c" where
  "lex_leq read L = accept TOKEN_LEQ read L"

definition lex_gt :: "char \<Rightarrow> lexer \<Rightarrow> lexer c" where
  "lex_gt read L = (if read = CHR ''='' then goto S_geq L else accept TOKEN_GT read L)"

definition lex_geq :: "char \<Rightarrow> lexer \<Rightarrow> lexer c" where
  "lex_geq read L = accept TOKEN_GEQ read L"

definition lex_not_nil :: "char \<Rightarrow> lexer \<Rightarrow> lexer c" where
  "lex_not_nil read L = (if read = CHR ''='' then goto S_neq L else accept TOKEN_NOT_NIL read L)"

definition lex_neq :: "char \<Rightarrow> lexer \<Rightarrow> lexer c" where
  "lex_neq read L = accept TOKEN_NEQ read L"

definition lex_qm :: "char \<Rightarrow> lexer \<Rightarrow> lexer c" where
  "lex_qm read L = (if read = CHR ''?'' then goto S_nil_check L else stop L)"

definition lex_nil_check :: "char \<Rightarrow> lexer \<Rightarrow> lexer c" where
  "lex_nil_check read L = accept TOKEN_NIL_CHECK read L"

definition lex_ass :: "char \<Rightarrow> lexer \<Rightarrow> lexer c" where
  "lex_ass read L = (if read = CHR ''='' then goto S_eq L else accept TOKEN_ASS read L)"

definition lex_eq :: "char \<Rightarrow> lexer \<Rightarrow> lexer c" where
  "lex_eq read L = accept TOKEN_EQ read L"

definition lex_col :: "char \<Rightarrow> lexer \<Rightarrow> lexer c" where
  "lex_col read L = accept TOKEN_COL read L"

definition lex_semicol :: "char \<Rightarrow> lexer \<Rightarrow> lexer c" where
  "lex_semicol read L = accept TOKEN_SEMICOL read L"

definition lex_r_bkt :: "char \<Rightarrow> lexer \<Rightarrow> lexer c" where
  "lex_r_bkt read L = accept TOKEN_R_BKT read L"

definition lex_l_bkt :: "char \<Rightarrow> lexer \<Rightarrow> lexer c" where
  "lex_l_bkt read L = accept TOKEN_L_BKT read L"

definition lex_r_par :: "char \<Rightarrow> lexer \<Rightarrow> lexer c" where
  "lex_r_par read L = accept TOKEN_R_PAR read L"

definition lex_l_par :: "char \<Rightarrow> lexer \<Rightarrow> lexer c" where
  "lex_l_par read L = accept TOKEN_L_PAR read L"

definition lex_add :: "char \<Rightarrow> lexer \<Rightarrow> lexer c" where
  "lex_add read L = accept TOKEN_ADD read L"

definition lex_sub :: "char \<Rightarrow> lexer \<Rightarrow> lexer c" where
  "lex_sub read L = (if read = CHR ''>'' then goto S_ret_val L else accept TOKEN_SUB read L)"

definition lex_ret_val :: "char \<Rightarrow> lexer \<Rightarrow> lexer c" where
  "lex_ret_val read L = accept TOKEN_RET_VAL read L"

definition lex_mul :: "char \<Rightarrow> lexer \<Rightarrow> lexer c" where
  "lex_mul read L = accept TOKEN_MUL read L"

definition lex_div :: "char \<Rightarrow> lexer \<Rightarrow> lexer c" where
  "lex_div read L =
     (if read = CHR ''/'' then goto S_line_c L
      else if read = CHR ''*'' then goto S_block_c (L\<lparr>open_comments := open_comments L + 1\<rparr>)
      else accept TOKEN_DIV read L)"

section \<open>Comments\<close>

text \<open>At end of file \<open>eof\<close> runs and the function goes on to \<open>NEXT_STATE(line_c)\<close>.\<close>

definition lex_line_c :: "char \<Rightarrow> lexer \<Rightarrow> lexer c" where
  "lex_line_c read L = do {
     L \<leftarrow> (if read = EOF then lex_eof read L else Some L);
     if read \<noteq> NL then goto S_line_c (L\<lparr>set_eol := True\<rparr>)
     else goto S_start L
   }"

definition lex_block_c :: "char \<Rightarrow> lexer \<Rightarrow> lexer c" where
  "lex_block_c read L =
     (if read = CHR ''*'' then goto S_block_c_end_q L
      else if read = CHR ''/'' then goto S_block_c_start_q L
      else if read \<noteq> CHR ''*'' then goto S_block_c L
      else stop L)"

definition lex_block_c_end_q :: "char \<Rightarrow> lexer \<Rightarrow> lexer c" where
  "lex_block_c_end_q read L =
     (if read = CHR ''/'' then
        (let L = L\<lparr>open_comments := open_comments L - 1\<rparr>
         in if is_last L then goto S_start L else goto S_block_c L)
      else goto S_block_c L)"

definition lex_block_c_start_q :: "char \<Rightarrow> lexer \<Rightarrow> lexer c" where
  "lex_block_c_start_q read L =
     (let L = (if read = CHR ''*'' then L\<lparr>open_comments := open_comments L + 1\<rparr> else L)
      in goto S_block_c L)"

section \<open>Identifiers, keywords and data types\<close>

text \<open>The first loop: every keyword that equals the text sets the token's type.\<close>

fun keyword_loop :: "(string \<times> token_type) list \<Rightarrow> dstring \<Rightarrow> token_type \<Rightarrow> token_type c" where
  "keyword_loop [] d ty = Some ty"
| "keyword_loop ((k, kt) # ks) d ty = do {
     r \<leftarrow> dstring_cmp_const_str d k;
     keyword_loop ks d (if r = 0 then kt else ty)
   }"

text \<open>The second loop: the first data type that equals the text.\<close>

fun data_type_loop :: "(string \<times> token_type) list \<Rightarrow> dstring \<Rightarrow> token_type option c" where
  "data_type_loop [] d = Some None"
| "data_type_loop ((k, kt) # ks) d = do {
     r \<leftarrow> dstring_cmp_const_str d k;
     if r = 0 then Some (Some kt) else data_type_loop ks d
   }"

definition lex_identifier :: "char \<Rightarrow> lexer \<Rightarrow> lexer c" where
  "lex_identifier read L = when_ok (append_read read L) (\<lambda>L.
     if is_alfa_num read \<or> read = CHR ''_'' then goto S_identifier L
     else do {
       let L = L\<lparr>is_final := True,
                 actual_token := (actual_token L)\<lparr>tok_type := TOKEN_IDENTIFIER\<rparr>\<rparr>;
       let L = unread_char read L;
       d \<leftarrow> dstring_retract (read_string L) 1;
       s \<leftarrow> c_string (ds_str d);
       let L = set_value (V_string s) (L\<lparr>read_string := d\<rparr>);
       ty \<leftarrow> keyword_loop (zip keywords_arr keywords_tokens) d (tok_type (actual_token L));
       let L = L\<lparr>actual_token := (actual_token L)\<lparr>tok_type := ty\<rparr>\<rparr>;
       dt \<leftarrow> data_type_loop (zip data_types data_types_tokens) d;
       case dt of
         Some ty \<Rightarrow> goto S_data_type (set_value (V_nilable False) (mark_final ty L))
       | None \<Rightarrow> stop (mark_final (tok_type (actual_token L)) L)
     })"

definition lex_data_type :: "char \<Rightarrow> lexer \<Rightarrow> lexer c" where
  "lex_data_type read L =
     (let L = L\<lparr>is_final := True\<rparr>
      in if read = CHR ''?'' then stop (set_value (V_nilable True) L)
         else stop (unread_char read L))"

section \<open>Numbers\<close>

definition lex_int :: "char \<Rightarrow> lexer \<Rightarrow> lexer c" where
  "lex_int read L = when_ok (append_read read L) (\<lambda>L.
     if is_number read then goto S_int L
     else if read = CHR ''.'' then goto S_dbl_s L
     else if read = CHR ''e'' \<or> read = CHR ''E'' then goto S_exp_s L
     else do {
       s \<leftarrow> c_string (dstring_to_str (read_string L));
       stop (unread_char read (set_value (V_int (atoi s)) (mark_final TOKEN_INT L)))
     })"

definition lex_dbl_s :: "char \<Rightarrow> lexer \<Rightarrow> lexer c" where
  "lex_dbl_s read L = when_ok (append_read read L) (\<lambda>L.
     if is_number read then goto S_dbl L else stop L)"

definition lex_dbl :: "char \<Rightarrow> lexer \<Rightarrow> lexer c" where
  "lex_dbl read L = when_ok (append_read read L) (\<lambda>L.
     if is_number read then goto S_dbl L
     else if read = CHR ''e'' \<or> read = CHR ''E'' then goto S_exp_s L
     else do {
       s \<leftarrow> c_string (dstring_to_str (read_string L));
       stop (unread_char read (set_value (V_double (atof s)) (mark_final TOKEN_DBL L)))
     })"

definition lex_exp_s :: "char \<Rightarrow> lexer \<Rightarrow> lexer c" where
  "lex_exp_s read L = when_ok (append_read read L) (\<lambda>L.
     if read = CHR ''+'' \<or> read = CHR ''-'' then goto S_exp_sign L
     else if is_number read then goto S_exp L
     else stop L)"

definition lex_exp_sign :: "char \<Rightarrow> lexer \<Rightarrow> lexer c" where
  "lex_exp_sign read L = when_ok (append_read read L) (\<lambda>L.
     if is_number read then goto S_exp L else stop L)"

text \<open>
  The value of a literal with an exponent. \<open>strtod\<close> has read the exponent already; the code
  then steps over one more byte and multiplies by ten to the power of the number it reads
  there. The byte stepped over must exist, and \<open>pow(10, 0)\<close> is 1; any other power is
  outside the model.
\<close>

definition exp_value :: "block \<Rightarrow> c_double c" where
  "exp_value b = do {
     s \<leftarrow> c_string b;
     let (base, rest) = strtod s;
     let endptr = length s - length rest;
     e \<leftarrow> c_string (drop (endptr + 1) b);
     if dbl_is_zero (atof e) then Some base else UB
   }"

definition lex_exp :: "char \<Rightarrow> lexer \<Rightarrow> lexer c" where
  "lex_exp read L = when_ok (append_read read L) (\<lambda>L.
     if is_number read then goto S_exp L
     else do {
       v \<leftarrow> exp_value (dstring_to_str (read_string L));
       stop (unread_char read (set_value (V_double v) (mark_final TOKEN_DBL L)))
     })"

section \<open>Strings\<close>

definition lex_string_start :: "char \<Rightarrow> lexer \<Rightarrow> lexer c" where
  "lex_string_start read L =
     (if read = CHR 0x22 then goto S_empty_string L
      else if read = CHR 0x5C then goto S_string_escape L
      else when_ok (append_read read L) (\<lambda>L.
        if read \<noteq> CHR 0x5C \<and> is_in_string_sigma read then goto S_string_inner L else stop L))"

definition lex_empty_string :: "char \<Rightarrow> lexer \<Rightarrow> lexer c" where
  "lex_empty_string read L =
     (if read = CHR 0x22 then goto S_eol_start_q L
      else do {
        s \<leftarrow> c_string (ds_str (read_string L));
        stop (unread_char read (set_value (V_string s) (mark_final TOKEN_STRING L)))
      })"

definition lex_eol_start_q :: "char \<Rightarrow> lexer \<Rightarrow> lexer c" where
  "lex_eol_start_q read L = (if read = NL then goto S_eol_end_q L else stop L)"

definition lex_m_string_inner :: "char \<Rightarrow> lexer \<Rightarrow> lexer c" where
  "lex_m_string_inner read L =
     (if read = CHR 0x5C then goto S_m_string_escape L
      else when_ok (append_read read L) (\<lambda>L.
        if read = NL then goto S_eol_end_q L
        else if read \<noteq> CHR 0x5C \<and> read \<noteq> NL then goto S_m_string_inner L
        else stop L))"

definition lex_m_string_escape :: "char \<Rightarrow> lexer \<Rightarrow> lexer c" where
  "lex_m_string_escape read L =
     (if read = CHR ''n'' then when_ok (append_read NL L) (goto S_m_string_inner)
      else if read = CHR ''r'' then when_ok (append_read CHR 0x0D L) (goto S_m_string_inner)
      else if read = CHR ''t'' then when_ok (append_read CHR 0x09 L) (goto S_m_string_inner)
      else when_ok (append_read read L) (\<lambda>L.
        if read \<noteq> CHR ''u'' then goto S_m_string_inner L
        else if read = CHR ''u'' then goto S_m_string_hexa_q L
        else stop L))"

definition lex_m_string_hexa_q :: "char \<Rightarrow> lexer \<Rightarrow> lexer c" where
  "lex_m_string_hexa_q read L =
     (if read = CHR ''{'' then goto S_m_string_hexa (L\<lparr>hexa_string := 0\<rparr>)
      else when_ok (append_read read L) (\<lambda>L.
        if read \<noteq> CHR ''{'' then goto S_m_string_inner L else stop L))"

definition lex_m_string_hexa :: "char \<Rightarrow> lexer \<Rightarrow> lexer c" where
  "lex_m_string_hexa read L =
     (if read = CHR ''}'' \<and> hexa_string L > 0 then do {
        d \<leftarrow> dstring_retract (read_string L) 1;
        let L = L\<lparr>read_string := d\<rparr>;
        ch \<leftarrow> hexa_to_dec (tmp_string L);
        when_ok (append_read ch L) (\<lambda>L. do {
          t \<leftarrow> dstring_clear (tmp_string L);
          goto S_m_string_inner (L\<lparr>tmp_string := t\<rparr>)
        })
      }
      else if is_hexa read then
        when_ok (append_tmp read L) (\<lambda>L.
          let L = L\<lparr>hexa_string := hexa_string L + 1\<rparr>
          in if hexa_string L > 8 then stop L else goto S_m_string_hexa L)
      else stop L)"

definition lex_eol_end_q :: "char \<Rightarrow> lexer \<Rightarrow> lexer c" where
  "lex_eol_end_q read L =
     (if read = CHR 0x5C then goto S_m_string_escape L
      else when_ok (append_read read L) (\<lambda>L.
        if read = NL \<or> is_whitespace read then goto S_eol_end_q L
        else if read \<noteq> CHR 0x22 then goto S_m_string_inner L
        else if read = CHR 0x22 then goto S_m_string_end1 L
        else stop L))"

definition lex_m_string_end1 :: "char \<Rightarrow> lexer \<Rightarrow> lexer c" where
  "lex_m_string_end1 read L = when_ok (append_read read L) (\<lambda>L.
     if read = NL then goto S_eol_end_q L
     else if read \<noteq> CHR 0x22 then goto S_m_string_inner L
     else if read = CHR 0x22 then goto S_m_string_end2 L
     else stop L)"

definition lex_m_string_end2 :: "char \<Rightarrow> lexer \<Rightarrow> lexer c" where
  "lex_m_string_end2 read L = when_ok (append_read read L) (\<lambda>L.
     if read = NL then goto S_eol_end_q L
     else if read \<noteq> CHR 0x22 then goto S_m_string_inner L
     else if read = CHR 0x22 then do {
       (status, d, m) \<leftarrow> indentation_perform (read_string L) (lex_budget L);
       let L = L\<lparr>read_string := d, lex_budget := m\<rparr>;
       if status = indentation_memory_fail then Some (L\<lparr>malloc_error := True\<rparr>)
       else if status = indentation_fail then stop L
       else goto S_string_end L
     }
     else stop L)"

definition lex_string_end :: "char \<Rightarrow> lexer \<Rightarrow> lexer c" where
  "lex_string_end read L =
     do {
       s \<leftarrow> c_string (ds_str (read_string L));
       stop (unread_char read (set_value (V_string s) (mark_final TOKEN_STRING L)))
     }"

definition lex_string_inner :: "char \<Rightarrow> lexer \<Rightarrow> lexer c" where
  "lex_string_inner read L =
     (if read = CHR 0x5C then goto S_string_escape L
      else if read = CHR 0x22 then goto S_string_end L
      else when_ok (append_read read L) (\<lambda>L.
        if read \<noteq> CHR 0x5C \<and> is_in_string_sigma read then goto S_string_inner L else stop L))"

definition lex_string_escape :: "char \<Rightarrow> lexer \<Rightarrow> lexer c" where
  "lex_string_escape read L =
     (if read = CHR ''n'' then when_ok (append_read NL L) (goto S_string_inner)
      else if read = CHR ''r'' then when_ok (append_read CHR 0x0D L) (goto S_string_inner)
      else if read = CHR ''t'' then when_ok (append_read CHR 0x09 L) (goto S_string_inner)
      else when_ok (append_read read L) (\<lambda>L.
        if read = CHR ''u'' then goto S_string_hexa_q L
        else if (read \<noteq> CHR ''u'' \<and> is_in_string_sigma read) \<or> read = CHR 0x22
        then goto S_string_inner L
        else stop L))"

definition lex_string_hexa_q :: "char \<Rightarrow> lexer \<Rightarrow> lexer c" where
  "lex_string_hexa_q read L =
     (if read = CHR ''{'' then goto S_string_hexa (L\<lparr>hexa_string := 0\<rparr>)
      else when_ok (append_read read L) (\<lambda>L.
        if read \<noteq> CHR ''{'' \<and> is_in_string_sigma read then goto S_string_inner L else stop L))"

definition lex_string_hexa :: "char \<Rightarrow> lexer \<Rightarrow> lexer c" where
  "lex_string_hexa read L =
     (if read = CHR ''}'' \<and> hexa_string L > 0 then do {
        d \<leftarrow> dstring_retract (read_string L) 1;
        let L = L\<lparr>read_string := d\<rparr>;
        ch \<leftarrow> hexa_to_dec (tmp_string L);
        when_ok (append_read ch L) (\<lambda>L. do {
          t \<leftarrow> dstring_clear (tmp_string L);
          goto S_string_inner (L\<lparr>tmp_string := t\<rparr>)
        })
      }
      else if is_hexa read then
        when_ok (append_tmp read L) (\<lambda>L.
          let L = L\<lparr>hexa_string := hexa_string L + 1\<rparr>
          in if hexa_string L > 8 then stop L else goto S_string_hexa L)
      else stop L)"

section \<open>The automaton\<close>

text \<open>The call through the state pointer.\<close>

primrec lex_step :: "lstate \<Rightarrow> char \<Rightarrow> lexer \<Rightarrow> lexer c" where
  "lex_step S_start = lex_start"
| "lex_step S_und_scr = lex_und_scr"
| "lex_step S_comma = lex_comma"
| "lex_step S_lt = lex_lt"
| "lex_step S_leq = lex_leq"
| "lex_step S_gt = lex_gt"
| "lex_step S_geq = lex_geq"
| "lex_step S_not_nil = lex_not_nil"
| "lex_step S_neq = lex_neq"
| "lex_step S_qm = lex_qm"
| "lex_step S_nil_check = lex_nil_check"
| "lex_step S_ass = lex_ass"
| "lex_step S_eq = lex_eq"
| "lex_step S_col = lex_col"
| "lex_step S_semicol = lex_semicol"
| "lex_step S_r_bkt = lex_r_bkt"
| "lex_step S_l_bkt = lex_l_bkt"
| "lex_step S_r_par = lex_r_par"
| "lex_step S_l_par = lex_l_par"
| "lex_step S_add = lex_add"
| "lex_step S_sub = lex_sub"
| "lex_step S_ret_val = lex_ret_val"
| "lex_step S_mul = lex_mul"
| "lex_step S_div = lex_div"
| "lex_step S_identifier = lex_identifier"
| "lex_step S_data_type = lex_data_type"
| "lex_step S_line_c = lex_line_c"
| "lex_step S_block_c = lex_block_c"
| "lex_step S_block_c_end_q = lex_block_c_end_q"
| "lex_step S_block_c_start_q = lex_block_c_start_q"
| "lex_step S_int = lex_int"
| "lex_step S_dbl_s = lex_dbl_s"
| "lex_step S_dbl = lex_dbl"
| "lex_step S_exp_s = lex_exp_s"
| "lex_step S_exp_sign = lex_exp_sign"
| "lex_step S_exp = lex_exp"
| "lex_step S_string_start = lex_string_start"
| "lex_step S_empty_string = lex_empty_string"
| "lex_step S_eol_start_q = lex_eol_start_q"
| "lex_step S_m_string_inner = lex_m_string_inner"
| "lex_step S_m_string_escape = lex_m_string_escape"
| "lex_step S_m_string_hexa_q = lex_m_string_hexa_q"
| "lex_step S_m_string_hexa = lex_m_string_hexa"
| "lex_step S_eol_end_q = lex_eol_end_q"
| "lex_step S_m_string_end1 = lex_m_string_end1"
| "lex_step S_m_string_end2 = lex_m_string_end2"
| "lex_step S_string_end = lex_string_end"
| "lex_step S_string_inner = lex_string_inner"
| "lex_step S_string_escape = lex_string_escape"
| "lex_step S_string_hexa_q = lex_string_hexa_q"
| "lex_step S_string_hexa = lex_string_hexa"

lemmas lex_defs =
  lex_start_def lex_und_scr_def lex_comma_def lex_lt_def lex_leq_def
  lex_gt_def lex_geq_def lex_not_nil_def lex_neq_def lex_qm_def
  lex_nil_check_def lex_ass_def lex_eq_def lex_col_def lex_semicol_def
  lex_r_bkt_def lex_l_bkt_def lex_r_par_def lex_l_par_def lex_add_def
  lex_sub_def lex_ret_val_def lex_mul_def lex_div_def lex_identifier_def
  lex_data_type_def lex_line_c_def lex_block_c_def lex_block_c_end_q_def lex_block_c_start_q_def
  lex_int_def lex_dbl_s_def lex_dbl_def lex_exp_s_def lex_exp_sign_def
  lex_exp_def lex_string_start_def lex_empty_string_def lex_eol_start_q_def lex_m_string_inner_def
  lex_m_string_escape_def lex_m_string_hexa_q_def lex_m_string_hexa_def lex_eol_end_q_def lex_m_string_end1_def
  lex_m_string_end2_def lex_string_end_def lex_string_inner_def lex_string_escape_def lex_string_hexa_q_def
  lex_string_hexa_def
  lex_eof_def

section \<open>What a step leaves alone\<close>

lemma wlp_when_ok [wlp_simps]:
  "wlp P (when_ok r f) = wlp (\<lambda>(ok, L). (ok \<longrightarrow> wlp P (f L)) \<and> (\<not> ok \<longrightarrow> P L)) r"
  by (auto simp: when_ok_def wlp_def bind_Some_iff split: prod.splits)

definition same_io :: "lexer \<Rightarrow> lexer \<Rightarrow> bool" where
  "same_io L L' \<longleftrightarrow> stdin L' = stdin L \<and> unread L' = unread L \<and> actual_state L' = actual_state L \<and>
     malloc_error L' = malloc_error L \<and> is_final L' = is_final L \<and> set_eol L' = set_eol L \<and>
     actual_token L' = actual_token L \<and> open_comments L' = open_comments L \<and>
     hexa_string L' = hexa_string L"

lemma wlp_append_read:
  assumes "\<And>L1. same_io L L1 \<Longrightarrow> P (True, L1)"
    and "\<And>L1. stdin L1 = stdin L \<Longrightarrow> malloc_error L1 \<Longrightarrow> P (False, L1)"
  shows "wlp P (append_read ch L)"
  using assms by (auto simp: append_read_def wlp_def bind_Some_iff same_io_def Let_def
      split: if_splits)

lemma wlp_append_tmp:
  assumes "\<And>L1. same_io L L1 \<Longrightarrow> P (True, L1)"
    and "\<And>L1. stdin L1 = stdin L \<Longrightarrow> malloc_error L1 \<Longrightarrow> P (False, L1)"
  shows "wlp P (append_tmp ch L)"
  using assms by (auto simp: append_tmp_def wlp_def bind_Some_iff same_io_def Let_def
      split: if_splits)

lemmas lex_helpers = next_state_def mark_final_def set_value_def unread_char_def accept_def

text \<open>
  Standard input is untouched; and only a state that stops the automaton pushes a character
  back, or \<open>identifier\<close> on its way to \<open>data_type\<close>, which itself always stops.
\<close>

definition step_frame :: "lstate \<Rightarrow> lexer \<Rightarrow> lexer \<Rightarrow> bool" where
  "step_frame S L L' \<longleftrightarrow> stdin L' = stdin L \<and>
     (\<not> malloc_error L' \<longrightarrow> (\<forall>S'. actual_state L' = Some S' \<longrightarrow>
        S \<noteq> S_data_type \<and> (unread L' = unread L \<or> S' = S_data_type)))"

text \<open>The operations that only compute a value: nothing about the state depends on them.\<close>

lemma wlp_all: "(\<And>x. P x) \<Longrightarrow> wlp P r"
  by (simp add: wlp_def)

lemmas wlp_opaque =
  wlp_all [of _ "dstring_retract d n" for d n] wlp_all [of _ "keyword_loop ks d ty" for ks d ty]
  wlp_all [of _ "data_type_loop ks d" for ks d] wlp_all [of _ "c_string b" for b]
  wlp_all [of _ "exp_value b" for b] wlp_all [of _ "hexa_to_dec d" for d]
  wlp_all [of _ "dstring_clear d" for d] wlp_all [of _ "indentation_perform d m" for d m]

lemma lex_step_frame: "wlp (step_frame S L) (lex_step S ch L)"
  by (cases S;
      simp add: lex_defs lex_helpers wlp_simps Let_def step_frame_def [abs_def];
      (intro conjI impI allI wlp_append_read wlp_append_tmp wlp_opaque;
       (simp add: same_io_def wlp_simps split: option.split prod.split)?)+)

section \<open>The reading loop\<close>

text \<open>One character: the one pushed back, or the next byte of the input (\<open>EOF\<close> at its end).\<close>

definition lex_read :: "lexer \<Rightarrow> char \<times> lexer" where
  "lex_read L =
     (if unread L = NUL then
        (let (read, rest) = (case stdin L of [] \<Rightarrow> (EOF, []) | ch # cs \<Rightarrow> (ch, cs));
             L = L\<lparr>stdin := rest, actual_column := actual_column L + 1\<rparr>
         in (read, if read = NL then L\<lparr>actual_line := actual_line L + 1, actual_column := 1\<rparr> else L))
      else (unread L, L\<lparr>unread := NUL\<rparr>))"

text \<open>
  The loop of \<open>get_token\<close>; the result says whether it was left because memory ran out.
  Each round reads one character, and a character is pushed back at most once before the
  automaton stops, so the loop ends.
\<close>

definition lex_measure :: "lexer \<Rightarrow> nat" where
  "lex_measure L = 4 * length (stdin L) + (if unread L = NUL then 0 else 1) +
     (if actual_state L = Some S_data_type then 0 else 2)"

lemma lex_read_measure:
  assumes "lex_read L = (read, L1)"
  shows "actual_state L1 = actual_state L" and "unread L1 = NUL"
    and "length (stdin L1) \<le> length (stdin L)"
    and "read \<noteq> EOF \<Longrightarrow> unread L = NUL \<Longrightarrow> length (stdin L1) < length (stdin L)"
  using assms by (auto simp: lex_read_def Let_def split: if_splits list.splits)

lemma lex_round_measure:
  assumes "lex_read L = (read, L1)" "actual_state L = Some S" "lex_step S read L1 = Some L2"
    "\<not> malloc_error L2" "actual_state L2 \<noteq> None" "read \<noteq> EOF"
  shows "lex_measure L2 < lex_measure L"
proof -
  from assms(5) obtain S' where S': "actual_state L2 = Some S'" by auto
  have fr: "step_frame S L1 L2" using wlpD [OF lex_step_frame assms(3)] .
  then have i: "stdin L2 = stdin L1" and S: "S \<noteq> S_data_type"
    and u: "unread L2 = NUL \<or> S' = S_data_type"
    using assms(4) S' lex_read_measure(2) [OF assms(1)] by (auto simp: step_frame_def)
  note l = lex_read_measure(3,4) [OF assms(1)]
  show ?thesis
    using l(1) l(2) [OF assms(6)] u S S' assms(2) by (auto simp: lex_measure_def i)
qed

function lex_loop :: "lexer \<Rightarrow> (bool \<times> lexer) c" where
  "lex_loop L =
     (case actual_state L of
        None \<Rightarrow> UB
      | Some S \<Rightarrow>
          (case lex_read L of (read, L1) \<Rightarrow> do {
             L2 \<leftarrow> lex_step S read L1;
             if malloc_error L2 then Some (True, L2)
             else if actual_state L2 = None then Some (False, L2)
             else if read \<noteq> EOF then lex_loop L2
             else Some (False, L2)
           }))"
  by pat_completeness auto
termination
  by (relation "measure lex_measure") (auto intro!: lex_round_measure [OF sym])

declare lex_loop.simps [simp del]

definition get_token :: "token \<Rightarrow> lexer \<Rightarrow> (nat \<times> token \<times> lexer) c" where
  "get_token tok L = do {
     let L = L\<lparr>actual_token := (actual_token L)\<lparr>tok_type := TOKEN_UNDEFINED, preceding_eol := False\<rparr>,
               set_eol := False, is_final := False, actual_state := Some S_start\<rparr>;
     (ok, d, m) \<leftarrow> dstring_init (read_string L) (lex_budget L);
     let L = L\<lparr>read_string := d, lex_budget := m\<rparr>;
     if \<not> ok then Some (ERR_INTERNAL, tok, L) else do {
     (ok, d, m) \<leftarrow> dstring_init (tmp_string L) (lex_budget L);
     let L = L\<lparr>tmp_string := d, lex_budget := m\<rparr>;
     if \<not> ok then Some (ERR_INTERNAL, tok, L) else do {
     (out_of_memory, L) \<leftarrow> lex_loop L;
     if out_of_memory then Some (ERR_INTERNAL, tok, L) else do {
     t \<leftarrow> dstring_free (tmp_string L);
     let L = L\<lparr>tmp_string := t\<rparr>;
     d \<leftarrow> (if tok_type (actual_token L) \<noteq> TOKEN_STRING \<and> tok_type (actual_token L) \<noteq> TOKEN_IDENTIFIER
          then dstring_free (read_string L) else Some (read_string L));
     let L = L\<lparr>read_string := d\<rparr>;
     if \<not> is_final L then Some (ERR_LEXICAL, tok, L)
     else Some (ERR_NO_ERR, actual_token L, L)
     }}}
   }"

end
