(* ===== verification/Symstack.thy ===== *)
theory Symstack
  imports Token Symtable
begin

text \<open>
  The stack of symbols of the precedence analysis, \<open>src/symstack.c\<close>: its data, its
  operations, and the printers used for debugging. The nodes of the linked stack are reached
  through the top alone, so the stack is the list of their data, top first.
\<close>

section \<open>Data\<close>

text \<open>\<open>expr_res_t\<close> of \<open>parser.h\<close> and \<open>symstack_data_t\<close>.\<close>

record expr_res =
  expr_type :: ty
  nilable :: bool

definition MAX_TOKEN_SYMBOL_SIZE :: nat where
  "MAX_TOKEN_SYMBOL_SIZE = 4"

record symstack_data =
  sym_token :: token
  is_terminal :: bool
  is_handleBegin :: bool
  sym_is_literal :: bool
  sym_is_identifier :: bool
  sym_expr_res :: expr_res
  symbol :: string

type_synonym symstack = "symstack_data list"

text \<open>\<open>stack->size\<close>; it is kept equal to the number of nodes by push and pop.\<close>

definition stack_size :: "symstack \<Rightarrow> nat" where
  "stack_size stack = length stack"

text \<open>
  The code leaves members of new symbols unset. Their values are those of a symbol
  \<open>stale\<close>, the former contents of the memory, on which nothing is assumed.
\<close>

section \<open>Symbols of tokens\<close>

definition convert_token_type_to_string :: "token_type \<Rightarrow> string" where
  "convert_token_type_to_string type =
     (case type of
        TOKEN_ADD \<Rightarrow> ''+'' | TOKEN_SUB \<Rightarrow> ''-'' | TOKEN_MUL \<Rightarrow> ''*'' | TOKEN_DIV \<Rightarrow> ''/''
      | TOKEN_ASS \<Rightarrow> ''='' | TOKEN_EQ \<Rightarrow> ''=='' | TOKEN_NEQ \<Rightarrow> ''!='' | TOKEN_GT \<Rightarrow> ''>''
      | TOKEN_LT \<Rightarrow> ''<'' | TOKEN_GEQ \<Rightarrow> ''>='' | TOKEN_LEQ \<Rightarrow> ''<=''
      | TOKEN_NOT_NIL \<Rightarrow> ''!''
      | TOKEN_NIL_CHECK \<Rightarrow> ''??''
      | TOKEN_L_PAR \<Rightarrow> ''('' | TOKEN_R_PAR \<Rightarrow> '')''
      | TOKEN_IDENTIFIER \<Rightarrow> ''ID''
      | TOKEN_INT \<Rightarrow> ''INT'' | TOKEN_DBL \<Rightarrow> ''DBL'' | TOKEN_STRING \<Rightarrow> ''STR''
      | _ \<Rightarrow> ''$'')"

text \<open>\<open>strcpy\<close> into the array of four bytes.\<close>

definition strcpy_symbol :: "symstack_data \<Rightarrow> string \<Rightarrow> symstack_data c" where
  "strcpy_symbol data s = (if length s < MAX_TOKEN_SYMBOL_SIZE then Some (data\<lparr>symbol := s\<rparr>) else UB)"

definition convert_token_to_data :: "symstack_data \<Rightarrow> token \<Rightarrow> symstack_data c" where
  "convert_token_to_data stale tok =
     strcpy_symbol (stale\<lparr>sym_token := tok, is_handleBegin := False, is_terminal := True,
       sym_is_literal := False, sym_expr_res := \<lparr>expr_type = T_undefined, nilable = False\<rparr>\<rparr>)
       (convert_token_type_to_string (tok_type tok))"

section \<open>The stack\<close>

definition init_symstack :: symstack where
  "init_symstack = []"

definition symstack_push :: "symstack \<Rightarrow> symstack_data \<Rightarrow> budget \<Rightarrow> bool \<times> symstack \<times> budget" where
  "symstack_push stack data m =
     (case take_alloc m of
        (False, m) \<Rightarrow> (False, stack, m)
      | (True, m) \<Rightarrow> (True, data # stack, m))"

definition symstack_is_empty :: "symstack \<Rightarrow> bool" where
  "symstack_is_empty stack \<longleftrightarrow> stack_size stack = 0 \<and> stack = []"

definition symstack_pop :: "symstack_data \<Rightarrow> symstack \<Rightarrow> symstack_data \<times> symstack" where
  "symstack_pop stale stack =
     (let old_node_data = stale\<lparr>sym_token := (sym_token stale)\<lparr>tok_type := TOKEN_UNDEFINED\<rparr>\<rparr>
      in if \<not> symstack_is_empty stack then (hd stack, tl stack) else (old_node_data, stack))"

text \<open>The top node, \<open>None\<close> for a null pointer.\<close>

definition symstack_peek :: "symstack \<Rightarrow> symstack_data option" where
  "symstack_peek stack = (case stack of [] \<Rightarrow> None | data # _ \<Rightarrow> Some data)"

function symstack_dispose :: "symstack_data \<Rightarrow> symstack \<Rightarrow> bool \<times> symstack" where
  "symstack_dispose stale stack =
     (if \<not> symstack_is_empty stack then symstack_dispose stale (snd (symstack_pop stale stack))
      else (symstack_is_empty stack, stack))"
  by pat_completeness auto

termination
  by (relation "measure (length \<circ> snd)")
    (auto simp: symstack_pop_def symstack_is_empty_def stack_size_def Let_def)

section \<open>Printing the stack\<close>

definition MIN_WIDTH :: "32 word" where
  "MIN_WIDTH = 10"

text \<open>The widths are \<open>unsigned int\<close>: a width below 1 or 2 wraps around.\<close>

definition print_line :: "32 word \<Rightarrow> string" where
  "print_line width = ''+'' @ replicate (unat (width - 1) - 1) CHR ''-'' @ ''+'' @ [NL]"

definition print_node :: "symstack_data \<Rightarrow> 32 word \<Rightarrow> string" where
  "print_node node width =
     (let item_length = word_of_nat (length (symbol node)) :: 32 word;
          indent = 2 :: 32 word;
          (text, item_length) =
            (if \<not> is_terminal node then (''E'', 1)
             else if item_length > width - indent - 2 then (take 5 (symbol node), 5)
             else (symbol node, item_length))
      in print_line width @ ''|'' @ replicate (unat indent - 1) CHR '' '' @ text @
         replicate (unat (width - 2) - unat (indent + item_length - 1)) CHR '' '' @
         (if is_handleBegin node then ''| < '' @ [NL] else ''|'' @ [NL]))"

text \<open>The array of nodes has the size of the stack, which must not be 0.\<close>

definition print_stack :: "symstack \<Rightarrow> 32 word \<Rightarrow> string c" where
  "print_stack stack width =
     (let width = (if width < 10 then MIN_WIDTH else width)
      in if stack_size stack = 0 then UB
         else Some (concat (map (\<lambda>node. print_node node width) stack) @ print_line width))"

section \<open>Laws\<close>

lemma symbol_fits: "length (convert_token_type_to_string type) < MAX_TOKEN_SYMBOL_SIZE"
  by (cases type) (simp_all add: convert_token_type_to_string_def MAX_TOKEN_SYMBOL_SIZE_def)

lemma convert_token_to_data_ok:
  "convert_token_to_data stale tok = Some (stale\<lparr>sym_token := tok, is_handleBegin := False,
     is_terminal := True, sym_is_literal := False,
     sym_expr_res := \<lparr>expr_type = T_undefined, nilable = False\<rparr>,
     symbol := convert_token_type_to_string (tok_type tok)\<rparr>)"
  by (simp add: convert_token_to_data_def strcpy_symbol_def symbol_fits)

lemma symstack_is_empty [simp]: "symstack_is_empty stack \<longleftrightarrow> stack = []"
  by (auto simp: symstack_is_empty_def stack_size_def)

lemma symstack_pop_Cons [simp]: "symstack_pop stale (data # stack) = (data, stack)"
  by (simp add: symstack_pop_def)

lemma symstack_push_None [simp]: "symstack_push stack data None = (True, data # stack, None)"
  by (simp add: symstack_push_def)

lemma symstack_peek_Cons [simp]: "symstack_peek (data # stack) = Some data"
  by (simp add: symstack_peek_def)

lemma symstack_peek_Nil [simp]: "symstack_peek [] = None"
  by (simp add: symstack_peek_def)

declare symstack_dispose.simps [simp del]

lemma symstack_dispose_empties: "symstack_dispose stale stack = (True, [])"
  by (induction stack) (simp_all add: symstack_dispose.simps)

text \<open>A pushed symbol is the next one popped; the rest of the stack is what it was.\<close>

lemma push_pop:
  "symstack_push stack data m = (True, stack', m') \<Longrightarrow> symstack_pop stale stack' = (data, stack)"
  by (auto simp: symstack_push_def split: prod.splits bool.splits)

end
