(* ===== verification/Parser_State.thy ===== *)
theory Parser_State
  imports Lexer Token_Buffer Codegen Symstack
begin

text \<open>
  The state of the parser, the record \<open>Parser\<close> of \<open>src/include/parser.h\<close> together with what
  the parser reaches through pointers and global variables: the items of the symbol tables,
  the scanner, the code generator and the static variables of \<open>src/expression.c\<close>. The macros
  of \<open>parser.h\<close> become operations that take the rest of a rule as an argument.
\<close>

section \<open>State\<close>

text \<open>
  Pointers to items are addresses in the heap of the tables; \<open>current_arg\<close>, a pointer into the
  parameter list of a function, is the item of the function and a position in its list. The
  last group are the variables outside the record: \<open>stale\<close> is the content of memory that the
  code reads before it writes it, and \<open>bytes_zero\<close> tells whether bytes of a token's value
  that the member written last does not cover are zero. Nothing is assumed of the two.
\<close>

record parser =
  in_function :: bool
  in_func_head :: bool
  in_func_body :: bool
  in_param :: bool
  return_found :: bool
  first_stmt :: bool
  in_cond :: "32 word"
  in_loop :: "32 word"
  param_cnt :: "32 word"
  cond_uid :: "32 word"
  loop_uid :: "32 word"
  current_arg :: "(nat \<times> nat) option"
  curr_tok :: token
  lhs_id :: "nat option"
  current_id :: "nat option"
  last_func_id :: "nat option"
  rhs_id :: "nat option"
  global_symtab :: symtab
  p_stack :: scope
  p_tmp :: string
  p_buffer :: token_buffer
  p_expr_res :: expr_res
  p_nil :: token
  p_heap :: symheap
  p_lex :: lexer
  p_cg :: codegen
  is_multiline_expr :: bool
  is_all_literals :: bool
  expr_err :: nat
  p_budget :: budget
  stale :: symstack_data
  bytes_zero :: bool

type_synonym rule = "parser \<Rightarrow> (nat \<times> parser) c"

section \<open>Tables, items and generated code\<close>

text \<open>The code generator keeps pointers to the parser's tables, so it sees their present state.\<close>

definition env_of :: "parser \<Rightarrow> cg_env" where
  "env_of P = code_generator_set_current_symtable (Some (global_symtab P)) (Some (p_stack P)) (p_heap P)"

definition generate :: "(cg_env \<Rightarrow> codegen \<Rightarrow> codegen c) \<Rightarrow> parser \<Rightarrow> parser c" where
  "generate f P = do { G \<leftarrow> f (env_of P) (p_cg P); Some (P\<lparr>p_cg := G\<rparr>) }"

text \<open>\<open>*ptr\<close> and an assignment through \<open>ptr\<close>; a null or dangling pointer is undefined.\<close>

definition item_at :: "nat option \<Rightarrow> parser \<Rightarrow> symtab_item c" where
  "item_at ptr P = do { a \<leftarrow> ptr; sh_items (p_heap P) a }"

definition change_item :: "nat option \<Rightarrow> (symtab_item \<Rightarrow> symtab_item) \<Rightarrow> parser \<Rightarrow> parser c" where
  "change_item ptr f P = do { a \<leftarrow> ptr; H \<leftarrow> set_item (p_heap P) a f; Some (P\<lparr>p_heap := H\<rparr>) }"

definition search_global :: "string \<Rightarrow> parser \<Rightarrow> nat option c" where
  "search_global key P = do { (item, _) \<leftarrow> symtable_search (Some (global_symtab P)) key (p_heap P); Some item }"

definition search_stack :: "scope \<Rightarrow> string \<Rightarrow> parser \<Rightarrow> nat option c" where
  "search_stack stack key P = do { (item, _) \<leftarrow> search_scopes stack key (p_heap P) SYMTAB_OK; Some item }"

text \<open>\<open>p->stack->next\<close> and \<open>p->stack->local_sym\<close>.\<close>

definition stack_next :: "parser \<Rightarrow> scope c" where
  "stack_next P = (case p_stack P of [] \<Rightarrow> UB | _ # stack \<Rightarrow> Some stack)"

definition local_sym :: "parser \<Rightarrow> symtab option c" where
  "local_sym P = (case p_stack P of [] \<Rightarrow> UB | T # _ \<Rightarrow> Some T)"

definition set_local_sym :: "symtab option \<Rightarrow> parser \<Rightarrow> parser" where
  "set_local_sym T P = P\<lparr>p_stack := T # tl (p_stack P)\<rparr>"

text \<open>The parameter a pointer into a list denotes, and the pointer to the next one.\<close>

definition param_at :: "(nat \<times> nat) option \<Rightarrow> parser \<Rightarrow> param c" where
  "param_at ptr P = do {
     (fn, i) \<leftarrow> ptr;
     item \<leftarrow> sh_items (p_heap P) fn;
     if i < length (it_parameters item) then Some (it_parameters item ! i) else UB
   }"

definition param_pointer :: "nat \<Rightarrow> nat \<Rightarrow> parser \<Rightarrow> (nat \<times> nat) option c" where
  "param_pointer fn i P = do {
     item \<leftarrow> sh_items (p_heap P) fn;
     Some (if i < length (it_parameters item) then Some (fn, i) else None)
   }"

definition param_next_pointer :: "(nat \<times> nat) option \<Rightarrow> parser \<Rightarrow> (nat \<times> nat) option c" where
  "param_next_pointer ptr P = do { (fn, i) \<leftarrow> ptr; _ \<leftarrow> param_at ptr P; param_pointer fn (i + 1) P }"

section \<open>Reading the value of a token\<close>

text \<open>
  \<open>value.int_val == 0\<close> and \<open>value.double_val == 0.0\<close>. The members of the union overlap: an
  \<open>int\<close> other than 0 makes the \<open>double\<close> different from 0, and so does a pointer that is not
  null; the remaining cases depend on bytes of unknown content.
\<close>

definition int_val_is_0 :: "parser \<Rightarrow> token \<Rightarrow> bool" where
  "int_val_is_0 P t = (case tok_value t of
      V_int w \<Rightarrow> w = 0
    | V_double d \<Rightarrow> dbl_is_zero d \<or> bytes_zero P
    | _ \<Rightarrow> bytes_zero P)"

definition double_val_is_0 :: "parser \<Rightarrow> token \<Rightarrow> bool" where
  "double_val_is_0 P t = (case tok_value t of
      V_double d \<Rightarrow> dbl_is_zero d
    | V_int w \<Rightarrow> w = 0 \<and> bytes_zero P
    | V_string s \<Rightarrow> False
    | _ \<Rightarrow> bytes_zero P)"

section \<open>The macros of the parser\<close>

definition GET_TOKEN :: "rule \<Rightarrow> rule" where
  "GET_TOKEN k P = do {
     B \<leftarrow> tb_next (p_buffer P);
     t \<leftarrow> tb_get_token B;
     let P = P\<lparr>p_buffer := B, curr_tok := t\<rparr>;
     if tok_type t = TOKEN_UNDEFINED \<and> int_val_is_0 P t then Some (ERR_INTERNAL, P) else k P
   }"

definition ASSERT_TOK_TYPE :: "token_type \<Rightarrow> rule \<Rightarrow> rule" where
  "ASSERT_TOK_TYPE type k P =
     (if tok_type (curr_tok P) \<noteq> type then Some (ERR_SYNTAX, P) else k P)"

definition NEXT_RULE :: "rule \<Rightarrow> rule \<Rightarrow> rule" where
  "NEXT_RULE rule k P = do {
     (res, P) \<leftarrow> rule P;
     if res \<noteq> ERR_NO_ERR then Some (res, P) else k P
   }"

definition CHECK_NEWLINE :: "rule \<Rightarrow> rule" where
  "CHECK_NEWLINE k P =
     (if \<not> first_stmt P \<and> \<not> preceding_eol (curr_tok P) then Some (ERR_SYNTAX, P) else k P)"

text \<open>The end of a rule, \<open>return EXIT_SUCCESS\<close>, and the return of an error code.\<close>

definition success :: rule where
  "success P = Some (EXIT_SUCCESS, P)"

definition fail :: "nat \<Rightarrow> rule" where
  "fail code P = Some (code, P)"

text \<open>Stepping back to the previous token, as the rules do after looking ahead.\<close>

definition step_back :: "parser \<Rightarrow> parser c" where
  "step_back P = do { B \<leftarrow> tb_prev (p_buffer P); Some (P\<lparr>p_buffer := B\<rparr>) }"

definition reload_token :: "parser \<Rightarrow> parser c" where
  "reload_token P = do { t \<leftarrow> tb_get_token (p_buffer P); Some (P\<lparr>curr_tok := t\<rparr>) }"

section \<open>The position in the token buffer\<close>

text \<open>
  The parser stands at position \<open>i\<close> of the tokens \<open>toks\<close>: the buffer holds them with the
  runner at \<open>i\<close>. Stepping to the next token and loading it is then a function of the state.
\<close>

definition at_token :: "token list \<Rightarrow> nat \<Rightarrow> parser \<Rightarrow> bool" where
  "at_token toks i P \<longleftrightarrow> tb_repr (p_buffer P) toks i \<and> i < length toks"

definition advance :: "parser \<Rightarrow> parser" where
  "advance P = (let B = the (tb_next (p_buffer P)) in P\<lparr>p_buffer := B, curr_tok := the (tb_get_token B)\<rparr>)"

lemma GET_TOKEN_next:
  assumes "at_token toks i P" "Suc i < length toks" "tok_type (toks ! Suc i) \<noteq> TOKEN_UNDEFINED"
  shows "GET_TOKEN k P = k (advance P)" "at_token toks (Suc i) (advance P)" "curr_tok (advance P) = toks ! Suc i"
proof -
  have r: "tb_repr (p_buffer P) toks i" using assms(1) by (simp add: at_token_def)
  obtain B where B: "tb_next (p_buffer P) = Some B" "tb_repr B toks (Suc i)"
    using tb.nxt_law [OF r assms(2)] by blast
  have t: "tb_get_token B = Some (toks ! Suc i)"
    using tb_get_token_repr [OF B(2)] assms(2) by (auto split: if_splits)
  show "GET_TOKEN k P = k (advance P)" "at_token toks (Suc i) (advance P)" "curr_tok (advance P) = toks ! Suc i"
    using B t assms(2,3) by (simp_all add: GET_TOKEN_def advance_def at_token_def Let_def)
qed

lemma advance_frame [simp]:
  "p_cg (advance P) = p_cg P" "p_heap (advance P) = p_heap P" "global_symtab (advance P) = global_symtab P"
  "p_stack (advance P) = p_stack P" "p_budget (advance P) = p_budget P" "stale (advance P) = stale P"
  "bytes_zero (advance P) = bytes_zero P" "expr_err (advance P) = expr_err P" "lhs_id (advance P) = lhs_id P"
  "is_multiline_expr (advance P) = is_multiline_expr P" "is_all_literals (advance P) = is_all_literals P"
  "cond_uid (advance P) = cond_uid P" "current_id (advance P) = current_id P"
  by (simp_all add: advance_def Let_def)

lemma advance_commutes [simp]:
  "advance (P\<lparr>p_cg := G\<rparr>) = (advance P)\<lparr>p_cg := G\<rparr>"
  by (simp add: advance_def Let_def)

lemma at_token_upd [simp]:
  "at_token toks i (P\<lparr>p_cg := G\<rparr>) = at_token toks i P"
  by (simp add: at_token_def)

end
