(* ===== verification/Expression.thy ===== *)
theory Expression
  imports Parser_State
begin

text \<open>
  The bottom-up analysis of expressions of \<open>src/expression.c\<close>: the precedence table, the
  array of symbols of a handle, the reductions with their type checks and code, and the loop
  of \<open>expr\<close>. The stack of symbols is local to \<open>expr\<close> and is passed beside the parser.
\<close>

section \<open>The precedence table\<close>

datatype prec_op = PREC_S | PREC_R | PREC_E | PREC_X

datatype prec_tab_index =
  INDEX_MUL_DIV | INDEX_ADD_SUB | INDEX_NILL_CHECK | INDEX_IDENTIFIER | INDEX_RELATIONAL_OP
| INDEX_LPAR | INDEX_RPAR | INDEX_NOT_NIL | INDEX_DOLLAR

definition index_number :: "prec_tab_index \<Rightarrow> nat" where
  "index_number i = (case i of INDEX_MUL_DIV \<Rightarrow> 0 | INDEX_ADD_SUB \<Rightarrow> 1 | INDEX_NILL_CHECK \<Rightarrow> 2
     | INDEX_IDENTIFIER \<Rightarrow> 3 | INDEX_RELATIONAL_OP \<Rightarrow> 4 | INDEX_LPAR \<Rightarrow> 5 | INDEX_RPAR \<Rightarrow> 6
     | INDEX_NOT_NIL \<Rightarrow> 7 | INDEX_DOLLAR \<Rightarrow> 8)"

definition prec_tab :: "prec_op list list" where
  "prec_tab =
    [[PREC_R, PREC_R, PREC_R, PREC_S, PREC_R, PREC_S, PREC_R, PREC_S, PREC_R],
     [PREC_S, PREC_R, PREC_R, PREC_S, PREC_R, PREC_S, PREC_R, PREC_S, PREC_R],
     [PREC_S, PREC_S, PREC_S, PREC_S, PREC_S, PREC_S, PREC_R, PREC_S, PREC_R],
     [PREC_R, PREC_R, PREC_R, PREC_X, PREC_R, PREC_X, PREC_R, PREC_R, PREC_R],
     [PREC_S, PREC_S, PREC_R, PREC_S, PREC_E, PREC_S, PREC_R, PREC_S, PREC_R],
     [PREC_S, PREC_S, PREC_S, PREC_S, PREC_S, PREC_S, PREC_E, PREC_S, PREC_X],
     [PREC_R, PREC_R, PREC_R, PREC_X, PREC_R, PREC_X, PREC_R, PREC_X, PREC_R],
     [PREC_R, PREC_R, PREC_R, PREC_R, PREC_R, PREC_R, PREC_R, PREC_R, PREC_R],
     [PREC_S, PREC_S, PREC_S, PREC_S, PREC_S, PREC_S, PREC_X, PREC_S, PREC_R]]"

definition prec_tab_at :: "prec_tab_index \<Rightarrow> prec_tab_index \<Rightarrow> prec_op" where
  "prec_tab_at i j = prec_tab ! index_number i ! index_number j"

definition convert_token_to_index :: "token \<Rightarrow> prec_tab_index" where
  "convert_token_to_index t =
     (case tok_type t of
        TOKEN_MUL \<Rightarrow> INDEX_MUL_DIV | TOKEN_DIV \<Rightarrow> INDEX_MUL_DIV
      | TOKEN_ADD \<Rightarrow> INDEX_ADD_SUB | TOKEN_SUB \<Rightarrow> INDEX_ADD_SUB
      | TOKEN_NIL_CHECK \<Rightarrow> INDEX_NILL_CHECK
      | TOKEN_IDENTIFIER \<Rightarrow> INDEX_IDENTIFIER | TOKEN_INT \<Rightarrow> INDEX_IDENTIFIER
      | TOKEN_DBL \<Rightarrow> INDEX_IDENTIFIER | TOKEN_STRING \<Rightarrow> INDEX_IDENTIFIER | TOKEN_NIL \<Rightarrow> INDEX_IDENTIFIER
      | TOKEN_EQ \<Rightarrow> INDEX_RELATIONAL_OP | TOKEN_NEQ \<Rightarrow> INDEX_RELATIONAL_OP
      | TOKEN_GT \<Rightarrow> INDEX_RELATIONAL_OP | TOKEN_LT \<Rightarrow> INDEX_RELATIONAL_OP
      | TOKEN_GEQ \<Rightarrow> INDEX_RELATIONAL_OP | TOKEN_LEQ \<Rightarrow> INDEX_RELATIONAL_OP
      | TOKEN_L_PAR \<Rightarrow> INDEX_LPAR | TOKEN_R_PAR \<Rightarrow> INDEX_RPAR | TOKEN_NOT_NIL \<Rightarrow> INDEX_NOT_NIL
      | _ \<Rightarrow> INDEX_DOLLAR)"

definition convert_term_to_index :: "symstack_data \<Rightarrow> prec_tab_index" where
  "convert_term_to_index data = convert_token_to_index (sym_token data)"

section \<open>Errors and flags\<close>

text \<open>Only the first error is kept.\<close>

definition error_code_handler :: "nat \<Rightarrow> parser \<Rightarrow> nat \<times> parser" where
  "error_code_handler error_code P =
     (let P = (if expr_err P = EXIT_SUCCESS then P\<lparr>expr_err := error_code\<rparr> else P) in (expr_err P, P))"

definition REPORT_ERROR :: "nat \<Rightarrow> parser \<Rightarrow> parser" where
  "REPORT_ERROR err_code P = snd (error_code_handler err_code P)"

definition set_is_multiline_expr :: "bool \<Rightarrow> parser \<Rightarrow> parser" where
  "set_is_multiline_expr value P = P\<lparr>is_multiline_expr := value\<rparr>"

definition get_is_multiline_expr :: "parser \<Rightarrow> bool" where
  "get_is_multiline_expr P = is_multiline_expr P"

definition set_is_all_literals :: "bool \<Rightarrow> parser \<Rightarrow> parser" where
  "set_is_all_literals value P = P\<lparr>is_all_literals := value\<rparr>"

definition get_is_all_literals :: "parser \<Rightarrow> bool" where
  "get_is_all_literals P = is_all_literals P"

text \<open>\<open>EMPTY_TOKEN\<close> initialises the first member of the union, the \<open>double\<close>.\<close>

definition EMPTY_TOKEN :: "bool \<Rightarrow> token" where
  "EMPTY_TOKEN eol = \<lparr>preceding_eol = eol, tok_type = TOKEN_UNDEFINED, tok_value = V_double (Fin 0 0)\<rparr>"

definition DEFINE_EXPR_SYMBOL :: "parser \<Rightarrow> symstack_data" where
  "DEFINE_EXPR_SYMBOL P = (stale P)\<lparr>is_terminal := False, is_handleBegin := False,
     sym_expr_res := \<lparr>expr_type = T_undefined, nilable = False\<rparr>, sym_token := EMPTY_TOKEN False\<rparr>"

text \<open>\<open>symstack_push\<close> with the parser's allocator; the callers ignore whether it succeeds.\<close>

definition push_symbol :: "symstack \<Rightarrow> symstack_data \<Rightarrow> parser \<Rightarrow> symstack \<times> parser" where
  "push_symbol stack data P =
     (case symstack_push stack data (p_budget P) of (_, stack, m) \<Rightarrow> (stack, P\<lparr>p_budget := m\<rparr>))"

section \<open>The array of symbols\<close>

text \<open>\<open>arr\<close> is a null pointer, a block of symbols, or a pointer to a block that was freed.\<close>

datatype arr_ptr = Arr_null | Arr_block "symstack_data list" | Arr_freed

record symbol_arr =
  arr :: arr_ptr
  arr_size :: nat

definition MAX_EXPR_SIZE :: nat where
  "MAX_EXPR_SIZE = 3"

definition arr_at :: "symbol_arr \<Rightarrow> nat \<Rightarrow> symstack_data c" where
  "arr_at sym_arr i = (case arr sym_arr of
     Arr_block xs \<Rightarrow> if i < length xs then Some (xs ! i) else UB | _ \<Rightarrow> UB)"

definition symbol_arr_init :: symbol_arr where
  "symbol_arr_init = \<lparr>arr = Arr_null, arr_size = 0\<rparr>"

text \<open>The callers pass the address of a local array, so it is never null.\<close>

definition symbol_arr_append :: "symbol_arr \<Rightarrow> symstack_data \<Rightarrow> budget \<Rightarrow> (bool \<times> symbol_arr \<times> budget) c" where
  "symbol_arr_append sym_arr data m =
     (let (ok, m) = take_alloc m
      in if arr_size sym_arr = 0 then
           (if \<not> ok then Some (False, \<lparr>arr = Arr_null, arr_size = 0\<rparr>, m)
            else Some (True, \<lparr>arr = Arr_block [data], arr_size = 1\<rparr>, m))
         else (case arr sym_arr of
             Arr_block xs \<Rightarrow>
               if \<not> ok then Some (False, sym_arr\<lparr>arr := Arr_null\<rparr>, m)
               else Some (True, \<lparr>arr = Arr_block (take (arr_size sym_arr) xs @ [data]), arr_size = arr_size sym_arr + 1\<rparr>, m)
           | _ \<Rightarrow> UB))"

fun symbol_arr_copy_exp_to_arr :: "symstack \<Rightarrow> symbol_arr \<Rightarrow> parser \<Rightarrow> (symbol_arr \<times> parser) c" where
  "symbol_arr_copy_exp_to_arr [] sym_arr P = UB"
| "symbol_arr_copy_exp_to_arr (current_node # stack) sym_arr P =
     (if is_handleBegin current_node then Some (sym_arr, P)
      else do {
        (ok, sym_arr, m) \<leftarrow> symbol_arr_append sym_arr current_node (p_budget P);
        let P = P\<lparr>p_budget := m\<rparr>;
        symbol_arr_copy_exp_to_arr stack sym_arr (if ok then P else REPORT_ERROR ERR_INTERNAL P)
      })"

text \<open>
  The loop of \<open>symbol_arr_move_expr_to_arr\<close>; \<open>None\<close> as the current symbol stands for the
  early return when memory ran out, after which the stack is empty.
\<close>

fun move_loop :: "symstack_data \<Rightarrow> symstack \<Rightarrow> symbol_arr \<Rightarrow> parser \<Rightarrow>
    (symstack_data option \<times> symstack \<times> symbol_arr \<times> parser) c" where
  "move_loop current [] sym_arr P = Some (Some current, [], sym_arr, P)"
| "move_loop current (data # stack) sym_arr P =
     (if \<not> is_handleBegin current \<and> arr_size sym_arr < MAX_EXPR_SIZE then do {
        (ok, sym_arr, m) \<leftarrow> symbol_arr_append sym_arr current (p_budget P);
        let P = P\<lparr>p_budget := m\<rparr>;
        if \<not> ok then Some (None, snd (symstack_dispose (stale P) (data # stack)), sym_arr, REPORT_ERROR ERR_INTERNAL P)
        else move_loop data stack sym_arr P
      } else Some (Some current, data # stack, sym_arr, P))"

definition symbol_arr_move_expr_to_arr :: "symstack \<Rightarrow> symbol_arr \<Rightarrow> parser \<Rightarrow> (symstack \<times> symbol_arr \<times> parser) c" where
  "symbol_arr_move_expr_to_arr stack sym_arr P = do {
     let (current_symbol, stack) = symstack_pop (stale P) stack;
     (current, stack, sym_arr, P) \<leftarrow> move_loop current_symbol stack sym_arr P;
     case current of
       None \<Rightarrow> Some (stack, sym_arr, P)
     | Some current_symbol \<Rightarrow>
         let (stack, P) = push_symbol stack (current_symbol\<lparr>is_handleBegin := False\<rparr>) P
         in Some (stack, sym_arr, P)
   }"

text \<open>The loop of \<open>symbol_arr_reverse\<close> over the indices \<open>start\<close> and \<open>end\<close>, which are \<open>int\<close>s.\<close>

function reverse_loop :: "int \<Rightarrow> int \<Rightarrow> symstack_data list \<Rightarrow> symstack_data list c" where
  "reverse_loop i j xs =
     (if i < j then
        (if 0 \<le> i \<and> nat j < length xs
         then reverse_loop (i + 1) (j - 1) (xs[nat i := xs ! nat j, nat j := xs ! nat i])
         else UB)
      else Some xs)"
  by pat_completeness auto

termination
  by (relation "measure (\<lambda>(i, j, _). nat (j - i))") auto

definition symbol_arr_reverse :: "symbol_arr \<Rightarrow> symbol_arr c" where
  "symbol_arr_reverse sym_arr =
     (let last = int (arr_size sym_arr) - 1
      in if 0 < last then (case arr sym_arr of
             Arr_block xs \<Rightarrow> do { xs \<leftarrow> reverse_loop 0 last xs; Some (sym_arr\<lparr>arr := Arr_block xs\<rparr>) }
           | _ \<Rightarrow> UB)
         else Some sym_arr)"

text \<open>The pointer is not reset; freeing a block twice is undefined.\<close>

definition symbol_arr_free :: "symbol_arr \<Rightarrow> symbol_arr c" where
  "symbol_arr_free sym_arr = (case arr sym_arr of
      Arr_null \<Rightarrow> Some (sym_arr\<lparr>arr_size := 0\<rparr>)
    | Arr_block _ \<Rightarrow> Some \<lparr>arr = Arr_freed, arr_size = 0\<rparr>
    | Arr_freed \<Rightarrow> UB)"

fun print_symbols :: "nat \<Rightarrow> symstack_data list \<Rightarrow> string c" where
  "print_symbols i [] = Some []"
| "print_symbols i (data # xs) = do {
     text \<leftarrow> (if tok_type (sym_token data) = TOKEN_IDENTIFIER \<or> tok_type (sym_token data) = TOKEN_STRING
             then tok_str (sym_token data) else Some (symbol data));
     rest \<leftarrow> print_symbols (i + 1) xs;
     Some (''sym_arr['' @ dec_string i @ '']: '' @ text @ [NL] @ rest)
   }"

definition print_symbol_arr :: "symbol_arr \<Rightarrow> string c" where
  "print_symbol_arr sym_arr =
     (if arr_size sym_arr = 0 then Some []
      else case arr sym_arr of
        Arr_block xs \<Rightarrow> if arr_size sym_arr \<le> length xs then print_symbols 0 (take (arr_size sym_arr) xs) else UB
      | _ \<Rightarrow> UB)"

section \<open>Kinds of symbols and their types\<close>

definition is_literal :: "symstack_data \<Rightarrow> bool" where
  "is_literal s = (let exp_type = tok_type (sym_token s)
     in exp_type = TOKEN_INT \<or> exp_type = TOKEN_DBL \<or> exp_type = TOKEN_STRING \<or> exp_type = TOKEN_NIL)"

definition is_identifier :: "symstack_data \<Rightarrow> bool" where
  "is_identifier s \<longleftrightarrow> \<not> sym_is_literal s"

definition is_operand :: "symstack_data \<Rightarrow> bool" where
  "is_operand s \<longleftrightarrow> is_literal s \<or> tok_type (sym_token s) = TOKEN_IDENTIFIER"

definition is_binary_operator :: "symstack_data \<Rightarrow> bool" where
  "is_binary_operator s =
     (case tok_type (sym_token s) of
        TOKEN_ADD \<Rightarrow> True | TOKEN_SUB \<Rightarrow> True | TOKEN_MUL \<Rightarrow> True | TOKEN_DIV \<Rightarrow> True
      | TOKEN_EQ \<Rightarrow> True | TOKEN_NEQ \<Rightarrow> True | TOKEN_GT \<Rightarrow> True | TOKEN_LT \<Rightarrow> True
      | TOKEN_GEQ \<Rightarrow> True | TOKEN_LEQ \<Rightarrow> True | TOKEN_NIL_CHECK \<Rightarrow> True
      | _ \<Rightarrow> False)"

definition convert_to_expr_type :: "token_type \<Rightarrow> ty" where
  "convert_to_expr_type type =
     (case type of TOKEN_INT \<Rightarrow> T_integer | TOKEN_DBL \<Rightarrow> T_double | TOKEN_STRING \<Rightarrow> T_string
      | TOKEN_NIL \<Rightarrow> T_nil | _ \<Rightarrow> T_undefined)"

definition compare_types_strict :: "symstack_data \<Rightarrow> symstack_data \<Rightarrow> bool" where
  "compare_types_strict operand1 operand2 \<longleftrightarrow>
     expr_type (sym_expr_res operand1) = expr_type (sym_expr_res operand2) \<and>
     nilable (sym_expr_res operand1) = nilable (sym_expr_res operand2)"

definition compare_operand_with_type :: "symstack_data \<Rightarrow> ty \<Rightarrow> bool" where
  "compare_operand_with_type operand type \<longleftrightarrow> expr_type (sym_expr_res operand) = type"

definition operand_is_nilable :: "symstack_data \<Rightarrow> bool" where
  "operand_is_nilable operand = nilable (sym_expr_res operand)"

definition set_expr_type :: "ty \<Rightarrow> symstack_data \<Rightarrow> symstack_data" where
  "set_expr_type type s = s\<lparr>sym_expr_res := (sym_expr_res s)\<lparr>expr_type := type\<rparr>\<rparr>"

definition set_nilable :: "bool \<Rightarrow> symstack_data \<Rightarrow> symstack_data" where
  "set_nilable b s = s\<lparr>sym_expr_res := (sym_expr_res s)\<lparr>nilable := b\<rparr>\<rparr>"

section \<open>Searching the stack\<close>

definition push_initial_sym :: "symstack \<Rightarrow> parser \<Rightarrow> (symstack \<times> parser) c" where
  "push_initial_sym stack P = do {
     let tok = (sym_token (stale P))\<lparr>tok_type := TOKEN_UNDEFINED\<rparr>;
     data \<leftarrow> strcpy_symbol ((stale P)\<lparr>is_handleBegin := False, is_terminal := True, sym_token := tok\<rparr>)
       (convert_token_type_to_string (tok_type tok));
     Some (push_symbol stack data P)
   }"

fun find_closest_eol :: "symstack \<Rightarrow> bool" where
  "find_closest_eol [] = False"
| "find_closest_eol (current_node # stack) =
     (if preceding_eol (sym_token current_node) then True else find_closest_eol stack)"

fun reduce_to_eol :: "symstack \<Rightarrow> parser \<Rightarrow> (symstack \<times> parser) c" where
  "reduce_to_eol [] P = Some ([], P)"
| "reduce_to_eol (current_node # stack) P =
     (if preceding_eol (sym_token current_node) then Some (current_node # stack, P)
      else do { P \<leftarrow> step_back P; reduce_to_eol stack P })"

text \<open>The terminal nearest to the top, given by its distance from it.\<close>

fun get_closest_terminal :: "symstack \<Rightarrow> nat option" where
  "get_closest_terminal [] = None"
| "get_closest_terminal (current_node # stack) =
     (if is_terminal current_node then Some 0 else map_option Suc (get_closest_terminal stack))"

definition get_prec_table_operation :: "symstack \<Rightarrow> token \<Rightarrow> prec_op" where
  "get_prec_table_operation stack t =
     (case get_closest_terminal stack of
        None \<Rightarrow> PREC_X
      | Some i \<Rightarrow> prec_tab_at (convert_term_to_index (stack ! i)) (convert_token_to_index t))"

definition equal_shift :: "symstack \<Rightarrow> token \<Rightarrow> parser \<Rightarrow> (symstack \<times> parser) c" where
  "equal_shift stack t P = do {
     sym_data \<leftarrow> convert_token_to_data (stale P) t;
     Some (push_symbol stack sym_data P)
   }"

definition shift :: "symstack \<Rightarrow> token \<Rightarrow> parser \<Rightarrow> (symstack \<times> parser) c" where
  "shift stack t P = do {
     i \<leftarrow> get_closest_terminal stack;
     let stack = stack[i := (stack ! i)\<lparr>is_handleBegin := True\<rparr>];
     sym_data \<leftarrow> convert_token_to_data (stale P) t;
     Some (push_symbol stack sym_data P)
   }"

section \<open>Rules\<close>

datatype prec_rule =
  RULE_E_PLUS_E | RULE_E_MINUS_E | RULE_E_MUL_E | RULE_E_DIV_E
| RULE_E_LT_E | RULE_E_LEQ_E | RULE_E_GT_E | RULE_E_GEQ_E | RULE_E_EQ_E | RULE_E_NEQ_E
| RULE_E_IS_NIL_E | RULE_E_NOT_NIL | RULE_PARL_E_PARR | RULE_OPERAND | RULE_NO_RULE

definition choose_operator_rule :: "symstack_data \<Rightarrow> prec_rule" where
  "choose_operator_rule data =
     (case tok_type (sym_token data) of
        TOKEN_ADD \<Rightarrow> RULE_E_PLUS_E | TOKEN_SUB \<Rightarrow> RULE_E_MINUS_E
      | TOKEN_MUL \<Rightarrow> RULE_E_MUL_E | TOKEN_DIV \<Rightarrow> RULE_E_DIV_E
      | TOKEN_LT \<Rightarrow> RULE_E_LT_E | TOKEN_LEQ \<Rightarrow> RULE_E_LEQ_E
      | TOKEN_GT \<Rightarrow> RULE_E_GT_E | TOKEN_GEQ \<Rightarrow> RULE_E_GEQ_E
      | TOKEN_EQ \<Rightarrow> RULE_E_EQ_E | TOKEN_NEQ \<Rightarrow> RULE_E_NEQ_E
      | TOKEN_NIL_CHECK \<Rightarrow> RULE_E_IS_NIL_E
      | _ \<Rightarrow> RULE_NO_RULE)"

definition get_rule :: "symbol_arr \<Rightarrow> prec_rule c" where
  "get_rule sym_arr =
     (if arr sym_arr = Arr_null then Some RULE_NO_RULE
      else if arr_size sym_arr = 1 then do {
        s0 \<leftarrow> arr_at sym_arr 0;
        Some (if is_operand s0 then RULE_OPERAND else RULE_NO_RULE)
      }
      else if arr_size sym_arr = 2 then do {
        s0 \<leftarrow> arr_at sym_arr 0;
        s1 \<leftarrow> arr_at sym_arr 1;
        Some (if \<not> is_terminal s0 \<and> tok_type (sym_token s1) = TOKEN_NOT_NIL then RULE_E_NOT_NIL else RULE_NO_RULE)
      }
      else if arr_size sym_arr = 3 then do {
        s0 \<leftarrow> arr_at sym_arr 0;
        s1 \<leftarrow> arr_at sym_arr 1;
        s2 \<leftarrow> arr_at sym_arr 2;
        Some (if \<not> is_terminal s0 \<and> \<not> is_terminal s2 then choose_operator_rule s1
              else if tok_type (sym_token s0) = TOKEN_L_PAR \<and> tok_type (sym_token s2) = TOKEN_R_PAR then RULE_PARL_E_PARR
              else RULE_NO_RULE)
      }
      else Some RULE_NO_RULE)"

section \<open>Operands\<close>

text \<open>
  \<open>id_is_defined\<close> leaves the item in \<open>current_id\<close>. While the variable on the left has no
  value, its own name is looked up in the scopes behind the innermost one.
\<close>

definition id_is_defined :: "token \<Rightarrow> parser \<Rightarrow> (bool \<times> parser) c" where
  "id_is_defined t P =
     (if tok_type t = TOKEN_IDENTIFIER then do {
        name \<leftarrow> tok_str t;
        found \<leftarrow> (if lhs_id P \<noteq> None then do {
                   lhs \<leftarrow> item_at (lhs_id P) P;
                   if \<not> it_is_var_initialized lhs \<and> strcmp name (it_name lhs) = 0
                   then do { stack \<leftarrow> stack_next P; search_stack stack name P }
                   else search_stack (p_stack P) name P
                 } else search_stack (p_stack P) name P);
        let P = P\<lparr>current_id := found\<rparr>;
        if current_id P \<noteq> None then do {
          item \<leftarrow> item_at (current_id P) P;
          Some (True, if \<not> it_is_var_initialized item then REPORT_ERROR ERR_UNDEFINED_VARIABLE P else P)
        }
        else do {
          found \<leftarrow> search_global name P;
          let P = P\<lparr>current_id := found\<rparr>;
          if current_id P \<noteq> None then do {
            item \<leftarrow> item_at (current_id P) P;
            Some (True, if \<not> it_is_var_initialized item then REPORT_ERROR ERR_UNDEFINED_VARIABLE P else P)
          }
          else Some (False, REPORT_ERROR ERR_UNDEFINED_VARIABLE P)
        }
      }
      else Some (False, P))"

definition process_operand :: "symstack_data \<Rightarrow> parser \<Rightarrow> (symstack_data \<times> parser) c" where
  "process_operand operand P = do {
     let expr_symbol = (DEFINE_EXPR_SYMBOL P)\<lparr>sym_token := sym_token operand,
           sym_is_literal := is_literal operand,
           sym_is_identifier := (tok_type (sym_token operand) = TOKEN_IDENTIFIER)\<rparr>;
     if \<not> is_terminal operand then Some (operand, P)
     else do {
       (expr_symbol, P) \<leftarrow>
         (if tok_type (sym_token operand) = TOKEN_IDENTIFIER then do {
            let P = set_is_all_literals False P;
            (defined, P) \<leftarrow> id_is_defined (sym_token operand) P;
            if defined then do {
              item \<leftarrow> item_at (current_id P) P;
              Some (set_nilable (it_is_nillable item) (set_expr_type (it_type item) expr_symbol), P)
            } else Some (expr_symbol, P)
          }
          else if is_operand operand
          then Some (set_expr_type (convert_to_expr_type (tok_type (sym_token operand))) expr_symbol, P)
          else Some (expr_symbol, P));
       P \<leftarrow> generate (\<lambda>env. code_generator_push env (sym_token operand)) P;
       Some (expr_symbol, P)
     }
   }"

section \<open>Operations\<close>

text \<open>The two operands are returned with the types they have after the conversion.\<close>

definition convert_if_retypeable ::
  "symstack_data \<Rightarrow> symstack_data \<Rightarrow> parser \<Rightarrow> (symstack_data \<times> symstack_data \<times> parser) c" where
  "convert_if_retypeable operand1 operand2 P =
     (let first_is_retypeable = (compare_operand_with_type operand1 T_integer \<or> compare_operand_with_type operand1 T_double)
            \<and> nilable (sym_expr_res operand1) = False;
          second_is_retypeable = (compare_operand_with_type operand2 T_integer \<or> compare_operand_with_type operand2 T_double)
            \<and> nilable (sym_expr_res operand2) = False
      in if first_is_retypeable \<and> second_is_retypeable then
           (if sym_is_literal operand1 \<and> compare_operand_with_type operand1 T_integer then do {
              P \<leftarrow> generate (\<lambda>_. code_generator_int2doubles 1) P;
              Some (set_expr_type T_double operand1, operand2, P)
            }
            else if sym_is_literal operand2 \<and> compare_operand_with_type operand2 T_integer then do {
              P \<leftarrow> generate (\<lambda>_. code_generator_int2doubles 0) P;
              Some (operand1, set_expr_type T_double operand2, P)
            }
            else Some (operand1, operand2, REPORT_ERROR ERR_INCOMPATIBILE_TYPE P))
         else Some (operand1, operand2, REPORT_ERROR ERR_INCOMPATIBILE_TYPE P))"

definition process_division :: "symstack_data \<Rightarrow> symstack_data \<Rightarrow> parser \<Rightarrow> (symstack_data \<times> parser) c" where
  "process_division first_operand second_operand P =
     (let expr_symbol = set_expr_type (if expr_type (sym_expr_res first_operand) = T_integer then T_integer else T_double)
            ((DEFINE_EXPR_SYMBOL P)\<lparr>sym_is_identifier := False,
               sym_is_literal := sym_is_literal first_operand \<and> sym_is_literal second_operand\<rparr>)
      in if \<not> compare_types_strict first_operand second_operand
         then Some (expr_symbol, REPORT_ERROR ERR_INCOMPATIBILE_TYPE P)
         else if compare_operand_with_type second_operand T_integer \<and> int_val_is_0 P (sym_token second_operand)
         then Some (expr_symbol, REPORT_ERROR ERR_SEMANTIC P)
         else if \<not> compare_operand_with_type second_operand T_integer \<and>
           compare_operand_with_type second_operand T_double \<and> double_val_is_0 P (sym_token second_operand)
         then Some (expr_symbol, REPORT_ERROR ERR_SEMANTIC P)
         else do {
           P \<leftarrow> generate (\<lambda>_. code_generator_operations TOKEN_DIV (compare_operand_with_type expr_symbol T_integer)) P;
           Some (expr_symbol, P)
         })"

definition process_concatenation :: "symbol_arr \<Rightarrow> parser \<Rightarrow> (symstack_data \<times> parser) c" where
  "process_concatenation sym_arr P = do {
     first_operand \<leftarrow> arr_at sym_arr 0;
     operator \<leftarrow> arr_at sym_arr 1;
     second_operand \<leftarrow> arr_at sym_arr 2;
     let expr_symbol = set_expr_type T_string ((DEFINE_EXPR_SYMBOL P)\<lparr>sym_is_identifier := False,
           sym_is_literal := sym_is_literal first_operand \<and> sym_is_literal first_operand\<rparr>);
     if tok_type (sym_token operator) \<noteq> TOKEN_ADD then Some (expr_symbol, REPORT_ERROR ERR_INCOMPATIBILE_TYPE P)
     else if compare_types_strict first_operand second_operand then do {
       P \<leftarrow> generate (\<lambda>_. code_generator_concats) P;
       Some (expr_symbol, P)
     }
     else Some (expr_symbol, REPORT_ERROR ERR_INCOMPATIBILE_TYPE P)
   }"

definition process_arithmetic_operation :: "symbol_arr \<Rightarrow> parser \<Rightarrow> (symstack_data \<times> parser) c" where
  "process_arithmetic_operation sym_arr P = do {
     first_operand \<leftarrow> arr_at sym_arr 0;
     s1 \<leftarrow> arr_at sym_arr 1;
     let oper = sym_token s1;
     second_operand \<leftarrow> arr_at sym_arr 2;
     let expr_symbol = (DEFINE_EXPR_SYMBOL P)\<lparr>
           sym_is_literal := sym_is_literal first_operand \<and> sym_is_literal second_operand, sym_is_identifier := False\<rparr>;
     (first_operand, second_operand, P) \<leftarrow>
       (if \<not> compare_types_strict first_operand second_operand \<and> (sym_is_literal first_operand \<or> sym_is_literal second_operand)
        then convert_if_retypeable first_operand second_operand P
        else Some (first_operand, second_operand, P));
     if is_identifier first_operand \<and> is_identifier second_operand \<and> \<not> compare_types_strict first_operand second_operand
     then Some (expr_symbol, REPORT_ERROR ERR_INCOMPATIBILE_TYPE P)
     else if operand_is_nilable first_operand \<or> operand_is_nilable second_operand
     then Some (expr_symbol, REPORT_ERROR ERR_INCOMPATIBILE_TYPE P)
     else if compare_operand_with_type first_operand T_string \<or> compare_operand_with_type second_operand T_string
     then process_concatenation sym_arr P
     else if tok_type oper = TOKEN_DIV then process_division first_operand second_operand P
     else if compare_types_strict first_operand second_operand \<and>
       \<not> (compare_operand_with_type first_operand T_integer \<or> compare_operand_with_type first_operand T_double)
     then Some (expr_symbol, REPORT_ERROR ERR_INCOMPATIBILE_TYPE P)
     else do {
       let expr_symbol = (if compare_types_strict first_operand second_operand
             then set_expr_type (expr_type (sym_expr_res first_operand)) expr_symbol else expr_symbol);
       let expr_symbol =
             (if compare_operand_with_type first_operand T_double \<or> compare_operand_with_type second_operand T_double
              then set_expr_type T_double expr_symbol
              else if expr_type (sym_expr_res first_operand) = T_integer \<and> compare_types_strict first_operand second_operand
              then set_expr_type T_integer expr_symbol
              else expr_symbol);
       P \<leftarrow> generate (\<lambda>_. code_generator_operations (tok_type oper) (compare_operand_with_type expr_symbol T_integer)) P;
       Some (expr_symbol, P)
     }
   }"

text \<open>
  \<open>a ?? b\<close>: the types must agree unless \<open>a\<close> is \<open>nil\<close>, an integer literal on the right is
  converted, and \<open>a\<close> must be nilable and \<open>b\<close> not.
\<close>

definition process_nil_check ::
  "symstack_data \<Rightarrow> symstack_data \<Rightarrow> symstack_data \<Rightarrow> parser \<Rightarrow> (symstack_data \<times> parser) c" where
  "process_nil_check expr_symbol first_operand second_operand P =
     (let differ = expr_type (sym_expr_res first_operand) \<noteq> T_nil \<and>
            expr_type (sym_expr_res first_operand) \<noteq> expr_type (sym_expr_res second_operand);
          retype = sym_is_literal second_operand \<and> compare_operand_with_type first_operand T_double \<and>
            compare_operand_with_type second_operand T_integer
      in if differ \<and> \<not> retype then Some (expr_symbol, REPORT_ERROR ERR_INCOMPATIBILE_TYPE P)
         else do {
           (second_operand, P) \<leftarrow>
             (if differ then do {
                P \<leftarrow> generate (\<lambda>_. code_generator_int2doubles 0) P;
                Some (set_expr_type T_double second_operand, P)
              } else Some (second_operand, P));
           if expr_type (sym_expr_res first_operand) \<noteq> T_nil \<and>
             (\<not> nilable (sym_expr_res first_operand) \<or> nilable (sym_expr_res second_operand))
           then Some (expr_symbol, REPORT_ERROR ERR_INCOMPATIBILE_TYPE P)
           else do {
             let expr_symbol = set_expr_type
                   (if compare_operand_with_type first_operand T_nil then expr_type (sym_expr_res second_operand)
                    else expr_type (sym_expr_res first_operand)) expr_symbol;
             P \<leftarrow> generate (\<lambda>_. code_generator_nil_check (cond_uid P)) P;
             Some (set_nilable False expr_symbol, P\<lparr>cond_uid := cond_uid P + 1\<rparr>)
           }
         })"

definition process_relational_operation :: "symbol_arr \<Rightarrow> parser \<Rightarrow> (symstack_data \<times> parser) c" where
  "process_relational_operation sym_arr P = do {
     first_operand \<leftarrow> arr_at sym_arr 0;
     s1 \<leftarrow> arr_at sym_arr 1;
     let oper = sym_token s1;
     second_operand \<leftarrow> arr_at sym_arr 2;
     let expr_symbol = set_expr_type T_bool ((DEFINE_EXPR_SYMBOL P)\<lparr>sym_is_identifier := False,
           sym_is_literal := sym_is_literal first_operand \<and> sym_is_literal second_operand\<rparr>);
     let first_is_nil = compare_operand_with_type first_operand T_nil;
     let second_is_nil = compare_operand_with_type second_operand T_nil;
     if tok_type oper \<noteq> TOKEN_NIL_CHECK \<and> (first_is_nil \<or> second_is_nil) \<and>
       (if first_is_nil then \<not> operand_is_nilable second_operand else \<not> operand_is_nilable first_operand)
     then Some (expr_symbol, REPORT_ERROR ERR_INCOMPATIBILE_TYPE P)
     else if \<not> (tok_type oper \<noteq> TOKEN_NIL_CHECK \<and> (first_is_nil \<or> second_is_nil)) \<and>
       \<not> compare_types_strict first_operand second_operand \<and> tok_type oper \<noteq> TOKEN_NIL_CHECK \<and>
       \<not> (sym_is_literal first_operand \<or> sym_is_literal second_operand)
     then Some (expr_symbol, REPORT_ERROR ERR_INCOMPATIBILE_TYPE P)
     else do {
       (first_operand, second_operand, P) \<leftarrow>
         (if \<not> (tok_type oper \<noteq> TOKEN_NIL_CHECK \<and> (first_is_nil \<or> second_is_nil)) \<and>
             \<not> compare_types_strict first_operand second_operand \<and> tok_type oper \<noteq> TOKEN_NIL_CHECK
          then convert_if_retypeable first_operand second_operand P
          else Some (first_operand, second_operand, P));
       if tok_type oper = TOKEN_NIL_CHECK then process_nil_check expr_symbol first_operand second_operand P
       else do {
         P \<leftarrow> generate (\<lambda>_. code_generator_operations (tok_type oper) False) P;
         Some (expr_symbol, P)
       }
     }
   }"

definition process_parenthesis :: "symbol_arr \<Rightarrow> parser \<Rightarrow> (symstack_data \<times> parser) c" where
  "process_parenthesis sym_arr P = do {
     s1 \<leftarrow> arr_at sym_arr 1;
     Some (set_expr_type (expr_type (sym_expr_res s1))
       ((DEFINE_EXPR_SYMBOL P)\<lparr>sym_is_identifier := False, sym_is_literal := sym_is_literal s1\<rparr>), P)
   }"

text \<open>\<open>E!\<close>; the flags \<open>is_literal\<close> and \<open>is_identifier\<close> of the result are left unset.\<close>

definition process_not_nil :: "symstack_data \<Rightarrow> parser \<Rightarrow> symstack_data \<times> parser" where
  "process_not_nil s0 P =
     (let expr_symbol = (DEFINE_EXPR_SYMBOL P)\<lparr>sym_token := sym_token s0\<rparr>;
          P = (if \<not> sym_is_identifier s0 then REPORT_ERROR ERR_INCOMPATIBILE_TYPE P else P);
          expr_symbol = set_expr_type (expr_type (sym_expr_res s0)) expr_symbol
      in if nilable (sym_expr_res s0) then (set_nilable False expr_symbol, P)
         else (set_nilable False (set_expr_type T_undefined expr_symbol), REPORT_ERROR ERR_INCOMPATIBILE_TYPE P))"

section \<open>Reductions\<close>

definition push_reduced_symbol_on_stack ::
  "symstack \<Rightarrow> symbol_arr \<Rightarrow> prec_rule \<Rightarrow> parser \<Rightarrow> (symstack \<times> parser) c" where
  "push_reduced_symbol_on_stack stack sym_arr rule P =
     (let push = (\<lambda>(expr_symbol, P). Some (push_symbol stack expr_symbol P));
          arithmetic = do { r \<leftarrow> process_arithmetic_operation sym_arr P; push r };
          relational = do { r \<leftarrow> process_relational_operation sym_arr P; push r }
      in case rule of
           RULE_OPERAND \<Rightarrow> do { s0 \<leftarrow> arr_at sym_arr 0; r \<leftarrow> process_operand s0 P; push r }
         | RULE_E_NOT_NIL \<Rightarrow> do { s0 \<leftarrow> arr_at sym_arr 0; push (process_not_nil s0 P) }
         | RULE_E_PLUS_E \<Rightarrow> arithmetic | RULE_E_MINUS_E \<Rightarrow> arithmetic
         | RULE_E_MUL_E \<Rightarrow> arithmetic | RULE_E_DIV_E \<Rightarrow> arithmetic
         | RULE_E_LT_E \<Rightarrow> relational | RULE_E_LEQ_E \<Rightarrow> relational | RULE_E_GT_E \<Rightarrow> relational
         | RULE_E_GEQ_E \<Rightarrow> relational | RULE_E_EQ_E \<Rightarrow> relational | RULE_E_NEQ_E \<Rightarrow> relational
         | RULE_E_IS_NIL_E \<Rightarrow> relational
         | RULE_PARL_E_PARR \<Rightarrow> do { r \<leftarrow> process_parenthesis sym_arr P; push r }
         | RULE_NO_RULE \<Rightarrow> Some (stack, P))"

text \<open>
  The error symbol. The type chosen for two adjacent operands is overwritten by that of the
  second one, as in the code; \<open>arr[1]\<close> is read also when the array has one symbol.
\<close>

definition reduce_error :: "symstack \<Rightarrow> symbol_arr \<Rightarrow> parser \<Rightarrow> (symstack \<times> parser) c" where
  "reduce_error stack sym_arr P = do {
     let expr_symbol = DEFINE_EXPR_SYMBOL P;
     let with_type = (\<lambda>t. expr_symbol\<lparr>sym_token := (sym_token expr_symbol)\<lparr>tok_type := tok_type (sym_token t)\<rparr>\<rparr>);
     (expr_symbol, P) \<leftarrow>
       (if arr sym_arr = Arr_null then Some (expr_symbol, P)
        else do {
          s0 \<leftarrow> arr_at sym_arr 0;
          if is_operand s0 then do {
            s1 \<leftarrow> arr_at sym_arr 1;
            if tok_type (sym_token s1) = TOKEN_R_PAR then Some (with_type s0, REPORT_ERROR ERR_SYNTAX P)
            else if is_operand s1 then Some (with_type s1, REPORT_ERROR ERR_SYNTAX P)
            else if tok_type (sym_token s1) = TOKEN_L_PAR then Some (with_type s0, REPORT_ERROR ERR_SYNTAX P)
            else if is_binary_operator s1 then Some (with_type s0, REPORT_ERROR ERR_SYNTAX P)
            else Some (with_type s0, P)
          }
          else if tok_type (sym_token s0) = TOKEN_L_PAR then do {
            s1 \<leftarrow> arr_at sym_arr 1;
            if is_operand s1 then Some (with_type s1, REPORT_ERROR ERR_SYNTAX P)
            else Some (expr_symbol, REPORT_ERROR ERR_SYNTAX P)
          }
          else Some (expr_symbol, REPORT_ERROR ERR_SYNTAX P)
        });
     expr_symbol \<leftarrow> strcpy_symbol expr_symbol ''ERR'';
     Some (push_symbol stack expr_symbol P)
   }"

definition reduce :: "symstack \<Rightarrow> parser \<Rightarrow> (symstack \<times> parser) c" where
  "reduce stack P = do {
     (stack, sym_arr, P) \<leftarrow> symbol_arr_move_expr_to_arr stack symbol_arr_init P;
     sym_arr \<leftarrow> symbol_arr_reverse sym_arr;
     rule \<leftarrow> get_rule sym_arr;
     if rule = RULE_NO_RULE then
       (if \<not> find_closest_eol stack then do {
          (stack, P) \<leftarrow> reduce_error stack sym_arr P;
          let (_, P) = error_code_handler ERR_SYNTAX P;
          sym_arr \<leftarrow> symbol_arr_free sym_arr;
          _ \<leftarrow> symbol_arr_free sym_arr;
          Some (stack, P)
        }
        else do {
          (stack, P) \<leftarrow> reduce_to_eol stack P;
          let P = set_is_multiline_expr True P;
          P \<leftarrow> step_back P;
          let P = P\<lparr>curr_tok := EMPTY_TOKEN (preceding_eol (curr_tok P))\<rparr>;
          _ \<leftarrow> symbol_arr_free sym_arr;
          Some (stack, P)
        })
     else do {
       (stack, P) \<leftarrow> push_reduced_symbol_on_stack stack sym_arr rule P;
       _ \<leftarrow> symbol_arr_free sym_arr;
       Some (stack, P)
     }
   }"

definition expr_error :: "symstack \<Rightarrow> parser \<Rightarrow> (symstack \<times> parser) c" where
  "expr_error stack P = do {
     (stack, sym_arr, P) \<leftarrow> symbol_arr_move_expr_to_arr stack symbol_arr_init P;
     sym_arr \<leftarrow> symbol_arr_reverse sym_arr;
     (stack, P) \<leftarrow> reduce_error stack sym_arr P;
     _ \<leftarrow> symbol_arr_free sym_arr;
     Some (stack, P)
   }"

section \<open>The analysis of an expression\<close>

definition verify_lhs_type :: "symstack_data \<Rightarrow> parser \<Rightarrow> (symstack_data \<times> parser) c" where
  "verify_lhs_type final_expr P = do {
     (final_expr, P) \<leftarrow>
       (if lhs_id P \<noteq> None \<and> get_is_all_literals P then do {
          lhs \<leftarrow> item_at (lhs_id P) P;
          if it_type lhs \<noteq> expr_type (sym_expr_res final_expr) \<and> it_type lhs = T_double \<and>
            expr_type (sym_expr_res final_expr) = T_integer
          then do {
            P \<leftarrow> generate (\<lambda>_. code_generator_int2doubles 0) P;
            Some (set_expr_type T_double final_expr, P)
          }
          else Some (final_expr, P)
        }
        else Some (final_expr, P));
     Some (final_expr, set_is_all_literals True P)
   }"

text \<open>
  \<open>GET_TOKEN\<close> inside \<open>expr\<close> returns from \<open>expr\<close>; the stack that is local to it comes with the
  code that is returned.
\<close>

definition next_token :: "symstack \<Rightarrow> parser \<Rightarrow> (nat \<times> symstack \<times> parser) c" where
  "next_token stack P = do { (res, P) \<leftarrow> GET_TOKEN success P; Some (res, stack, P) }"

text \<open>The body of the loop, its condition, and the loop.\<close>

definition expr_step :: "symstack \<Rightarrow> parser \<Rightarrow> (nat \<times> symstack \<times> parser) c" where
  "expr_step stack P =
     (case get_prec_table_operation stack (curr_tok P) of
        PREC_E \<Rightarrow> do { (stack, P) \<leftarrow> equal_shift stack (curr_tok P) P; next_token stack P }
      | PREC_S \<Rightarrow> do { (stack, P) \<leftarrow> shift stack (curr_tok P) P; next_token stack P }
      | PREC_R \<Rightarrow> do { (stack, P) \<leftarrow> reduce stack P; Some (EXIT_SUCCESS, stack, P) }
      | PREC_X \<Rightarrow> do {
          sym_data \<leftarrow> convert_token_to_data (stale P) (curr_tok P);
          let (stack, P) = push_symbol stack sym_data P;
          if find_closest_eol stack then do {
            (stack, P) \<leftarrow> reduce_to_eol stack P;
            let (_, stack) = symstack_pop (stale P) stack;
            let P = set_is_multiline_expr True P;
            P \<leftarrow> step_back P;
            Some (EXIT_SUCCESS, stack, P\<lparr>curr_tok := EMPTY_TOKEN False\<rparr>)
          }
          else do { (stack, P) \<leftarrow> expr_error stack P; next_token stack P }
        })"

definition expr_finished :: "symstack \<Rightarrow> parser \<Rightarrow> bool c" where
  "expr_finished stack P = do {
     i \<leftarrow> get_closest_terminal stack;
     Some (convert_term_to_index (stack ! i) = INDEX_DOLLAR \<and> convert_token_to_index (curr_tok P) = INDEX_DOLLAR)
   }"

partial_function (option) expr_loop :: "symstack \<Rightarrow> parser \<Rightarrow> (nat \<times> symstack \<times> parser) c" where
  "expr_loop stack P = do {
     (res, stack, P) \<leftarrow> expr_step stack P;
     if res \<noteq> EXIT_SUCCESS then Some (res, stack, P)
     else do {
       finished \<leftarrow> expr_finished stack P;
       if finished then Some (EXIT_SUCCESS, stack, P) else expr_loop stack P
     }
   }"

declare expr_loop.simps [code]

text \<open>What \<open>expr\<close> does after the loop.\<close>

definition expr_end :: "symstack_data \<Rightarrow> rule" where
  "expr_end final_expr P = do {
     (final_expr, P) \<leftarrow> verify_lhs_type final_expr P;
     let P = P\<lparr>p_expr_res := sym_expr_res final_expr\<rparr>;
     Some (error_code_handler EXIT_SUCCESS P)
   }"

definition expr :: rule where
  "expr P = do {
     (stack, P) \<leftarrow> push_initial_sym init_symstack P;
     GET_TOKEN (\<lambda>P. do {
       (res, stack, P) \<leftarrow> expr_loop stack P;
       if res \<noteq> EXIT_SUCCESS then Some (res, P)
       else do {
         let (final_expr, stack) = symstack_pop (stale P) stack;
         let P = (if \<not> symstack_is_empty stack then P else REPORT_ERROR ERR_SYNTAX P);
         if get_is_multiline_expr P then GET_TOKEN (expr_end final_expr) (set_is_multiline_expr False P)
         else expr_end final_expr P
       }
     }) P
   }"

end
