(* ===== verification/Expression_Steps.thy ===== *)
theory Expression_Steps
  imports Expression Codegen_Output
begin

text \<open>
  The steps of the analysis of expressions: how a handle is taken from the stack, what each
  reduction leaves on the stack and prints, and how shifts and reductions follow each other
  in the loop of \<open>expr\<close>. Expressions are those of the types \<open>Int\<close> and \<open>Bool\<close> without
  conversions; operands are integer literals and variables.
\<close>

section \<open>Handles\<close>

lemma budget_same [simp]: "p_budget P = None \<Longrightarrow> P\<lparr>p_budget := None\<rparr> = P"
  by (cases P) simp

text \<open>The symbols above a marked terminal, at most three, are the handle; the mark is removed.\<close>

lemma move_handle:
  assumes "is_handleBegin d" "p_budget P = None" "length xs \<le> MAX_EXPR_SIZE" "xs \<noteq> []"
    "\<forall>x\<in>set xs. \<not> is_handleBegin x"
  shows "symbol_arr_move_expr_to_arr (xs @ d # st) symbol_arr_init P =
    Some (d\<lparr>is_handleBegin := False\<rparr> # st, \<lparr>arr = Arr_block xs, arr_size = length xs\<rparr>, P)"
proof -
  have more: "move_loop x (ys @ d # st) \<lparr>arr = Arr_block zs, arr_size = length zs\<rparr> P =
      Some (Some d, st, \<lparr>arr = Arr_block (zs @ x # ys), arr_size = length (zs @ x # ys)\<rparr>, P)"
    if "zs \<noteq> []" "length zs + Suc (length ys) \<le> MAX_EXPR_SIZE" "\<forall>y\<in>set (x # ys). \<not> is_handleBegin y" for x ys zs
    using that
  proof (induction ys arbitrary: x zs)
    case Nil
    then show ?case using assms(1,2)
      by (cases st) (simp_all add: symbol_arr_append_def)
  next
    case (Cons y ys)
    then show ?case using Cons.IH [of "zs @ [x]" y] assms(2)
      by (simp add: symbol_arr_append_def)
  qed
  obtain x ys where xs: "xs = x # ys" using assms(4) by (cases xs) auto
  have "move_loop x (ys @ d # st) symbol_arr_init P =
      Some (Some d, st, \<lparr>arr = Arr_block xs, arr_size = length xs\<rparr>, P)"
  proof (cases ys)
    case Nil
    then show ?thesis using assms
      by (cases st) (simp_all add: xs symbol_arr_append_def symbol_arr_init_def MAX_EXPR_SIZE_def)
  next
    case (Cons y zs)
    then show ?thesis using assms more [of "[x]" zs y]
      by (simp add: xs symbol_arr_append_def symbol_arr_init_def MAX_EXPR_SIZE_def)
  qed
  then show ?thesis
    by (simp add: symbol_arr_move_expr_to_arr_def xs push_symbol_def assms(2))
qed

text \<open>Swapping from both ends reverses the array.\<close>

declare reverse_loop.simps [simp del]

lemma reverse_loop_rev:
  "length xs = length zs \<Longrightarrow> reverse_loop (int (length xs)) (int (length xs + length ys) - 1) (xs @ ys @ zs) =
    Some (xs @ rev ys @ zs)"
proof (induction "length ys" arbitrary: xs ys zs rule: less_induct)
  case less
  show ?case
  proof (cases "length ys < 2")
    case True
    then have "rev ys = ys" by (cases ys) auto
    then show ?thesis using True by (subst reverse_loop.simps) simp
  next
    case False
    then obtain a b ms where ys: "ys = a # ms @ [b]"
      by (metis One_nat_def Suc_1 append_butlast_last_id length_Cons length_append_singleton list.exhaust list.size(3) not_less_eq zero_less_Suc)
    have i: "int (length xs) + 1 = int (length (xs @ [b]))" by simp
    have j: "int (length xs + length ys) - 1 - 1 = int (length (xs @ [b]) + length ms) - 1" by (simp add: ys)
    have u: "(xs @ ys @ zs)[length xs := b, Suc (length xs + length ms) := a] = (xs @ [b]) @ ms @ (a # zs)"
      by (simp add: ys list_update_append)
    have n: "(xs @ ys @ zs) ! length xs = a" "(xs @ ys @ zs) ! Suc (length xs + length ms) = b"
      by (simp_all add: ys nth_append)
    have "reverse_loop (int (length xs)) (int (length xs + length ys) - 1) (xs @ ys @ zs) =
      reverse_loop (int (length (xs @ [b]))) (int (length (xs @ [b]) + length ms) - 1) ((xs @ [b]) @ ms @ (a # zs))"
      by (subst reverse_loop.simps) (use u n in \<open>simp add: ys nat_add_distrib add.commute [of 1]\<close>)
    also have "\<dots> = Some ((xs @ [b]) @ rev ms @ (a # zs))"
      by (rule less.hyps) (simp_all add: ys less.prems)
    finally show ?thesis by (simp add: ys)
  qed
qed

lemma symbol_arr_reverse_rev:
  "symbol_arr_reverse \<lparr>arr = Arr_block xs, arr_size = length xs\<rparr> = Some \<lparr>arr = Arr_block (rev xs), arr_size = length xs\<rparr>"
proof -
  have "reverse_loop 0 (int (length xs) - 1) xs = Some (rev xs)"
    using reverse_loop_rev [of "[]" "[]" xs] by simp
  moreover have "rev xs = xs" if "\<not> 1 < int (length xs)"
    using that by (cases xs) auto
  ultimately show ?thesis by (simp add: symbol_arr_reverse_def)
qed

section \<open>What an expression leaves alone\<close>

text \<open>
  The analysis moves on in the buffer, prints code, and uses \<open>current_id\<close>,
  \<open>is_all_literals\<close> and \<open>is_multiline_expr\<close>; everything else in the state of the parser stays.
\<close>

definition expr_frame :: "parser \<Rightarrow> parser \<Rightarrow> bool" where
  "expr_frame P P' \<longleftrightarrow>
     in_function P' = in_function P \<and> in_func_head P' = in_func_head P \<and> in_func_body P' = in_func_body P \<and>
     in_param P' = in_param P \<and> return_found P' = return_found P \<and> first_stmt P' = first_stmt P \<and>
     in_cond P' = in_cond P \<and> in_loop P' = in_loop P \<and> param_cnt P' = param_cnt P \<and> cond_uid P' = cond_uid P \<and>
     loop_uid P' = loop_uid P \<and> current_arg P' = current_arg P \<and> lhs_id P' = lhs_id P \<and>
     last_func_id P' = last_func_id P \<and> rhs_id P' = rhs_id P \<and> global_symtab P' = global_symtab P \<and>
     p_stack P' = p_stack P \<and> p_tmp P' = p_tmp P \<and> p_nil P' = p_nil P \<and> p_heap P' = p_heap P \<and>
     p_lex P' = p_lex P \<and> expr_err P' = expr_err P \<and>
     p_budget P' = p_budget P \<and> stale P' = stale P \<and> bytes_zero P' = bytes_zero P"

lemma expr_frame_refl [simp]: "expr_frame P P"
  by (simp add: expr_frame_def)

lemma expr_frame_trans [trans]: "expr_frame P P1 \<Longrightarrow> expr_frame P1 P2 \<Longrightarrow> expr_frame P P2"
  by (simp add: expr_frame_def)

lemma expr_frame_upd [simp]:
  "expr_frame P (P'\<lparr>p_cg := G\<rparr>) = expr_frame P P'"
  "expr_frame P (P'\<lparr>current_id := c\<rparr>) = expr_frame P P'"
  "expr_frame P (P'\<lparr>is_all_literals := l\<rparr>) = expr_frame P P'"
  "expr_frame P (P'\<lparr>p_expr_res := r\<rparr>) = expr_frame P P'"
  "expr_frame P (P'\<lparr>curr_tok := t\<rparr>) = expr_frame P P'"
  "expr_frame P (P'\<lparr>p_buffer := B\<rparr>) = expr_frame P P'"
  "expr_frame P (P'\<lparr>is_multiline_expr := m\<rparr>) = expr_frame P P'"
  by (simp_all add: expr_frame_def)

lemma expr_frame_advance [simp]: "expr_frame P (advance P') = expr_frame P P'"
  by (simp add: advance_def Let_def)

text \<open>The effect on the state and on the generated code.\<close>

definition wrote :: "event list \<Rightarrow> parser \<Rightarrow> parser \<Rightarrow> bool" where
  "wrote es P P' \<longleftrightarrow> expr_frame P P' \<and> writes es (p_cg P) (p_cg P') \<and> func_param_id (p_cg P') = func_param_id (p_cg P)"

lemma wrote_trans: "wrote es P P1 \<Longrightarrow> wrote es' P1 P2 \<Longrightarrow> wrote (es @ es') P P2"
  unfolding wrote_def using expr_frame_trans writes_trans by auto

lemma wrote_refl: "cg_wf (p_cg P) \<Longrightarrow> wrote [] P P"
  by (simp add: wrote_def writes_refl)

lemma wrote_upd [simp]:
  "wrote es P (P'\<lparr>current_id := c\<rparr>) = wrote es P P'"
  "wrote es P (P'\<lparr>is_all_literals := l\<rparr>) = wrote es P P'"
  "wrote es P (P'\<lparr>p_expr_res := r\<rparr>) = wrote es P P'"
  "wrote es P (P'\<lparr>curr_tok := t\<rparr>) = wrote es P P'"
  "wrote es P (P'\<lparr>p_buffer := B\<rparr>) = wrote es P P'"
  "wrote es P (P'\<lparr>is_multiline_expr := m\<rparr>) = wrote es P P'"
  by (simp_all add: wrote_def)

lemma wrote_advance [simp]: "wrote es P (advance P') = wrote es P P'"
  by (simp add: advance_def Let_def)

lemma wrote_cg_wf: "wrote es P P' \<Longrightarrow> cg_wf (p_cg P')"
  by (simp add: wrote_def writes_def)

lemma generate_prints:
  assumes "prints UNIV 0 (f (env_of P)) es" "cg_wf (p_cg P)"
  obtains G where "generate f P = Some (P\<lparr>p_cg := G\<rparr>)" "wrote es P (P\<lparr>p_cg := G\<rparr>)"
proof -
  have "unat (for_open (p_cg P)) + 0 < 2 ^ 32" using unsigned_less [of "for_open (p_cg P)"] by simp
  then obtain G where "f (env_of P) (p_cg P) = Some G" "writes es (p_cg P) G" "func_param_id G = func_param_id (p_cg P)"
    using printsE [OF assms] by blast
  then show ?thesis using that by (simp add: generate_def wrote_def)
qed

section \<open>Operands\<close>

definition int_token_of :: "token \<Rightarrow> 32 word \<Rightarrow> bool" where
  "int_token_of t w \<longleftrightarrow> tok_type t = TOKEN_INT \<and> tok_value t = V_int w"

text \<open>The item a name denotes in an expression: the search of \<open>id_is_defined\<close>.\<close>

definition local_lookup :: "parser \<Rightarrow> string \<Rightarrow> nat option c" where
  "local_lookup P name =
     (if lhs_id P \<noteq> None then do {
        lhs \<leftarrow> item_at (lhs_id P) P;
        if \<not> it_is_var_initialized lhs \<and> strcmp name (it_name lhs) = 0
        then do { stack \<leftarrow> stack_next P; search_stack stack name P }
        else search_stack (p_stack P) name P
      } else search_stack (p_stack P) name P)"

definition name_lookup :: "parser \<Rightarrow> string \<Rightarrow> nat option c" where
  "name_lookup P name = do {
     found \<leftarrow> local_lookup P name;
     if found \<noteq> None then Some found else search_global name P
   }"

lemma name_lookup_frame: "expr_frame P P' \<Longrightarrow> name_lookup P' = name_lookup P"
proof -
  assume f: "expr_frame P P'"
  have q: "search_stack st name P' = search_stack st name P" "search_global name P' = search_global name P"
    "stack_next P' = stack_next P" "item_at q P' = item_at q P" "lhs_id P' = lhs_id P" "p_stack P' = p_stack P" for st name q
    using f by (simp_all add: expr_frame_def search_stack_def search_global_def stack_next_def item_at_def)
  show ?thesis unfolding fun_eq_iff name_lookup_def local_lookup_def q by simp
qed

lemma env_of_frame: "expr_frame P P' \<Longrightarrow> env_of P' = env_of P"
  by (simp add: env_of_def expr_frame_def)

text \<open>An initialised variable of type \<open>Int\<close>, and the text \<open>v\<close> it has in the generated code.\<close>

definition int_var :: "parser \<Rightarrow> token \<Rightarrow> string \<Rightarrow> bool" where
  "int_var P t v \<longleftrightarrow> (\<exists>name a it. tok_type t = TOKEN_IDENTIFIER \<and> tok_value t = V_string name \<and>
     name_lookup P name = Some (Some a) \<and> sh_items (p_heap P) a = Some it \<and> it_is_var_initialized it \<and>
     it_type it = T_integer \<and> \<not> it_is_nillable it \<and> plain v \<and>
     (\<forall>G. cg_wf G \<longrightarrow> var_ref (env_of P) name True G = Some (v, G)))"

lemma int_var_frame: "expr_frame P P' \<Longrightarrow> int_var P' = int_var P"
  using name_lookup_frame [of P P'] env_of_frame [of P P'] by (simp add: fun_eq_iff int_var_def expr_frame_def)

lemma id_is_defined_lookup:
  assumes "tok_type t = TOKEN_IDENTIFIER" "tok_value t = V_string name" "name_lookup P name = Some (Some a)"
    "sh_items (p_heap P) a = Some it" "it_is_var_initialized it"
  shows "id_is_defined t P = Some (True, P\<lparr>current_id := Some a\<rparr>)"
proof -
  have def: "id_is_defined t P = do {
      name \<leftarrow> tok_str t;
      found \<leftarrow> local_lookup P name;
      let P = P\<lparr>current_id := found\<rparr>;
      if current_id P \<noteq> None then do {
        item \<leftarrow> item_at (current_id P) P;
        Some (True, if \<not> it_is_var_initialized item then REPORT_ERROR ERR_UNDEFINED_VARIABLE P else P)
      }
      else do {
        found \<leftarrow> search_global name P;
        let P = P\<lparr>current_id := found\<rparr>;
        if current_id P \<noteq> None then do {
          item \<leftarrow> item_at (current_id P) P;
          Some (True, if \<not> it_is_var_initialized item then REPORT_ERROR ERR_UNDEFINED_VARIABLE P else P)
        }
        else Some (False, REPORT_ERROR ERR_UNDEFINED_VARIABLE P)
      }
    }"
    unfolding id_is_defined_def local_lookup_def using assms(1) by simp
  have same: "search_global k (P\<lparr>current_id := c\<rparr>) = search_global k P" for k c
    by (simp add: search_global_def)
  obtain found where found: "local_lookup P name = Some found" "(if found \<noteq> None then Some found else search_global name P) = Some (Some a)"
    using assms(3) by (auto simp: name_lookup_def bind_Some_iff)
  show ?thesis
    using found(2) assms(4,5) by (cases found) (simp_all add: def found(1) tok_str_def assms(2) item_at_def same)
qed

lemma prints_push_literal: "int_token_of t w \<Longrightarrow>
  prints Q k (code_generator_push E t) [Buffered (NL # ''PUSHS ''), Buffered (''int@'' @ print_d w), Buffered [NL]]"
proof -
  assume t: "int_token_of t w"
  then have p: "prints Q k (code_generator_print_value E t) [Buffered (''int@'' @ print_d w)]"
    using prints_int [of t w] by (simp add: int_token_of_def)
  have "prints Q k (run [BUFFER_PRINT (NL # ''PUSHS ''), code_generator_print_value E t, BUFFER_PRINT [NL]])
      ([Buffered (NL # ''PUSHS '')] @ [Buffered (''int@'' @ print_d w)] @ [Buffered [NL]] @ [])"
    by (intro prints_seq prints_Nil p prints_BUFFER_PRINT) simp_all
  moreover have "code_generator_push E t = run [BUFFER_PRINT (NL # ''PUSHS ''), code_generator_print_value E t, BUFFER_PRINT [NL]]"
    by (rule ext) (use t in \<open>simp add: code_generator_push_def int_token_of_def\<close>)
  ultimately show ?thesis by simp
qed

lemma prints_BUFFER_PRINT_var:
  assumes "\<forall>G. cg_wf G \<longrightarrow> var_ref E name i G = Some (v, G)" "plain (pre @ v @ post)"
  shows "prints Q k (BUFFER_PRINT_var pre E name i post) [Buffered (pre @ v @ post)]"
  using prints_BUFFER_PRINT [OF assms(2), of Q k] assms(1) by (auto simp: prints_def BUFFER_PRINT_var_def)

lemma prints_push_variable:
  assumes "int_var P t v"
  shows "prints Q k (code_generator_push (env_of P) t) [Buffered (NL # ''PUSHS ''), Buffered v, Buffered [NL]]"
proof -
  obtain name where n: "tok_type t = TOKEN_IDENTIFIER" "tok_value t = V_string name" "plain v"
    "\<forall>G. cg_wf G \<longrightarrow> var_ref (env_of P) name True G = Some (v, G)"
    using assms by (auto simp: int_var_def)
  have "code_generator_print_value (env_of P) t = BUFFER_PRINT_var [] (env_of P) name True []"
    by (rule ext) (simp add: code_generator_print_value_def n(1,2) tok_str_def)
  then have p: "prints Q k (code_generator_print_value (env_of P) t) [Buffered v]"
    using prints_BUFFER_PRINT_var [OF n(4), of "[]" "[]" Q k] n(3) by simp
  have "prints Q k (run [BUFFER_PRINT (NL # ''PUSHS ''), code_generator_print_value (env_of P) t, BUFFER_PRINT [NL]])
      ([Buffered (NL # ''PUSHS '')] @ [Buffered v] @ [Buffered [NL]] @ [])"
    by (intro prints_seq prints_Nil p prints_BUFFER_PRINT) simp_all
  moreover have "code_generator_push (env_of P) t =
      run [BUFFER_PRINT (NL # ''PUSHS ''), code_generator_print_value (env_of P) t, BUFFER_PRINT [NL]]"
    by (rule ext) (simp add: code_generator_push_def n(1))
  ultimately show ?thesis by simp
qed

section \<open>Reductions\<close>

text \<open>The symbol that stands for a value of type \<open>T\<close> on the stack.\<close>

definition value_symbol :: "ty \<Rightarrow> symstack_data \<Rightarrow> bool" where
  "value_symbol T e \<longleftrightarrow> \<not> is_terminal e \<and> \<not> is_handleBegin e \<and> sym_expr_res e = \<lparr>expr_type = T, nilable = False\<rparr>"

text \<open>
  The symbol of a computed value: an operation or an expression in parentheses leaves the empty
  token in it.
\<close>

definition computed :: "ty \<Rightarrow> symstack_data \<Rightarrow> bool" where
  "computed T e \<longleftrightarrow> value_symbol T e \<and> sym_token e = EMPTY_TOKEN False"

text \<open>A terminal that \<open>shift\<close> put on the stack.\<close>

definition terminal :: "token \<Rightarrow> symstack_data \<Rightarrow> bool" where
  "terminal t s \<longleftrightarrow> sym_token s = t \<and> is_terminal s \<and> \<not> is_handleBegin s"

definition unmark :: "symstack_data \<Rightarrow> symstack_data" where
  "unmark d = d\<lparr>is_handleBegin := False\<rparr>"

lemmas expr_symbol_defs = DEFINE_EXPR_SYMBOL_def set_expr_type_def set_nilable_def value_symbol_def

text \<open>An operand; the symbol keeps its token.\<close>

lemma reduce_operand:
  assumes "terminal t s" "is_handleBegin d" "p_budget P = None" "cg_wf (p_cg P)"
    "int_token_of t w \<and> text = ''int@'' @ print_d w \<or> int_var P t text"
  shows "\<exists>e P'. value_symbol T_integer e \<and> sym_token e = t \<and> reduce (s # d # st) P = Some (e # unmark d # st, P') \<and>
    wrote [Buffered (NL # ''PUSHS ''), Buffered text, Buffered [NL]] P P' \<and> p_buffer P' = p_buffer P \<and> curr_tok P' = curr_tok P \<and>
    is_multiline_expr P' = is_multiline_expr P"
proof -
  have h: "symbol_arr_move_expr_to_arr ([s] @ d # st) symbol_arr_init P =
      Some (unmark d # st, \<lparr>arr = Arr_block [s], arr_size = 1\<rparr>, P)"
    using move_handle [of d P "[s]" st] assms(1-3) by (simp add: terminal_def unmark_def MAX_EXPR_SIZE_def)
  have op: "is_operand s" using assms(1,5)
    by (auto simp: is_operand_def is_literal_def terminal_def int_token_of_def int_var_def)
  obtain P1 e where P1: "expr_frame P P1" "p_cg P1 = p_cg P" "p_buffer P1 = p_buffer P" "curr_tok P1 = curr_tok P"
    "is_multiline_expr P1 = is_multiline_expr P"
    "value_symbol T_integer e" "sym_token e = t"
    "process_operand s P = do { P \<leftarrow> generate (\<lambda>env. code_generator_push env t) P1; Some (e, P) }"
  proof (cases "tok_type t = TOKEN_IDENTIFIER")
    case True
    then obtain name a it where v: "tok_value t = V_string name"
      "name_lookup P name = Some (Some a)" "sh_items (p_heap P) a = Some it" "it_is_var_initialized it"
      "it_type it = T_integer" "\<not> it_is_nillable it"
      using assms(5) by (auto simp: int_var_def int_token_of_def)
    have fr: "expr_frame P (P\<lparr>is_all_literals := False\<rparr>)" by simp
    have "id_is_defined t (P\<lparr>is_all_literals := False\<rparr>) = Some (True, P\<lparr>is_all_literals := False, current_id := Some a\<rparr>)"
      using id_is_defined_lookup [OF True v(1), of "P\<lparr>is_all_literals := False\<rparr>"] name_lookup_frame [OF fr] v(2-4) by simp
    then show ?thesis
      using that [of "P\<lparr>is_all_literals := False, current_id := Some a\<rparr>"
          "set_nilable False (set_expr_type T_integer ((DEFINE_EXPR_SYMBOL P)\<lparr>sym_token := t, sym_is_literal := False, sym_is_identifier := True\<rparr>))"]
        True v(3,5,6) assms(1)
      by (simp add: process_operand_def terminal_def set_is_all_literals_def item_at_def expr_symbol_defs is_literal_def)
  next
    case False
    then have "int_token_of t w" using assms(5) by (auto simp: int_var_def)
    then show ?thesis
      using that [of P "set_expr_type T_integer ((DEFINE_EXPR_SYMBOL P)\<lparr>sym_token := t, sym_is_literal := True, sym_is_identifier := False\<rparr>)"]
        assms(1) op
      by (simp add: process_operand_def terminal_def expr_symbol_defs is_literal_def int_token_of_def convert_to_expr_type_def)
  qed
  have pr: "prints UNIV 0 (code_generator_push (env_of P1) t) [Buffered (NL # ''PUSHS ''), Buffered text, Buffered [NL]]"
    using assms(5) prints_push_literal prints_push_variable [of P1] int_var_frame [OF P1(1)] by auto
  obtain G where G: "generate (\<lambda>env. code_generator_push env t) P1 = Some (P1\<lparr>p_cg := G\<rparr>)"
    "wrote [Buffered (NL # ''PUSHS ''), Buffered text, Buffered [NL]] P1 (P1\<lparr>p_cg := G\<rparr>)"
    using generate_prints [where f = "\<lambda>env. code_generator_push env t" and P = P1, OF pr] P1(2) assms(4) by auto
  have b: "p_budget P1 = None" using P1(1) assms(3) by (simp add: expr_frame_def)
  have "reduce (s # d # st) P = Some (e # unmark d # st, P1\<lparr>p_cg := G\<rparr>)"
    using h symbol_arr_reverse_rev [of "[s]"] assms(1) op P1(8) G(1) b
    by (simp add: reduce_def get_rule_def arr_at_def terminal_def push_reduced_symbol_on_stack_def push_symbol_def symbol_arr_free_def)
  moreover have "wrote [Buffered (NL # ''PUSHS ''), Buffered text, Buffered [NL]] P (P1\<lparr>p_cg := G\<rparr>)"
    using G(2) P1(1,2) expr_frame_trans [OF P1(1)] by (simp add: wrote_def)
  ultimately show ?thesis using P1 by auto
qed

text \<open>The code of an operation.\<close>

definition operation_events :: "token_type \<Rightarrow> event list" where
  "operation_events oper = (case oper of
      TOKEN_ADD \<Rightarrow> [Buffered (nl ''ADDS'')] | TOKEN_SUB \<Rightarrow> [Buffered (nl ''SUBS'')]
    | TOKEN_MUL \<Rightarrow> [Buffered (nl ''MULS'')] | TOKEN_DIV \<Rightarrow> [Buffered (nl ''IDIVS'')]
    | TOKEN_LT \<Rightarrow> [Buffered (nl ''LTS'')] | TOKEN_GT \<Rightarrow> [Buffered (nl ''GTS'')]
    | TOKEN_EQ \<Rightarrow> [Buffered (nl ''EQS'')]
    | TOKEN_LEQ \<Rightarrow> [Buffered (nl ''GTS''), Buffered (nl ''NOTS'')]
    | TOKEN_GEQ \<Rightarrow> [Buffered (nl ''LTS''), Buffered (nl ''NOTS'')]
    | TOKEN_NEQ \<Rightarrow> [Buffered (nl ''EQS''), Buffered (nl ''NOTS'')]
    | _ \<Rightarrow> [])"

definition relations :: "token_type set" where
  "relations = {TOKEN_LT, TOKEN_GT, TOKEN_EQ, TOKEN_LEQ, TOKEN_GEQ, TOKEN_NEQ}"

lemma prints_operation: "i \<or> oper \<noteq> TOKEN_DIV \<Longrightarrow> prints Q k (code_generator_operations oper i) (operation_events oper)"
  using prints_operations [of Q k oper i] by (cases oper) (auto simp: operation_events_def)

lemma choose_binary:
  assumes "terminal t s" "is_binary_operator s"
  shows "choose_operator_rule s \<noteq> RULE_NO_RULE"
    "push_reduced_symbol_on_stack stack sym_arr (choose_operator_rule s) P = do {
       (e, P) \<leftarrow> (if tok_type t \<in> relations \<union> {TOKEN_NIL_CHECK} then process_relational_operation
           else process_arithmetic_operation) sym_arr P;
       Some (push_symbol stack e P)
     }"
  using assms by (cases "tok_type t"; simp add: choose_operator_rule_def push_reduced_symbol_on_stack_def
      terminal_def relations_def is_binary_operator_def)+

lemma binary_handle:
  assumes "value_symbol T a" "value_symbol T' b" "terminal t s" "is_handleBegin d" "p_budget P = None"
    "is_binary_operator s"
  shows "reduce (b # s # a # d # st) P = do {
    (e, P) \<leftarrow> (if tok_type t \<in> relations \<union> {TOKEN_NIL_CHECK} then process_relational_operation else process_arithmetic_operation)
       \<lparr>arr = Arr_block [a, s, b], arr_size = 3\<rparr> P;
    case push_symbol (unmark d # st) e P of (stack, P) \<Rightarrow> Some (stack, P)
  }"
proof -
  let ?arr = "\<lparr>arr = Arr_block [a, s, b], arr_size = 3\<rparr>"
  have h: "symbol_arr_move_expr_to_arr ([b, s, a] @ d # st) symbol_arr_init P =
      Some (unmark d # st, \<lparr>arr = Arr_block [b, s, a], arr_size = 3\<rparr>, P)"
    using move_handle [of d P "[b, s, a]" st] assms
    by (simp add: terminal_def unmark_def MAX_EXPR_SIZE_def value_symbol_def)
  have r: "symbol_arr_reverse \<lparr>arr = Arr_block [b, s, a], arr_size = 3\<rparr> = Some ?arr"
    using symbol_arr_reverse_rev [of "[b, s, a]"] by (simp add: numeral_3_eq_3)
  have g: "get_rule ?arr = Some (choose_operator_rule s)"
    using assms(1,2) by (simp add: get_rule_def arr_at_def value_symbol_def)
  show ?thesis
    using h r g choose_binary [OF assms(3,6)] by (simp add: reduce_def symbol_arr_free_def case_prod_beta)
qed

text \<open>An arithmetic operation; a divisor is a literal other than 0.\<close>

lemma reduce_arithmetic:
  assumes "value_symbol T_integer a" "value_symbol T_integer b" "terminal t s" "is_handleBegin d" "p_budget P = None"
    "cg_wf (p_cg P)" "tok_type t \<in> {TOKEN_ADD, TOKEN_SUB, TOKEN_MUL} \<or>
      tok_type t = TOKEN_DIV \<and> int_token_of (sym_token b) w \<and> w \<noteq> 0"
  shows "\<exists>e G. computed T_integer e \<and> reduce (b # s # a # d # st) P = Some (e # unmark d # st, P\<lparr>p_cg := G\<rparr>) \<and>
    wrote (operation_events (tok_type t)) P (P\<lparr>p_cg := G\<rparr>)"
proof -
  let ?arr = "\<lparr>arr = Arr_block [a, s, b], arr_size = 3\<rparr>"
  have bin: "is_binary_operator s" "tok_type t \<notin> relations \<union> {TOKEN_NIL_CHECK}"
    using assms(3,7) by (auto simp: is_binary_operator_def terminal_def relations_def)
  obtain G where G: "generate (\<lambda>_. code_generator_operations (tok_type t) True) P = Some (P\<lparr>p_cg := G\<rparr>)"
    "wrote (operation_events (tok_type t)) P (P\<lparr>p_cg := G\<rparr>)"
    by (rule generate_prints [where P = P and f = "\<lambda>_. code_generator_operations (tok_type t) True"])
      (use assms(6) prints_operation in auto)
  have "\<exists>e. computed T_integer e \<and> process_arithmetic_operation ?arr P = Some (e, P\<lparr>p_cg := G\<rparr>)"
  proof (cases "tok_type t = TOKEN_DIV")
    case True
    then have "\<not> int_val_is_0 P (sym_token b)" using assms(7) by (simp add: int_val_is_0_def int_token_of_def)
    then show ?thesis
      using assms(1-3) True G(1)
      by (auto simp: process_arithmetic_operation_def process_division_def arr_at_def compare_types_strict_def is_identifier_def
          operand_is_nilable_def compare_operand_with_type_def terminal_def computed_def expr_symbol_defs)
  next
    case False
    then show ?thesis
      using assms(1-3) G(1)
      by (auto simp: process_arithmetic_operation_def arr_at_def compare_types_strict_def is_identifier_def
          operand_is_nilable_def compare_operand_with_type_def terminal_def computed_def expr_symbol_defs)
  qed
  then obtain e where e: "computed T_integer e" "process_arithmetic_operation ?arr P = Some (e, P\<lparr>p_cg := G\<rparr>)" by blast
  then have "reduce (b # s # a # d # st) P = Some (e # unmark d # st, P\<lparr>p_cg := G\<rparr>)"
    using binary_handle [OF assms(1-5) bin(1)] bin(2) assms(5) by (simp add: push_symbol_def)
  with e(1) G(2) show ?thesis by blast
qed

text \<open>A comparison of two values of the same type.\<close>

lemma reduce_relational:
  assumes "value_symbol T a" "value_symbol T b" "T \<noteq> T_nil" "terminal t s" "is_handleBegin d" "p_budget P = None"
    "cg_wf (p_cg P)" "tok_type t \<in> relations"
  shows "\<exists>e G. computed T_bool e \<and> reduce (b # s # a # d # st) P = Some (e # unmark d # st, P\<lparr>p_cg := G\<rparr>) \<and>
    wrote (operation_events (tok_type t)) P (P\<lparr>p_cg := G\<rparr>)"
proof -
  let ?arr = "\<lparr>arr = Arr_block [a, s, b], arr_size = 3\<rparr>"
  have bin: "is_binary_operator s" "tok_type t \<noteq> TOKEN_NIL_CHECK" "tok_type t \<noteq> TOKEN_DIV"
    using assms(4,8) by (auto simp: is_binary_operator_def terminal_def relations_def)
  obtain G where G: "generate (\<lambda>_. code_generator_operations (tok_type t) False) P = Some (P\<lparr>p_cg := G\<rparr>)"
    "wrote (operation_events (tok_type t)) P (P\<lparr>p_cg := G\<rparr>)"
    by (rule generate_prints [where P = P and f = "\<lambda>_. code_generator_operations (tok_type t) False"])
      (use assms(7) bin(3) prints_operation in auto)
  have "\<exists>e. computed T_bool e \<and> process_relational_operation ?arr P = Some (e, P\<lparr>p_cg := G\<rparr>)"
    using assms(1-4) bin(2) G(1)
    by (auto simp: process_relational_operation_def arr_at_def compare_types_strict_def
        compare_operand_with_type_def terminal_def computed_def expr_symbol_defs)
  then obtain e where e: "computed T_bool e" "process_relational_operation ?arr P = Some (e, P\<lparr>p_cg := G\<rparr>)" by blast
  then have "reduce (b # s # a # d # st) P = Some (e # unmark d # st, P\<lparr>p_cg := G\<rparr>)"
    using binary_handle [OF assms(1,2,4-6) bin(1)] assms(6,8) by (simp add: push_symbol_def)
  with e(1) G(2) show ?thesis by blast
qed

lemma reduce_parentheses:
  assumes "value_symbol T a" "terminal t s" "tok_type t = TOKEN_L_PAR" "terminal t' s'" "tok_type t' = TOKEN_R_PAR"
    "is_handleBegin d" "p_budget P = None"
  shows "\<exists>e. computed T e \<and> reduce (s' # a # s # d # st) P = Some (e # unmark d # st, P)"
proof -
  let ?arr = "\<lparr>arr = Arr_block [s, a, s'], arr_size = 3\<rparr>"
  have h: "symbol_arr_move_expr_to_arr ([s', a, s] @ d # st) symbol_arr_init P =
      Some (unmark d # st, \<lparr>arr = Arr_block [s', a, s], arr_size = 3\<rparr>, P)"
    using move_handle [of d P "[s', a, s]" st] assms by (simp add: terminal_def unmark_def MAX_EXPR_SIZE_def value_symbol_def)
  have r: "symbol_arr_reverse \<lparr>arr = Arr_block [s', a, s], arr_size = 3\<rparr> = Some ?arr"
    using symbol_arr_reverse_rev [of "[s', a, s]"] by (simp add: numeral_3_eq_3)
  have "\<exists>e. computed T e \<and> process_parenthesis ?arr P = Some (e, P)"
    using assms(1) by (simp add: process_parenthesis_def arr_at_def computed_def expr_symbol_defs)
  then obtain e where e: "computed T e" "process_parenthesis ?arr P = Some (e, P)" by blast
  have "get_rule ?arr = Some RULE_PARL_E_PARR"
    using assms(2-5) by (simp add: get_rule_def arr_at_def terminal_def)
  then have "reduce (s' # a # s # d # st) P = Some (e # unmark d # st, P)"
    using h r assms(7) e(2)
    by (simp add: reduce_def push_reduced_symbol_on_stack_def push_symbol_def symbol_arr_free_def)
  with e(1) show ?thesis by blast
qed

section \<open>Runs of the loop\<close>

inductive reach :: "symstack \<Rightarrow> parser \<Rightarrow> symstack \<Rightarrow> parser \<Rightarrow> bool" where
  step: "expr_step st P = Some (EXIT_SUCCESS, st', P') \<Longrightarrow> reach st P st' P'"
| steps: "reach st P st1 P1 \<Longrightarrow> expr_finished st1 P1 = Some False \<Longrightarrow>
    expr_step st1 P1 = Some (EXIT_SUCCESS, st', P') \<Longrightarrow> reach st P st' P'"

lemma reach_trans:
  "reach st1 P1 st2 P2 \<Longrightarrow> reach st P st1 P1 \<Longrightarrow> expr_finished st1 P1 = Some False \<Longrightarrow> reach st P st2 P2"
  by (induction rule: reach.induct) (auto intro: reach.intros)

lemma reach_loop:
  "reach st P st' P' \<Longrightarrow> expr_loop st P = do {
     finished \<leftarrow> expr_finished st' P';
     if finished then Some (EXIT_SUCCESS, st', P') else expr_loop st' P'
   }"
proof (induction rule: reach.induct)
  case (step st P st' P')
  then show ?case by (subst expr_loop.simps) simp
next
  case (steps st P st1 P1 st' P')
  then have "expr_loop st P = expr_loop st1 P1" by simp
  also have "\<dots> = do { finished \<leftarrow> expr_finished st' P';
      if finished then Some (EXIT_SUCCESS, st', P') else expr_loop st' P' }"
    by (subst expr_loop.simps) (simp add: steps.hyps(3))
  finally show ?case .
qed

section \<open>Steps of the loop\<close>

lemma closest_terminal:
  "\<forall>e\<in>set es. \<not> is_terminal e \<Longrightarrow> is_terminal d \<Longrightarrow> get_closest_terminal (es @ d # st) = Some (length es)"
  by (induction es) simp_all

lemma prec_operation:
  assumes "\<forall>e\<in>set es. \<not> is_terminal e" "is_terminal d"
  shows "get_prec_table_operation (es @ d # st) t = prec_tab_at (convert_term_to_index d) (convert_token_to_index t)"
  using closest_terminal [OF assms] by (simp add: get_prec_table_operation_def)

lemma finished_terminal:
  assumes "\<forall>e\<in>set es. \<not> is_terminal e" "is_terminal d"
  shows "expr_finished (es @ d # st) P =
    Some (convert_term_to_index d = INDEX_DOLLAR \<and> convert_token_to_index (curr_tok P) = INDEX_DOLLAR)"
  using closest_terminal [OF assms] by (simp add: expr_finished_def)

definition mark :: "symstack_data \<Rightarrow> symstack_data" where
  "mark d = d\<lparr>is_handleBegin := True\<rparr>"

lemma mark_simps [simp]:
  "is_terminal (mark d) = is_terminal d" "is_handleBegin (mark d)" "convert_term_to_index (mark d) = convert_term_to_index d"
  by (simp_all add: mark_def convert_term_to_index_def)

lemma unmark_mark: "\<not> is_handleBegin d \<Longrightarrow> unmark (mark d) = d"
  by (cases d) (simp add: mark_def unmark_def)

end
