(* ===== verification/Expression_Parsing.thy ===== *)
theory Expression_Parsing
  imports Expression_Steps
begin

text \<open>
  The correctness of the analysis of expressions: a reference grammar with the usual
  precedences, the code of an expression, and the theorem that \<open>expr\<close> reads exactly a phrase
  of the grammar, determines its type and prints its code.
\<close>

section \<open>Steps of the loop\<close>

text \<open>What is on the tape: the parser stands in front of \<open>ts\<close>.\<close>

definition reading :: "token list \<Rightarrow> nat \<Rightarrow> token list \<Rightarrow> parser \<Rightarrow> bool" where
  "reading toks i ts P \<longleftrightarrow> at_token toks i P \<and> drop i toks = ts \<and> ts \<noteq> [] \<and> curr_tok P = hd ts \<and>
     (\<forall>t\<in>set ts. tok_type t \<noteq> TOKEN_UNDEFINED) \<and> p_budget P = None \<and> \<not> is_multiline_expr P"

lemma reading_advance:
  assumes "reading toks i (t # t' # ts) P"
  shows "GET_TOKEN k P = k (advance P)" "reading toks (Suc i) (t' # ts) (advance P)"
proof -
  from assms have d: "drop i toks = t # t' # ts" by (simp add: reading_def)
  then have "length (drop i toks) = Suc (Suc (length ts))" by simp
  then have l: "Suc i < length toks" by simp
  have n: "toks ! Suc i = t'" using nth_drop [of i toks 1] d l by simp
  have "drop (Suc i) toks = tl (drop i toks)" by (simp add: drop_Suc tl_drop)
  then have "drop (Suc i) toks = t' # ts" by (simp add: d)
  note l = l n this
  show "GET_TOKEN k P = k (advance P)" "reading toks (Suc i) (t' # ts) (advance P)"
    using assms l GET_TOKEN_next [of toks i P] by (auto simp: reading_def)
qed

lemma reading_upd [simp]:
  "reading toks i ts (P\<lparr>p_cg := G\<rparr>) = reading toks i ts P"
  "reading toks i ts (P\<lparr>is_all_literals := l\<rparr>) = reading toks i ts P"
  "reading toks i ts (P\<lparr>p_expr_res := r\<rparr>) = reading toks i ts P"
  by (simp_all add: reading_def at_token_def)

lemma reading_same:
  "reading toks i ts P \<Longrightarrow> expr_frame P P' \<Longrightarrow> p_buffer P' = p_buffer P \<Longrightarrow> curr_tok P' = curr_tok P \<Longrightarrow>
    is_multiline_expr P' = is_multiline_expr P \<Longrightarrow> reading toks i ts P'"
  by (simp add: reading_def at_token_def expr_frame_def)

text \<open>
  A token that cannot follow an expression, on a new line, ends it: the parser steps back and
  goes on with an empty token in its place.
\<close>

definition line_end :: "token \<Rightarrow> bool" where
  "line_end b \<longleftrightarrow> preceding_eol b \<and> convert_token_to_index b = INDEX_IDENTIFIER"

definition paused :: "token list \<Rightarrow> nat \<Rightarrow> token list \<Rightarrow> parser \<Rightarrow> bool" where
  "paused toks i ts P \<longleftrightarrow> at_token toks i P \<and> drop (Suc i) toks = ts \<and> ts \<noteq> [] \<and> curr_tok P = EMPTY_TOKEN False \<and>
     (\<forall>t\<in>set ts. tok_type t \<noteq> TOKEN_UNDEFINED) \<and> p_budget P = None \<and> is_multiline_expr P"

text \<open>The parser has come to the token \<open>b\<close> at position \<open>i\<close>, behind an expression.\<close>

definition stopped :: "token list \<Rightarrow> nat \<Rightarrow> token \<Rightarrow> token list \<Rightarrow> parser \<Rightarrow> bool" where
  "stopped toks i b us P \<longleftrightarrow>
     (if line_end b then 0 < i \<and> paused toks (i - 1) (b # us) P else reading toks i (b # us) P)"

lemma stopped_upd [simp]:
  "stopped toks i b us (P\<lparr>p_cg := G\<rparr>) = stopped toks i b us P"
  "stopped toks i b us (P\<lparr>is_all_literals := l\<rparr>) = stopped toks i b us P"
  "stopped toks i b us (P\<lparr>p_expr_res := r\<rparr>) = stopped toks i b us P"
  by (simp_all add: stopped_def paused_def reading_def at_token_def)

lemma stopped_error [simp]: "stopped toks i b us (P\<lparr>expr_err := r\<rparr>) = stopped toks i b us P"
  by (simp add: stopped_def paused_def reading_def at_token_def)

lemma stopped_budget: "stopped toks i b us P \<Longrightarrow> p_budget P = None"
  by (simp add: stopped_def paused_def reading_def split: if_splits)

lemma stopped_same:
  "stopped toks i b us P \<Longrightarrow> expr_frame P P' \<Longrightarrow> p_buffer P' = p_buffer P \<Longrightarrow> curr_tok P' = curr_tok P \<Longrightarrow>
    is_multiline_expr P' = is_multiline_expr P \<Longrightarrow> stopped toks i b us P'"
proof -
  assume a: "stopped toks i b us P" and f: "expr_frame P P'" "p_buffer P' = p_buffer P" "curr_tok P' = curr_tok P"
    "is_multiline_expr P' = is_multiline_expr P"
  have "paused toks j ts P' = paused toks j ts P" for j ts
    using f unfolding paused_def at_token_def expr_frame_def by simp
  then show ?thesis using a reading_same [OF _ f] by (simp add: stopped_def split: if_splits)
qed

lemma step_back_reading:
  assumes "reading toks (Suc i) ts P"
  obtains B where "tb_prev (p_buffer P) = Some B" "step_back P = Some (P\<lparr>p_buffer := B\<rparr>)" "tb_repr B toks i" "i < length toks"
    "reload_token (P\<lparr>p_buffer := B\<rparr>) = Some (P\<lparr>p_buffer := B, curr_tok := toks ! i\<rparr>)"
proof -
  have r: "tb_repr (p_buffer P) toks (Suc i)" "Suc i < length toks" using assms by (simp_all add: reading_def at_token_def)
  obtain B where B: "tb_prev (p_buffer P) = Some B" "tb_repr B toks i" using tb.prv_law [OF r] by blast
  have "tb_get_token B = Some (toks ! i)" by (rule tb.cur_law [OF B(2)]) (use r(2) in auto)
  then show ?thesis using that [of B] B r(2) by (simp add: step_back_def reload_token_def)
qed

text \<open>A shift marks the nearest terminal and puts the token on the stack.\<close>

lemma shift_step:
  assumes "reading toks i (t # t' # ts) P" "\<forall>e\<in>set es. \<not> is_terminal e" "is_terminal d"
    "prec_tab_at (convert_term_to_index d) (convert_token_to_index t) = PREC_S"
  obtains s where "terminal t s" "expr_step (es @ d # st) P = Some (EXIT_SUCCESS, s # es @ mark d # st, advance P)"
proof -
  have t: "curr_tok P = t" "p_budget P = None" using assms(1) by (simp_all add: reading_def)
  obtain s where s: "convert_token_to_data (stale P) t = Some s" "terminal t s"
    by (simp add: convert_token_to_data_ok terminal_def)
  have "shift (es @ d # st) t P = Some (s # es @ mark d # st, P)"
    using closest_terminal [OF assms(2,3)] s(1) t(2)
    by (simp add: shift_def push_symbol_def mark_def list_update_append nth_append)
  then have "expr_step (es @ d # st) P = Some (EXIT_SUCCESS, s # es @ mark d # st, advance P)"
    using t(1) assms(4) reading_advance(1) [OF assms(1), of success] prec_operation [OF assms(2,3)]
    by (simp add: expr_step_def next_token_def success_def)
  with s(2) that show ?thesis by blast
qed

lemma reduce_step:
  assumes "\<forall>e\<in>set es. \<not> is_terminal e" "is_terminal d"
    "prec_tab_at (convert_term_to_index d) (convert_token_to_index (curr_tok P)) = PREC_R"
    "reduce (es @ d # st) P = Some (st', P')"
  shows "expr_step (es @ d # st) P = Some (EXIT_SUCCESS, st', P')"
  using assms(3,4) prec_operation [OF assms(1,2)] by (simp add: expr_step_def)

lemma equal_step:
  assumes "reading toks i (t # t' # ts) P" "\<forall>e\<in>set es. \<not> is_terminal e" "is_terminal d"
    "prec_tab_at (convert_term_to_index d) (convert_token_to_index t) = PREC_E"
  obtains s where "terminal t s" "expr_step (es @ d # st) P = Some (EXIT_SUCCESS, s # es @ d # st, advance P)"
proof -
  have t: "curr_tok P = t" "p_budget P = None" using assms(1) by (simp_all add: reading_def)
  obtain s where s: "convert_token_to_data (stale P) t = Some s" "terminal t s"
    by (simp add: convert_token_to_data_ok terminal_def)
  have "expr_step (es @ d # st) P = Some (EXIT_SUCCESS, s # es @ d # st, advance P)"
    using t assms(4) s(1) reading_advance(1) [OF assms(1), of success] prec_operation [OF assms(2,3)]
    by (simp add: expr_step_def next_token_def success_def equal_shift_def push_symbol_def)
  with s(2) that show ?thesis by blast
qed

section \<open>The reference grammar\<close>

text \<open>
  Expressions over integer literals and integer variables, given by the text that names them
  in the generated code: sums of products, and comparisons of two values of the same type.
\<close>

datatype ex = Num "32 word" | Var string | Bin token_type ex ex | Cmp token_type ex ex

fun ex_type :: "ex \<Rightarrow> ty" where
  "ex_type (Cmp oper a b) = T_bool"
| "ex_type _ = T_integer"

text \<open>
  \<open>phrase V n ts e\<close>: the tokens \<open>ts\<close> form the expression \<open>e\<close>, where \<open>V t v\<close> says that the
  token \<open>t\<close> is a variable with the text \<open>v\<close>. The level \<open>n\<close> is 3 for factors, 2 for products,
  1 for sums and 0 for comparisons; operators of one level associate to the left, except
  comparisons, which do not associate. A divisor is a literal other than 0.
\<close>

inductive phrase :: "(token \<Rightarrow> string \<Rightarrow> bool) \<Rightarrow> nat \<Rightarrow> token list \<Rightarrow> ex \<Rightarrow> bool" for V where
  number: "int_token_of t w \<Longrightarrow> phrase V 3 [t] (Num w)"
| variable: "V t v \<Longrightarrow> phrase V 3 [t] (Var v)"
| parens: "phrase V 0 ts e \<Longrightarrow> tok_type l = TOKEN_L_PAR \<Longrightarrow> tok_type r = TOKEN_R_PAR \<Longrightarrow>
    phrase V 3 (l # ts @ [r]) e"
| weaken: "phrase V (Suc n) ts e \<Longrightarrow> phrase V n ts e"
| product: "phrase V 2 ts e \<Longrightarrow> tok_type t = TOKEN_MUL \<Longrightarrow> phrase V 3 us f \<Longrightarrow>
    ex_type e = T_integer \<Longrightarrow> ex_type f = T_integer \<Longrightarrow> phrase V 2 (ts @ t # us) (Bin TOKEN_MUL e f)"
| quotient: "phrase V 2 ts e \<Longrightarrow> tok_type t = TOKEN_DIV \<Longrightarrow> int_token_of u w \<Longrightarrow> w \<noteq> 0 \<Longrightarrow>
    ex_type e = T_integer \<Longrightarrow> phrase V 2 (ts @ t # [u]) (Bin TOKEN_DIV e (Num w))"
| sum: "phrase V 1 ts e \<Longrightarrow> tok_type t \<in> {TOKEN_ADD, TOKEN_SUB} \<Longrightarrow> phrase V 2 us f \<Longrightarrow>
    ex_type e = T_integer \<Longrightarrow> ex_type f = T_integer \<Longrightarrow> phrase V 1 (ts @ t # us) (Bin (tok_type t) e f)"
| comparison: "phrase V 1 ts e \<Longrightarrow> tok_type t \<in> relations \<Longrightarrow> phrase V 1 us f \<Longrightarrow>
    ex_type e = ex_type f \<Longrightarrow> phrase V 0 (ts @ t # us) (Cmp (tok_type t) e f)"

text \<open>The code: operands in the order of the text, each operation behind its operands.\<close>

fun code_events :: "ex \<Rightarrow> event list" where
  "code_events (Num w) = [Buffered (NL # ''PUSHS ''), Buffered (''int@'' @ print_d w), Buffered [NL]]"
| "code_events (Var v) = [Buffered (NL # ''PUSHS ''), Buffered v, Buffered [NL]]"
| "code_events (Bin oper a b) = code_events a @ code_events b @ operation_events oper"
| "code_events (Cmp oper a b) = code_events a @ code_events b @ operation_events oper"

text \<open>The terminals below and the tokens behind a phrase of a level.\<close>

definition context_ok :: "nat \<Rightarrow> prec_tab_index \<Rightarrow> bool" where
  "context_ok n k \<longleftrightarrow> k \<in> {INDEX_DOLLAR, INDEX_LPAR} \<or> k = INDEX_RELATIONAL_OP \<and> 1 \<le> n \<or>
     k = INDEX_ADD_SUB \<and> 2 \<le> n \<or> k = INDEX_MUL_DIV \<and> 3 \<le> n"

definition follow_ok :: "nat \<Rightarrow> prec_tab_index \<Rightarrow> bool" where
  "follow_ok n k \<longleftrightarrow> k \<in> {INDEX_DOLLAR, INDEX_RPAR} \<or> k = INDEX_RELATIONAL_OP \<and> 1 \<le> n \<or>
     k = INDEX_ADD_SUB \<and> 1 \<le> n \<or> k = INDEX_MUL_DIV \<and> 2 \<le> n"

lemmas prec_defs = prec_tab_at_def prec_tab_def index_number_def context_ok_def follow_ok_def

lemma prec_facts:
  "context_ok n k \<Longrightarrow> prec_tab_at k INDEX_IDENTIFIER = PREC_S"
  "context_ok n k \<Longrightarrow> prec_tab_at k INDEX_LPAR = PREC_S"
  "context_ok 2 k \<Longrightarrow> prec_tab_at k INDEX_MUL_DIV = PREC_S"
  "context_ok 1 k \<Longrightarrow> prec_tab_at k INDEX_ADD_SUB = PREC_S"
  "context_ok 0 k \<Longrightarrow> prec_tab_at k INDEX_RELATIONAL_OP = PREC_S"
  "follow_ok n k \<Longrightarrow> prec_tab_at INDEX_IDENTIFIER k = PREC_R"
  "follow_ok n k \<Longrightarrow> prec_tab_at INDEX_RPAR k = PREC_R"
  "follow_ok 2 k \<Longrightarrow> prec_tab_at INDEX_MUL_DIV k = PREC_R"
  "follow_ok 1 k \<Longrightarrow> prec_tab_at INDEX_ADD_SUB k = PREC_R"
  "follow_ok 0 k \<Longrightarrow> prec_tab_at INDEX_RELATIONAL_OP k = PREC_R"
  "prec_tab_at INDEX_LPAR INDEX_RPAR = PREC_E"
  by (auto simp: prec_defs)

lemma level_mono:
  "context_ok n k \<Longrightarrow> n \<le> m \<Longrightarrow> context_ok m k" "follow_ok n k \<Longrightarrow> n \<le> m \<Longrightarrow> follow_ok m k"
  by (auto simp: context_ok_def follow_ok_def)

lemma phrase_ne: "phrase V n ts e \<Longrightarrow> ts \<noteq> []"
  by (induction rule: phrase.induct) auto

text \<open>The token behind a phrase: one of a lower level, or the first one of a new line.\<close>

definition follows :: "nat \<Rightarrow> token \<Rightarrow> bool" where
  "follows n b \<longleftrightarrow> follow_ok n (convert_token_to_index b) \<or> line_end b"

lemma follows_mono: "follows n b \<Longrightarrow> n \<le> m \<Longrightarrow> follows m b"
  using level_mono(2) by (auto simp: follows_def)

lemma follow_ok_line: "follow_ok n (convert_token_to_index b) \<Longrightarrow> \<not> line_end b"
  by (auto simp: follow_ok_def line_end_def)

lemma stopped_reading: "stopped toks i b us P \<Longrightarrow> follow_ok n (convert_token_to_index b) \<Longrightarrow> reading toks i (b # us) P"
  using follow_ok_line [of n b] by (simp add: stopped_def)

lemma stopped_follow: "stopped toks i b us P \<Longrightarrow> follows n b \<Longrightarrow> follow_ok n (convert_token_to_index (curr_tok P))"
  by (auto simp: stopped_def follows_def paused_def reading_def EMPTY_TOKEN_def convert_token_to_index_def follow_ok_def split: if_splits)

lemma pause:
  assumes r: "reading toks (Suc i) (b # us) P" and f: "follows n b"
    and s: "is_terminal s" "convert_term_to_index s \<in> {INDEX_IDENTIFIER, INDEX_RPAR}"
    and reach: "reach st0 P0 (s # st) P"
  obtains P' where "reach st0 P0 (s # st) P'" "stopped toks (Suc i) b us P'" "expr_frame P P'" "p_cg P' = p_cg P"
proof (cases "line_end b")
  case False
  then show ?thesis using that [of P] r reach by (simp add: stopped_def)
next
  case True
  then have b: "preceding_eol b" "convert_token_to_index b = INDEX_IDENTIFIER" by (simp_all add: line_end_def)
  have c: "curr_tok P = b" "p_budget P = None" using r by (simp_all add: reading_def)
  obtain B where B: "tb_prev (p_buffer P) = Some B" "tb_repr B toks i" "i < length toks"
    by (rule step_back_reading [OF r])
  let ?P = "P\<lparr>p_buffer := B, is_multiline_expr := True, curr_tok := EMPTY_TOKEN False\<rparr>"
  obtain e where e: "convert_token_to_data (stale P) b = Some e" "sym_token e = b"
    by (simp add: convert_token_to_data_ok)
  have x: "get_prec_table_operation (s # st) b = PREC_X"
    using prec_operation [of "[]" s st b] s b(2) by (auto simp: prec_defs)
  have step: "expr_step (s # st) P = Some (EXIT_SUCCESS, s # st, ?P)"
    using x e b c B(1)
    by (simp add: expr_step_def push_symbol_def set_is_multiline_expr_def step_back_def)
  have "expr_finished ([] @ s # st) P = Some False"
    by (subst finished_terminal) (use s in auto)
  then have "reach st0 P0 (s # st) ?P" using reach.steps [OF reach _ step] by simp
  moreover have "stopped toks (Suc i) b us ?P"
    using True r B by (simp add: stopped_def paused_def reading_def at_token_def)
  ultimately show ?thesis using that [of ?P] by simp
qed

section \<open>What a phrase does\<close>

text \<open>
  A phrase that is one literal leaves its token in the symbol, a phrase of several tokens the
  empty token. On top of a terminal \<open>d\<close> a phrase becomes one symbol of its type, the parser has read it and
  stands in front of the next token, and the code of the expression is printed. The state
  may differ from \<open>P0\<close>, in which the variables are looked up, as the frame allows.
\<close>

definition keeps_literal :: "token list \<Rightarrow> symstack_data \<Rightarrow> bool" where
  "keeps_literal ts s \<longleftrightarrow> (\<forall>t w. ts = [t] \<and> int_token_of t w \<longrightarrow> sym_token s = t) \<and>
     (1 < length ts \<longrightarrow> sym_token s = EMPTY_TOKEN False)"

definition becomes :: "parser \<Rightarrow> nat \<Rightarrow> token list \<Rightarrow> ex \<Rightarrow> bool" where
  "becomes P0 n ts e \<longleftrightarrow> (\<forall>toks i b us d st P.
     expr_frame P0 P \<longrightarrow> reading toks i (ts @ b # us) P \<longrightarrow> follows n b \<longrightarrow>
     is_terminal d \<longrightarrow> \<not> is_handleBegin d \<longrightarrow> context_ok n (convert_term_to_index d) \<longrightarrow> cg_wf (p_cg P) \<longrightarrow>
     (\<exists>s P'. value_symbol (ex_type e) s \<and> keeps_literal ts s \<and>
        reach (d # st) P (s # d # st) P' \<and> stopped toks (i + length ts) b us P' \<and> wrote (code_events e) P P'))"

lemma becomesE:
  assumes "becomes P0 n ts e" "expr_frame P0 P" "reading toks i (ts @ b # us) P" "follows n b"
    "is_terminal d" "\<not> is_handleBegin d" "context_ok n (convert_term_to_index d)" "cg_wf (p_cg P)"
  obtains s P' where "value_symbol (ex_type e) s" "keeps_literal ts s"
    "reach (d # st) P (s # d # st) P'" "stopped toks (i + length ts) b us P'" "wrote (code_events e) P P'"
  using assms unfolding becomes_def by blast

lemma value_symbol_terminal: "value_symbol T s \<Longrightarrow> \<not> is_terminal s"
  by (simp add: value_symbol_def)

lemma terminal_index: "terminal t s \<Longrightarrow> convert_term_to_index s = convert_token_to_index t"
  by (simp add: terminal_def convert_term_to_index_def)

lemma becomes_operand:
  assumes "(\<exists>w. int_token_of t w \<and> e = Num w) \<or> (\<exists>v. int_var P0 t v \<and> e = Var v)"
  shows "becomes P0 3 [t] e"
  unfolding becomes_def
proof (intro allI impI)
  fix toks i b us d st P
  assume fr: "expr_frame P0 P" and r: "reading toks i ([t] @ b # us) P" and f: "follows 3 b"
    and d: "is_terminal d" "\<not> is_handleBegin d" "context_ok 3 (convert_term_to_index d)" and wf: "cg_wf (p_cg P)"
  have k: "convert_token_to_index t = INDEX_IDENTIFIER" "ex_type e = T_integer"
    using assms by (auto simp: int_token_of_def int_var_def convert_token_to_index_def)
  obtain s where s: "terminal t s" "expr_step ([] @ d # st) P = Some (EXIT_SUCCESS, s # [] @ mark d # st, advance P)"
    by (rule shift_step [OF r [simplified], of "[]" d st]) (use d prec_facts(1) k in auto)
  have st: "is_terminal s" "convert_term_to_index s = INDEX_IDENTIFIER"
    using s(1) k by (simp_all add: terminal_index) (simp add: terminal_def)
  have r1: "reading toks (Suc i) (b # us) (advance P)" using reading_advance(2) r by simp
  obtain P1 where P1: "reach (d # st) P (s # mark d # st) P1" "stopped toks (Suc i) b us P1" "expr_frame (advance P) P1"
    "p_cg P1 = p_cg (advance P)"
    by (rule pause [OF r1 f st(1)]) (use st(2) s(2) in \<open>auto intro: reach.step\<close>)
  define vt where "vt = (case e of Num w \<Rightarrow> ''int@'' @ print_d w | Var v \<Rightarrow> v | _ \<Rightarrow> [])"
  have fr1: "expr_frame P P1" "expr_frame P0 P1" using P1(3) expr_frame_trans [of P "advance P" P1] expr_frame_trans [OF fr] by simp_all
  have vt: "\<exists>w. int_token_of t w \<and> vt = ''int@'' @ print_d w \<or> int_var P1 t vt"
    "code_events e = [Buffered (NL # ''PUSHS ''), Buffered vt, Buffered [NL]]"
    using assms int_var_frame [OF fr1(2)] by (auto simp: vt_def)
  obtain w where w: "int_token_of t w \<and> vt = ''int@'' @ print_d w \<or> int_var P1 t vt" using vt(1) by blast
  obtain v P' where v: "value_symbol T_integer v" "sym_token v = t"
    "reduce (s # mark d # st) P1 = Some (v # unmark (mark d) # st, P')"
    "wrote (code_events e) P1 P'" "p_buffer P' = p_buffer P1" "curr_tok P' = curr_tok P1" "is_multiline_expr P' = is_multiline_expr P1"
    using reduce_operand [OF s(1) _ stopped_budget [OF P1(2)] _ w, of "mark d" st] wf P1(4) unfolding vt(2) by auto
  have "expr_finished ([] @ s # mark d # st) P1 = Some False"
    by (subst finished_terminal) (use st in simp_all)
  moreover have "expr_step ([] @ s # mark d # st) P1 = Some (EXIT_SUCCESS, v # d # st, P')"
    by (rule reduce_step) (use st v(3) d(2) prec_facts(6) [OF stopped_follow [OF P1(2) f]] in \<open>simp_all add: unmark_mark\<close>)
  ultimately have "reach (d # st) P (v # d # st) P'"
    using P1(1) by (auto intro: reach.intros)
  moreover have "stopped toks (i + length [t]) b us P'"
    using stopped_same [OF P1(2) _ v(5,6,7)] v(4) by (simp add: wrote_def)
  moreover have "wrote (code_events e) P P'"
    using v(4) expr_frame_trans [OF fr1(1)] P1(4) by (simp add: wrote_def)
  ultimately show "\<exists>s P'. value_symbol (ex_type e) s \<and> keeps_literal [t] s \<and>
      reach (d # st) P (s # d # st) P' \<and> stopped toks (i + length [t]) b us P' \<and> wrote (code_events e) P P'"
    using v(1,2) k(2) by (auto simp: keeps_literal_def)
qed

text \<open>The left operand of a binary operation is read and the operator is shifted.\<close>

lemma operator_pushed:
  assumes ih: "becomes P0 n ts a" and fr: "expr_frame P0 P" and r: "reading toks i (ts @ t # u # us) P"
    and d: "is_terminal d" "\<not> is_handleBegin d" "context_ok n (convert_term_to_index d)" and wf: "cg_wf (p_cg P)"
    and k: "prec_tab_at (convert_term_to_index d) (convert_token_to_index t) = PREC_S"
      "follow_ok n (convert_token_to_index t)" "convert_token_to_index t \<noteq> INDEX_DOLLAR"
  obtains s1 s P1 where "value_symbol (ex_type a) s1" "terminal t s" "convert_term_to_index s = convert_token_to_index t"
    "reach (d # st) P (s # s1 # mark d # st) P1" "expr_finished (s # s1 # mark d # st) P1 = Some False"
    "reading toks (Suc (i + length ts)) (u # us) P1" "wrote (code_events a) P P1"
proof -
  obtain s1 P1 where s1: "value_symbol (ex_type a) s1" "reach (d # st) P (s1 # d # st) P1"
    "stopped toks (i + length ts) t (u # us) P1" "wrote (code_events a) P P1"
    by (rule becomesE [OF ih fr r _ d wf, of st]) (use k(2) in \<open>auto simp: follows_def\<close>)
  note s1 = s1(1,2) stopped_reading [OF s1(3) k(2)] s1(4)
  obtain s where s: "terminal t s" "expr_step ([s1] @ d # st) P1 = Some (EXIT_SUCCESS, s # [s1] @ mark d # st, advance P1)"
    by (rule shift_step [OF s1(3), of "[s1]" d st]) (use d k(1) value_symbol_terminal [OF s1(1)] in auto)
  have fin: "expr_finished ([s1] @ d # st) P1 = Some False"
    by (subst finished_terminal) (use value_symbol_terminal [OF s1(1)] d(1) s1(3) k(3) in \<open>auto simp: reading_def\<close>)
  have st: "is_terminal s" "convert_term_to_index s = convert_token_to_index t"
    using s(1) by (simp_all add: terminal_index) (simp_all add: terminal_def)
  have "expr_finished ([] @ s # s1 # mark d # st) (advance P1) = Some False"
    by (subst finished_terminal) (use st k(3) in simp_all)
  then show ?thesis
    using that [of s1 s "advance P1"] reach.steps [OF s1(2)] fin s reading_advance(2) [OF s1(3)] s1(1,4) st(2) by simp
qed

text \<open>A binary operation between two phrases, given how its handle is reduced.\<close>

lemma becomes_binary:
  assumes ih: "becomes P0 n' ts a" "becomes P0 m us b"
    and t: "convert_token_to_index t \<noteq> INDEX_DOLLAR"
    and k: "\<And>k. context_ok n k \<Longrightarrow> prec_tab_at k (convert_token_to_index t) = PREC_S"
      "\<And>k. follow_ok n k \<Longrightarrow> prec_tab_at (convert_token_to_index t) k = PREC_R"
      "follow_ok n' (convert_token_to_index t)" "context_ok m (convert_token_to_index t)"
    and n: "n \<le> n'" "n \<le> m" and ne: "us \<noteq> []"
    and red: "\<And>x y s d st P. value_symbol (ex_type a) x \<Longrightarrow> value_symbol (ex_type b) y \<Longrightarrow>
      keeps_literal us y \<Longrightarrow> terminal t s \<Longrightarrow>
      is_handleBegin d \<Longrightarrow> p_budget P = None \<Longrightarrow> cg_wf (p_cg P) \<Longrightarrow>
      \<exists>v G. computed (ex_type e) v \<and> reduce (y # s # x # d # st) P = Some (v # unmark d # st, P\<lparr>p_cg := G\<rparr>) \<and>
        wrote es P (P\<lparr>p_cg := G\<rparr>)"
    and e: "code_events e = code_events a @ code_events b @ es"
  shows "becomes P0 n (ts @ t # us) e"
  unfolding becomes_def
proof (intro allI impI)
  fix toks i c vs d st P
  assume fr: "expr_frame P0 P" and r: "reading toks i ((ts @ t # us) @ c # vs) P" and f: "follows n c"
    and d: "is_terminal d" "\<not> is_handleBegin d" "context_ok n (convert_term_to_index d)" and wf: "cg_wf (p_cg P)"
  have r0: "reading toks i (ts @ t # us @ c # vs) P" using r by simp
  obtain u us' where us: "us @ c # vs = u # us'" by (cases us) auto
  obtain s1 s P1 where s1: "value_symbol (ex_type a) s1" "terminal t s" "convert_term_to_index s = convert_token_to_index t"
    "reach (d # st) P (s # s1 # mark d # st) P1" "expr_finished (s # s1 # mark d # st) P1 = Some False"
    "reading toks (Suc (i + length ts)) (us @ c # vs) P1" "wrote (code_events a) P P1"
    by (rule operator_pushed [OF ih(1) fr r0 [unfolded us] d(1,2) level_mono(1) [OF d(3) n(1)] wf k(1) [OF d(3)] k(3) t, of st])
      (use us in simp)
  have st: "is_terminal s" "\<not> is_handleBegin s" using s1(2) by (simp_all add: terminal_def)
  have fr1: "expr_frame P0 P1" using s1(7) expr_frame_trans [OF fr] by (simp add: wrote_def)
  obtain s2 P2 where s2: "value_symbol (ex_type b) s2" "keeps_literal us s2"
    "reach (s # s1 # mark d # st) P1 (s2 # s # s1 # mark d # st) P2"
    "stopped toks (Suc (i + length ts) + length us) c vs P2" "wrote (code_events b) P1 P2"
    by (rule becomesE [OF ih(2) fr1 s1(6) follows_mono [OF f n(2)] st(1,2), of "s1 # mark d # st"])
      (use st k(4) s1(3) wrote_cg_wf [OF s1(7)] in auto)
  obtain v G where c: "computed (ex_type e) v"
    and v: "value_symbol (ex_type e) v"
    "reduce (s2 # s # s1 # mark d # st) P2 = Some (v # unmark (mark d) # st, P2\<lparr>p_cg := G\<rparr>)" "wrote es P2 (P2\<lparr>p_cg := G\<rparr>)"
    using red [OF s1(1) s2(1,2) s1(2) mark_simps(2) stopped_budget [OF s2(4)] wrote_cg_wf [OF s2(5)]] computed_def by blast
  have fin2: "expr_finished ([s2] @ s # s1 # mark d # st) P2 = Some False"
    by (subst finished_terminal) (use value_symbol_terminal [OF s2(1)] st s1(3) t in simp_all)
  have last: "expr_step ([s2] @ s # s1 # mark d # st) P2 = Some (EXIT_SUCCESS, v # d # st, P2\<lparr>p_cg := G\<rparr>)"
    by (rule reduce_step) (use value_symbol_terminal [OF s2(1)] st s1(3) v(2) d(2) k(2) [OF stopped_follow [OF s2(4) f]] in \<open>simp_all add: unmark_mark\<close>)
  have "reach (d # st) P (s2 # s # s1 # mark d # st) P2"
    by (rule reach_trans [OF s2(3) s1(4,5)])
  then have "reach (d # st) P (v # d # st) (P2\<lparr>p_cg := G\<rparr>)"
    using reach.steps fin2 last by simp
  moreover have "stopped toks (i + length (ts @ t # us)) c vs (P2\<lparr>p_cg := G\<rparr>)"
    using s2(4) by (simp add: add.assoc)
  moreover have "wrote (code_events e) P (P2\<lparr>p_cg := G\<rparr>)"
    using wrote_trans [OF s1(7) wrote_trans [OF s2(5) v(3)]] by (simp add: e)
  moreover have "keeps_literal (ts @ t # us) v" using ne c by (cases ts; cases us) (auto simp: keeps_literal_def computed_def)
  ultimately show "\<exists>s P'. value_symbol (ex_type e) s \<and> keeps_literal (ts @ t # us) s \<and>
      reach (d # st) P (s # d # st) P' \<and> stopped toks (i + length (ts @ t # us)) c vs P' \<and> wrote (code_events e) P P'"
    using v(1) by blast
qed

lemma becomes_parens:
  assumes ih: "becomes P0 0 ts e" and l: "tok_type l = TOKEN_L_PAR" and r: "tok_type r = TOKEN_R_PAR" and ne: "ts \<noteq> []"
  shows "becomes P0 3 (l # ts @ [r]) e"
  unfolding becomes_def
proof (intro allI impI)
  fix toks i c vs d st P
  assume fr: "expr_frame P0 P" and rd: "reading toks i ((l # ts @ [r]) @ c # vs) P" and f: "follows 3 c"
    and d: "is_terminal d" "\<not> is_handleBegin d" "context_ok 3 (convert_term_to_index d)" and wf: "cg_wf (p_cg P)"
  have k: "convert_token_to_index l = INDEX_LPAR" "convert_token_to_index r = INDEX_RPAR"
    using l r by (simp_all add: convert_token_to_index_def)
  have r0: "reading toks i (l # ts @ r # c # vs) P" using rd by simp
  obtain u us' where us: "ts @ r # c # vs = u # us'" by (cases ts) auto
  obtain s where s: "terminal l s" "expr_step ([] @ d # st) P = Some (EXIT_SUCCESS, s # [] @ mark d # st, advance P)"
    by (rule shift_step [OF r0 [unfolded us], of "[]" d st]) (use d prec_facts(2) k in auto)
  have r1: "reading toks (Suc i) (ts @ r # c # vs) (advance P)"
    using reading_advance(2) [OF r0 [unfolded us]] us by simp
  have st: "is_terminal s" "\<not> is_handleBegin s" "convert_term_to_index s = INDEX_LPAR"
    using s(1) k by (simp_all add: terminal_index) (simp_all add: terminal_def)
  obtain s1 P1 where s1: "value_symbol (ex_type e) s1" "reach (s # mark d # st) (advance P) (s1 # s # mark d # st) P1"
    "stopped toks (Suc i + length ts) r (c # vs) P1" "wrote (code_events e) (advance P) P1"
    by (rule becomesE [OF ih _ r1 _ st(1,2), of "mark d # st"]) (use st k wf fr in \<open>auto simp: follows_def follow_ok_def context_ok_def\<close>)
  have "follow_ok 0 (convert_token_to_index r)" using k by (simp add: follow_ok_def)
  note s1 = s1(1,2) stopped_reading [OF s1(3) this] s1(4)
  obtain s' where s': "terminal r s'"
    "expr_step ([s1] @ s # mark d # st) P1 = Some (EXIT_SUCCESS, s' # [s1] @ s # mark d # st, advance P1)"
    by (rule equal_step [OF s1(3), of "[s1]" s "mark d # st"]) (use value_symbol_terminal [OF s1(1)] st k prec_facts(11) in auto)
  have r2: "reading toks (Suc (Suc i + length ts)) (c # vs) (advance P1)"
    by (rule reading_advance(2) [OF s1(3)])
  have st': "is_terminal s'" "convert_term_to_index s' = INDEX_RPAR"
    using s'(1) k by (simp_all add: terminal_index) (simp add: terminal_def)
  have fin: "expr_finished ([] @ s # mark d # st) (advance P) = Some False"
    "expr_finished ([s1] @ s # mark d # st) P1 = Some False"
    by (subst finished_terminal; use value_symbol_terminal [OF s1(1)] st st' in simp)+
  have "reach (d # st) P (s1 # s # mark d # st) P1"
    by (rule reach_trans [OF s1(2)]) (use s(2) fin(1) in \<open>auto intro: reach.intros\<close>)
  then have "reach (d # st) P (s' # s1 # s # mark d # st) (advance P1)"
    using reach.steps fin(2) s'(2) by simp
  then obtain P2 where P2: "reach (d # st) P (s' # s1 # s # mark d # st) P2" "stopped toks (Suc (Suc i + length ts)) c vs P2"
    "expr_frame (advance P1) P2" "p_cg P2 = p_cg (advance P1)"
    using pause [OF r2 f st'(1)] st'(2) by blast
  obtain a where c: "computed (ex_type e) a" and a: "value_symbol (ex_type e) a" "reduce (s' # s1 # s # mark d # st) P2 = Some (a # unmark (mark d) # st, P2)"
    using reduce_parentheses [OF s1(1) s(1) l s'(1) r, of "mark d" P2 st] stopped_budget [OF P2(2)] by (auto simp: computed_def)
  have fin2: "expr_finished ([] @ s' # s1 # s # mark d # st) P2 = Some False"
    by (subst finished_terminal) (use st' in simp_all)
  have last: "expr_step ([] @ s' # s1 # s # mark d # st) P2 = Some (EXIT_SUCCESS, a # d # st, P2)"
    by (rule reduce_step) (use st' a(2) d(2) prec_facts(7) [OF stopped_follow [OF P2(2) f]] in \<open>simp_all add: unmark_mark\<close>)
  have "reach (d # st) P (a # d # st) P2"
    using reach.steps [OF P2(1)] fin2 last by simp
  moreover have "stopped toks (i + length (l # ts @ [r])) c vs P2"
    using P2(2) by (simp add: add.assoc)
  moreover have "keeps_literal (l # ts @ [r]) a" using c by (simp add: keeps_literal_def computed_def)
  moreover have "wrote (code_events e) P P2"
    using s1(4) expr_frame_trans [of P "advance P" P1] expr_frame_trans [of P P1 P2] P2(3,4)
      expr_frame_trans [of P1 "advance P1" P2] by (simp add: wrote_def)
  ultimately show "\<exists>s P'. value_symbol (ex_type e) s \<and> keeps_literal (l # ts @ [r]) s \<and>
      reach (d # st) P (s # d # st) P' \<and> stopped toks (i + length (l # ts @ [r])) c vs P' \<and> wrote (code_events e) P P'"
    using a(1) by blast
qed

lemma becomes_weaken: "becomes P0 (Suc n) ts e \<Longrightarrow> becomes P0 n ts e"
proof -
  assume "becomes P0 (Suc n) ts e"
  moreover have "context_ok n k \<Longrightarrow> context_ok (Suc n) k" "follows n b \<Longrightarrow> follows (Suc n) b" for k b
    by (simp_all add: level_mono follows_mono)
  ultimately show ?thesis unfolding becomes_def by meson
qed

lemma phrase_becomes: "phrase (int_var P0) n ts e \<Longrightarrow> becomes P0 n ts e"
proof (induction rule: phrase.induct)
  case (number t w)
  then show ?case by (intro becomes_operand) blast
next
  case (variable t v)
  then show ?case by (intro becomes_operand) blast
next
  case (parens ts e l r)
  then show ?case by (intro becomes_parens) (simp_all add: phrase_ne)
next
  case (weaken n ts e)
  show ?case by (rule becomes_weaken [OF weaken.IH])
next
  case (product ts e t us f)
  have k: "convert_token_to_index t = INDEX_MUL_DIV" using product.hyps(2) by (simp add: convert_token_to_index_def)
  show ?case
  proof (rule becomes_binary [where n' = 2 and m = 3 and es = "operation_events TOKEN_MUL", OF product.IH(1,2)])
    show "us \<noteq> []" using phrase_ne product.hyps by blast
    show "\<exists>v G. computed (ex_type (Bin TOKEN_MUL e f)) v \<and>
        reduce (y # s # x # d # st) P = Some (v # unmark d # st, P\<lparr>p_cg := G\<rparr>) \<and> wrote (operation_events TOKEN_MUL) P (P\<lparr>p_cg := G\<rparr>)"
      if "value_symbol (ex_type e) x" "value_symbol (ex_type f) y" "terminal t s" "is_handleBegin d" "p_budget P = None"
        "cg_wf (p_cg P)" for x y s d st P
      using reduce_arithmetic [of x y t s d P 0 st] that product.hyps by simp
  qed (use k prec_facts in \<open>auto simp: context_ok_def follow_ok_def\<close>)
next
  case (quotient ts e t u w)
  have k: "convert_token_to_index t = INDEX_MUL_DIV" using quotient.hyps(2) by (simp add: convert_token_to_index_def)
  have u: "becomes P0 3 [u] (Num w)" by (intro becomes_operand) (use quotient.hyps in blast)
  show ?case
  proof (rule becomes_binary [where n' = 2 and m = 3 and es = "operation_events TOKEN_DIV", OF quotient.IH u])
    show "\<exists>v G. computed (ex_type (Bin TOKEN_DIV e (Num w))) v \<and>
        reduce (y # s # x # d # st) P = Some (v # unmark d # st, P\<lparr>p_cg := G\<rparr>) \<and> wrote (operation_events TOKEN_DIV) P (P\<lparr>p_cg := G\<rparr>)"
      if "value_symbol (ex_type e) x" "value_symbol (ex_type (Num w)) y" "keeps_literal [u] y" "terminal t s" "is_handleBegin d"
        "p_budget P = None" "cg_wf (p_cg P)" for x y s d st P
    proof -
      have "sym_token y = u" using that(3) quotient.hyps(3) by (auto simp: keeps_literal_def)
      then show ?thesis using reduce_arithmetic [of x y t s d P w st] that quotient.hyps by simp
    qed
  qed (use k prec_facts in \<open>auto simp: context_ok_def follow_ok_def\<close>)
next
  case (sum ts e t us f)
  have k: "convert_token_to_index t = INDEX_ADD_SUB" using sum.hyps(2) by (auto simp: convert_token_to_index_def)
  show ?case
  proof (rule becomes_binary [where n' = 1 and m = 2 and es = "operation_events (tok_type t)", OF sum.IH(1,2)])
    show "us \<noteq> []" using phrase_ne sum.hyps by blast
    show "\<exists>v G. computed (ex_type (Bin (tok_type t) e f)) v \<and>
        reduce (y # s # x # d # st) P = Some (v # unmark d # st, P\<lparr>p_cg := G\<rparr>) \<and> wrote (operation_events (tok_type t)) P (P\<lparr>p_cg := G\<rparr>)"
      if "value_symbol (ex_type e) x" "value_symbol (ex_type f) y" "terminal t s" "is_handleBegin d" "p_budget P = None"
        "cg_wf (p_cg P)" for x y s d st P
      using reduce_arithmetic [of x y t s d P 0 st] that sum.hyps by auto
  qed (use k prec_facts in \<open>auto simp: context_ok_def follow_ok_def\<close>)
next
  case (comparison ts e t us f)
  have k: "convert_token_to_index t = INDEX_RELATIONAL_OP"
    using comparison.hyps(2) by (auto simp: relations_def convert_token_to_index_def)
  have n: "ex_type e \<noteq> T_nil" by (cases e) simp_all
  show ?case
  proof (rule becomes_binary [where n' = 1 and m = 1 and es = "operation_events (tok_type t)", OF comparison.IH(1,2)])
    show "us \<noteq> []" using phrase_ne comparison.hyps by blast
    show "\<exists>v G. computed (ex_type (Cmp (tok_type t) e f)) v \<and>
        reduce (y # s # x # d # st) P = Some (v # unmark d # st, P\<lparr>p_cg := G\<rparr>) \<and> wrote (operation_events (tok_type t)) P (P\<lparr>p_cg := G\<rparr>)"
      if "value_symbol (ex_type e) x" "value_symbol (ex_type f) y" "terminal t s" "is_handleBegin d" "p_budget P = None"
        "cg_wf (p_cg P)" for x y s d st P
      using reduce_relational [OF that(1) _ n that(3-6), of y st] that(2) comparison.hyps by simp
  qed (use k prec_facts in \<open>auto simp: context_ok_def follow_ok_def\<close>)
qed

section \<open>The whole expression\<close>

text \<open>
  The variable on the left, if there is one, is not of type \<open>Double\<close>: an integer expression
  of literals would be converted.
\<close>

definition lhs_plain :: "parser \<Rightarrow> bool" where
  "lhs_plain P \<longleftrightarrow> (case lhs_id P of None \<Rightarrow> True
     | Some a \<Rightarrow> (case sh_items (p_heap P) a of None \<Rightarrow> False | Some it \<Rightarrow> it_type it \<noteq> T_double))"

text \<open>
  The parser stands on the token in front of the expression, the expression is followed by a
  token that ends it: \<open>expr\<close> returns no error, the type of the expression, and its code, and the
  parser stands on the token behind it.
\<close>

definition ends_expression :: "token \<Rightarrow> bool" where
  "ends_expression b \<longleftrightarrow> convert_token_to_index b = INDEX_DOLLAR \<or> line_end b"

text \<open>The end of the loop, and the step to the token that was put back.\<close>

lemma stopped_finished: "stopped toks i b us P \<Longrightarrow> ends_expression b \<Longrightarrow> convert_token_to_index (curr_tok P) = INDEX_DOLLAR"
  by (auto simp: stopped_def ends_expression_def paused_def reading_def EMPTY_TOKEN_def convert_token_to_index_def
      line_end_def split: if_splits)

lemma stopped_resume:
  assumes "stopped toks i b us P"
  obtains P' where "reading toks i (b # us) P'" "expr_frame P P'" "p_cg P' = p_cg P"
    "(if get_is_multiline_expr P then GET_TOKEN k (set_is_multiline_expr False P) else k P) = k P'"
proof (cases "line_end b")
  case False
  then show ?thesis using that [of P] assms by (auto simp: stopped_def reading_def get_is_multiline_expr_def)
next
  case True
  then have p: "0 < i" "paused toks (i - 1) (b # us) P" using assms by (simp_all add: stopped_def)
  let ?P = "P\<lparr>is_multiline_expr := False\<rparr>"
  have at: "at_token toks (i - 1) ?P" "drop i toks = b # us" using p by (simp_all add: paused_def at_token_def)
  then have l: "i < length toks" "toks ! i = b"
    by (metis drop_all list.distinct(1) not_le, metis at(2) hd_drop_conv_nth drop_all list.distinct(1) list.sel(1) not_le)
  have n: "tok_type b \<noteq> TOKEN_UNDEFINED" using p(2) by (simp add: paused_def)
  have "GET_TOKEN k ?P = k (advance ?P)" "at_token toks i (advance ?P)" "curr_tok (advance ?P) = b"
    using GET_TOKEN_next [OF at(1)] l n p(1) by simp_all
  moreover have "reading toks i (b # us) (advance ?P)"
    using calculation p(2) at(2) by (simp add: reading_def paused_def)
  moreover have "get_is_multiline_expr P" using p(2) by (simp add: paused_def get_is_multiline_expr_def)
  ultimately show ?thesis using that [of "advance ?P"] by (simp add: set_is_multiline_expr_def)
qed

lemma expr_starts:
  assumes "reading toks i (t0 # t1 # ts) P"
  obtains d where "push_initial_sym init_symstack P = Some ([d], P)" "is_terminal d" "\<not> is_handleBegin d"
    "convert_term_to_index d = INDEX_DOLLAR" "\<And>k. GET_TOKEN k P = k (advance P)" "reading toks (Suc i) (t1 # ts) (advance P)"
    "preceding_eol (sym_token d) = preceding_eol (sym_token (stale P))"
proof -
  have bd: "p_budget P = None" using assms by (simp add: reading_def)
  obtain d where "push_initial_sym init_symstack P = Some ([d], P)" "is_terminal d" "\<not> is_handleBegin d"
    "convert_term_to_index d = INDEX_DOLLAR" "preceding_eol (sym_token d) = preceding_eol (sym_token (stale P))"
    using bd by (simp add: push_initial_sym_def strcpy_symbol_def symbol_fits push_symbol_def init_symstack_def
        convert_term_to_index_def convert_token_to_index_def)
  then show ?thesis using that [of d] reading_advance [OF assms] by simp
qed

text \<open>The end of \<open>expr\<close>, when one symbol is left above the bottom: the code of the first error is returned.\<close>

lemma expr_ends:
  assumes d: "push_initial_sym init_symstack P = Some ([d], P)" "is_terminal d" "convert_term_to_index d = INDEX_DOLLAR"
      "\<And>k. GET_TOKEN k P = k (advance P)"
    and s: "reach [d] (advance P) [s, d] P1" "value_symbol T s" and b: "stopped toks i b us P1" "ends_expression b"
    and P: "lhs_plain P1"
  obtains P2 where "expr P = Some (error_code_handler EXIT_SUCCESS (P2\<lparr>is_all_literals := True, p_expr_res := \<lparr>expr_type = T, nilable = False\<rparr>\<rparr>))"
    "reading toks i (b # us) P2" "expr_frame P1 P2" "p_cg P2 = p_cg P1"
proof -
  have "expr_finished ([s] @ d # []) P1 = Some True"
    by (subst finished_terminal) (use value_symbol_terminal [OF s(2)] d stopped_finished [OF b] in auto)
  then have loop: "expr_loop [d] (advance P) = Some (EXIT_SUCCESS, [s, d], P1)"
    using reach_loop [OF s(1)] by simp
  obtain P2 where P2: "reading toks i (b # us) P2" "expr_frame P1 P2" "p_cg P2 = p_cg P1"
    "(if get_is_multiline_expr P1 then GET_TOKEN (expr_end s) (set_is_multiline_expr False P1) else expr_end s P1) = expr_end s P2"
    by (rule stopped_resume [OF b(1)])
  have "expr P = expr_end s P2"
    using d(1,4) loop P2(4) by (simp add: expr_def symstack_pop_def)
  also have "verify_lhs_type s P2 = Some (s, set_is_all_literals True P2)"
    using P P2(2) by (auto simp: verify_lhs_type_def lhs_plain_def item_at_def expr_frame_def split: option.splits)
  then have "expr_end s P2 = Some (error_code_handler EXIT_SUCCESS (P2\<lparr>is_all_literals := True, p_expr_res := \<lparr>expr_type = T, nilable = False\<rparr>\<rparr>))"
    using s(2) by (simp add: expr_end_def set_is_all_literals_def value_symbol_def)
  finally show ?thesis using that P2 by blast
qed

lemma lhs_plain_frame: "expr_frame P P' \<Longrightarrow> lhs_plain P' = lhs_plain P"
  by (simp add: lhs_plain_def expr_frame_def split: option.split)

lemma expr_phrase:
  assumes r: "reading toks i (t0 # ts @ b # us) P" and ph: "phrase (int_var P) 0 ts e" and b: "ends_expression b"
    and P: "expr_err P = EXIT_SUCCESS" "lhs_plain P" "cg_wf (p_cg P)"
  obtains P' where "expr P = Some (ERR_NO_ERR, P')" "wrote (code_events e) P P'"
    "p_expr_res P' = \<lparr>expr_type = ex_type e, nilable = False\<rparr>" "reading toks (i + Suc (length ts)) (b # us) P'"
    "is_all_literals P'"
proof -
  obtain t1 ts' where t1: "ts = t1 # ts'" using phrase_ne [OF ph] by (cases ts) auto
  obtain d where d: "push_initial_sym init_symstack P = Some ([d], P)" "is_terminal d" "\<not> is_handleBegin d"
    "convert_term_to_index d = INDEX_DOLLAR" "\<And>k. GET_TOKEN k P = k (advance P)"
    and r1: "reading toks (Suc i) (ts @ b # us) (advance P)"
    by (rule expr_starts [of toks i t0 t1 "ts' @ b # us" P]) (use r t1 in auto)
  obtain s P1 where s: "value_symbol (ex_type e) s" "reach [d] (advance P) [s, d] P1"
    "stopped toks (Suc i + length ts) b us P1" "wrote (code_events e) (advance P) P1"
    by (rule becomesE [OF phrase_becomes [OF ph] _ r1 _ d(2,3), of "[]"])
      (use b d(4) P(3) in \<open>auto simp: ends_expression_def follows_def follow_ok_def context_ok_def\<close>)
  have f1: "expr_frame P P1" using s(4) expr_frame_trans [of P "advance P" P1] by (simp add: wrote_def)
  have l1: "lhs_plain P1" using lhs_plain_frame [OF f1] P(2) by simp
  obtain P2 where P2: "expr P = Some (error_code_handler EXIT_SUCCESS
      (P2\<lparr>is_all_literals := True, p_expr_res := \<lparr>expr_type = ex_type e, nilable = False\<rparr>\<rparr>))"
    "reading toks (Suc i + length ts) (b # us) P2" "expr_frame P1 P2" "p_cg P2 = p_cg P1"
    by (rule expr_ends [OF d(1,2,4,5) s(2,1,3) b l1])
  have fr: "expr_frame P P2" by (rule expr_frame_trans [OF f1 P2(3)])
  let ?P' = "P2\<lparr>is_all_literals := True, p_expr_res := \<lparr>expr_type = ex_type e, nilable = False\<rparr>\<rparr>"
  have "expr P = Some (ERR_NO_ERR, ?P')"
    using P2(1) fr P(1) by (simp add: expr_frame_def error_code_handler_def ERR_NO_ERR_def EXIT_SUCCESS_def)
  moreover have "wrote (code_events e) P ?P'" using s(4) fr P2(4) by (simp add: wrote_def)
  moreover have "reading toks (i + Suc (length ts)) (b # us) ?P'" using P2(2) by simp
  ultimately show ?thesis using that [of ?P'] by simp
qed

end
