(* ===== verification/Expression_Errors.thy ===== *)
theory Expression_Errors
  imports Expression_Parsing
begin

text \<open>
  The precedence table and the rules behind it, the typing of arithmetic operations,
  and the error paths of the analysis, three of which are undefined.
\<close>

section \<open>The precedence table\<close>

text \<open>
  The rules behind the documented table, for a terminal \<open>i\<close> on the stack and a terminal \<open>j\<close> of the
  input: of two binary operators the one that binds tighter goes first, and those of one level go
  by their associativity; an operand that begins is shifted, one that is complete is reduced, and
  two operands cannot stand side by side; the brackets and the ends of the text enclose what is
  between them.
\<close>

datatype associativity = Left | Right | Nonassoc

fun operator_level :: "prec_tab_index \<Rightarrow> (nat \<times> associativity) option" where
  "operator_level INDEX_MUL_DIV = Some (4, Left)"
| "operator_level INDEX_ADD_SUB = Some (3, Left)"
| "operator_level INDEX_RELATIONAL_OP = Some (2, Nonassoc)"
| "operator_level INDEX_NILL_CHECK = Some (1, Right)"
| "operator_level _ = None"

fun associate :: "associativity \<Rightarrow> prec_op" where
  "associate Left = PREC_R"
| "associate Right = PREC_S"
| "associate Nonassoc = PREC_E"

definition begins_operand :: "prec_tab_index \<Rightarrow> bool" where
  "begins_operand j \<longleftrightarrow> j = INDEX_IDENTIFIER \<or> j = INDEX_LPAR"

definition completes_operand :: "prec_tab_index \<Rightarrow> bool" where
  "completes_operand i \<longleftrightarrow> i = INDEX_IDENTIFIER \<or> i = INDEX_RPAR \<or> i = INDEX_NOT_NIL"

text \<open>
  \<open>!\<close> follows names only, so not a closing bracket and not the start of the text; a \<open>!\<close> on the stack
  is reduced whatever follows. At the start of the text a closing bracket is shifted.
\<close>

definition documented_action :: "prec_tab_index \<Rightarrow> prec_tab_index \<Rightarrow> prec_op" where
  "documented_action i j =
     (if i = INDEX_NOT_NIL then PREC_R
      else if completes_operand i then
        (if begins_operand j \<or> i = INDEX_RPAR \<and> j = INDEX_NOT_NIL then PREC_X else PREC_R)
      else if begins_operand j then PREC_S
      else if j = INDEX_NOT_NIL then (if i = INDEX_DOLLAR then PREC_X else PREC_S)
      else (case (operator_level i, operator_level j) of
          (Some (l, a), Some (m, _)) \<Rightarrow> if m < l then PREC_R else if l < m then PREC_S else associate a
        | (Some _, None) \<Rightarrow> PREC_R
        | (None, Some _) \<Rightarrow> PREC_S
        | (None, None) \<Rightarrow>
            if i = INDEX_LPAR then (if j = INDEX_RPAR then PREC_E else PREC_X)
            else (if j = INDEX_RPAR then PREC_S else PREC_R)))"

lemmas documented_defs = documented_action_def begins_operand_def completes_operand_def

lemma prec_tab_documented:
  "prec_tab_at i j =
     (if (i, j) = (INDEX_DOLLAR, INDEX_RPAR) then PREC_X
      else if (i, j) = (INDEX_DOLLAR, INDEX_NOT_NIL) then PREC_S
      else documented_action i j)"
  by (cases i; cases j) (simp_all add: prec_tab_at_def prec_tab_def index_number_def documented_defs)

section \<open>Types of arithmetic operations\<close>

text \<open>A value of type \<open>T\<close> on the stack, and whether it is built of literals only.\<close>

definition operand :: "ty \<Rightarrow> bool \<Rightarrow> symstack_data \<Rightarrow> bool" where
  "operand T l s \<longleftrightarrow> sym_expr_res s = \<lparr>expr_type = T, nilable = False\<rparr> \<and> sym_is_literal s = l"

text \<open>
  Numbers of one type, strings joined with \<open>+\<close>, and a \<open>Double\<close> with an integer literal are
  allowed; everything else has no type.
\<close>

definition arithmetic_type :: "token_type \<Rightarrow> ty \<Rightarrow> bool \<Rightarrow> ty \<Rightarrow> bool \<Rightarrow> ty option" where
  "arithmetic_type oper T l T' l' =
     (if T = T' \<and> (T = T_integer \<or> T = T_double \<or> T = T_string \<and> oper = TOKEN_ADD) then Some T
      else if T = T_integer \<and> l \<and> T' = T_double \<or> T = T_double \<and> T' = T_integer \<and> l' then Some T_double
      else None)"

definition prints_some :: "(codegen \<Rightarrow> codegen c) \<Rightarrow> bool" where
  "prints_some f \<longleftrightarrow> (\<exists>es. prints UNIV 0 f es)"

lemma prints_some_run: "\<forall>f\<in>set fs. prints_some f \<Longrightarrow> prints_some (run fs)"
proof -
  assume "\<forall>f\<in>set fs. prints_some f"
  then obtain h where h: "\<forall>f\<in>set fs. prints UNIV 0 f (h f)" unfolding prints_some_def by metis
  then have "prints UNIV 0 (run fs) (concat (map h fs))"
    by (intro prints_run) (simp add: list_all2_conv_all_nth)
  then show ?thesis by (auto simp: prints_some_def)
qed

lemma prints_some_operation:
  "prints_some (code_generator_operations oper i)" "prints_some code_generator_concats"
  "prints_some (code_generator_int2doubles 0)" "prints_some (code_generator_int2doubles 1)"
proof -
  have p: "prints_some (BUFFER_PRINT s)" if "plain s" for s
    using prints_BUFFER_PRINT [OF that] by (auto simp: prints_some_def)
  have f: "prints_some code_generator_createframe" "prints_some code_generator_pushframe" "prints_some code_generator_popframe"
    unfolding prints_some_def using prints_frames by blast+
  show "prints_some (code_generator_operations oper i)"
    unfolding prints_some_def using prints_operations by blast
  show "prints_some code_generator_concats"
    unfolding code_generator_concats_def by (rule prints_some_run) (auto intro!: p)
  show "prints_some (code_generator_int2doubles 0)" "prints_some (code_generator_int2doubles 1)"
    unfolding code_generator_int2doubles_def
    by (rule prints_some_run; auto intro!: p f simp: plain_dec_string)+
qed

lemma generate_some:
  assumes "prints_some f" "cg_wf (p_cg P)"
  shows "generate (\<lambda>_. f) P = Some (P\<lparr>p_cg := the (f (p_cg P))\<rparr>)" "cg_wf (the (f (p_cg P)))"
proof -
  obtain es where es: "prints UNIV 0 f es" using assms(1) by (auto simp: prints_some_def)
  obtain G where G: "generate (\<lambda>_. f) P = Some (P\<lparr>p_cg := G\<rparr>)" "wrote es P (P\<lparr>p_cg := G\<rparr>)"
    by (rule generate_prints [where f = "\<lambda>_. f" and P = P, OF es assms(2)])
  obtain G' where G': "f (p_cg P) = Some G'" using G(1) by (auto simp: generate_def bind_Some_iff)
  then have "cg_wf G'" using G wrote_cg_wf [OF G(2)] by (auto simp: generate_def dest: arg_cong [where f = p_cg])
  then show "generate (\<lambda>_. f) P = Some (P\<lparr>p_cg := the (f (p_cg P))\<rparr>)" "cg_wf (the (f (p_cg P)))"
    using G' by (simp_all add: generate_def)
qed

lemmas operation_defs = compare_types_strict_def compare_operand_with_type_def is_identifier_def operand_is_nilable_def
  DEFINE_EXPR_SYMBOL_def set_expr_type_def REPORT_ERROR_def error_code_handler_def

lemma convert_differing:
  assumes "operand T l a" "operand T' l' b" "T \<noteq> T'" "cg_wf (p_cg P)"
  obtains (first) G where "T = T_integer" "T' = T_double" "l" "cg_wf G"
      "convert_if_retypeable a b P = Some (set_expr_type T_double a, b, P\<lparr>p_cg := G\<rparr>)"
    | (second) G where "T = T_double" "T' = T_integer" "l'" "cg_wf G"
      "convert_if_retypeable a b P = Some (a, set_expr_type T_double b, P\<lparr>p_cg := G\<rparr>)"
    | (neither) "arithmetic_type oper T l T' l' = None"
      "convert_if_retypeable a b P = Some (a, b, REPORT_ERROR ERR_INCOMPATIBILE_TYPE P)"
proof -
  note g = prints_some_operation(3,4) [THEN generate_some(1), OF assms(4)] prints_some_operation(3,4) [THEN generate_some(2), OF assms(4)]
  consider "T = T_integer \<and> T' = T_double \<and> l" | "T = T_double \<and> T' = T_integer \<and> l'"
    | "\<not> (T = T_integer \<and> T' = T_double \<and> l)" "\<not> (T = T_double \<and> T' = T_integer \<and> l')" by blast
  then show ?thesis
  proof cases
    case 1
    show ?thesis
      by (rule first [OF _ _ _ g(4)])
        (use 1 assms(1,2) g in \<open>simp_all add: convert_if_retypeable_def operand_def compare_operand_with_type_def\<close>)
  next
    case 2
    show ?thesis
      by (rule second [OF _ _ _ g(3)])
        (use 2 assms(1,2) g in \<open>simp_all add: convert_if_retypeable_def operand_def compare_operand_with_type_def\<close>)
  next
    case 3
    then have "arithmetic_type oper T l T' l' = None" using assms(3) by (auto simp: arithmetic_type_def)
    moreover have "convert_if_retypeable a b P = Some (a, b, REPORT_ERROR ERR_INCOMPATIBILE_TYPE P)"
      using 3 assms(1-3) by (auto simp: convert_if_retypeable_def operand_def compare_operand_with_type_def)
    ultimately show ?thesis by (rule neither)
  qed
qed

lemma concatenation_typing:
  assumes "operand T l a" "operand T' l' b" "sym_token s = t" "cg_wf (p_cg P)"
  shows "\<exists>e P'. process_concatenation \<lparr>arr = Arr_block [a, s, b], arr_size = 3\<rparr> P = Some (e, P') \<and>
    (if tok_type t = TOKEN_ADD \<and> T = T'
     then expr_err P' = expr_err P \<and> sym_expr_res e = \<lparr>expr_type = T_string, nilable = False\<rparr>
     else expr_err P' = (if expr_err P = EXIT_SUCCESS then ERR_INCOMPATIBILE_TYPE else expr_err P))"
proof -
  note g = prints_some_operation [THEN generate_some(1)]
  show ?thesis
    using assms g
    by (cases "tok_type t = TOKEN_ADD"; cases "T = T'"; simp add: process_concatenation_def arr_at_def operand_def operation_defs)
qed

text \<open>Operands of different types that no conversion makes equal, one of them a literal.\<close>

lemma arithmetic_differing:
  assumes op: "operand T l a" "operand T' l' b" and t: "sym_token s = t" "tok_type t \<in> {TOKEN_ADD, TOKEN_SUB, TOKEN_MUL, TOKEN_DIV}"
    and P: "expr_err P = EXIT_SUCCESS" "cg_wf (p_cg P)" and differ: "T \<noteq> T'" "l \<or> l'"
    and conv: "convert_if_retypeable a b P = Some (a, b, REPORT_ERROR ERR_INCOMPATIBILE_TYPE P)"
  shows "\<exists>e P'. process_arithmetic_operation \<lparr>arr = Arr_block [a, s, b], arr_size = 3\<rparr> P = Some (e, P') \<and>
    expr_err P' = ERR_INCOMPATIBILE_TYPE"
proof -
  note g = prints_some_operation(1) [THEN generate_some(1)]
  let ?Q = "P\<lparr>expr_err := ERR_INCOMPATIBILE_TYPE\<rparr>"
  have q: "REPORT_ERROR ERR_INCOMPATIBILE_TYPE P = ?Q" using P(1) by (simp add: operation_defs)
  have k: "\<not> compare_types_strict a b" "sym_is_literal a \<or> sym_is_literal b" "\<not> (is_identifier a \<and> is_identifier b)"
    "\<not> operand_is_nilable a" "\<not> operand_is_nilable b"
    using differ op by (auto simp: operand_def operation_defs)
  show ?thesis
  proof (cases "compare_operand_with_type a T_string \<or> compare_operand_with_type b T_string")
    case string: True
    obtain e P' where e: "process_concatenation \<lparr>arr = Arr_block [a, s, b], arr_size = 3\<rparr> ?Q = Some (e, P')"
      "expr_err P' = ERR_INCOMPATIBILE_TYPE"
      using concatenation_typing [OF op t(1), of ?Q] P(2) differ(1) by (auto simp: error_codes EXIT_SUCCESS_def)
    have "process_arithmetic_operation \<lparr>arr = Arr_block [a, s, b], arr_size = 3\<rparr> P = Some (e, P')"
      using string by (simp add: process_arithmetic_operation_def arr_at_def conv q k e(1))
    then show ?thesis using e(2) by simp
  next
    case numeric: False
    have d: "\<exists>e. process_division a b ?Q = Some (e, ?Q)"
      using k(1) by (simp add: process_division_def REPORT_ERROR_def error_code_handler_def error_codes EXIT_SUCCESS_def)
    show ?thesis
    proof (cases "tok_type t = TOKEN_DIV")
      case True
      then have "process_arithmetic_operation \<lparr>arr = Arr_block [a, s, b], arr_size = 3\<rparr> P = process_division a b ?Q"
        using numeric by (simp add: process_arithmetic_operation_def arr_at_def conv q k t(1))
      then show ?thesis using d by auto
    next
      case False
      then have "\<exists>e G. process_arithmetic_operation \<lparr>arr = Arr_block [a, s, b], arr_size = 3\<rparr> P = Some (e, ?Q\<lparr>p_cg := G\<rparr>)"
        using numeric g [of ?Q] P(2)
        by (simp add: process_arithmetic_operation_def arr_at_def conv q k t(1) Let_def) blast
      then show ?thesis by auto
    qed
  qed
qed

text \<open>
  The result of an addition, a subtraction or a multiplication: the type of the reference, or
  the error code for incompatible types.
\<close>

lemma arithmetic_typing:
  assumes op: "operand T l a" "operand T' l' b" and t: "sym_token s = t" "tok_type t \<in> {TOKEN_ADD, TOKEN_SUB, TOKEN_MUL}"
    and P: "expr_err P = EXIT_SUCCESS" "cg_wf (p_cg P)"
  shows "\<exists>e P'. process_arithmetic_operation \<lparr>arr = Arr_block [a, s, b], arr_size = 3\<rparr> P = Some (e, P') \<and>
    (case arithmetic_type (tok_type t) T l T' l' of
       Some R \<Rightarrow> expr_err P' = EXIT_SUCCESS \<and> sym_expr_res e = \<lparr>expr_type = R, nilable = False\<rparr>
     | None \<Rightarrow> expr_err P' = ERR_INCOMPATIBILE_TYPE)"
proof -
  note defs = process_arithmetic_operation_def arr_at_def operation_defs arithmetic_type_def error_codes EXIT_SUCCESS_def
  note g = prints_some_operation(1) [THEN generate_some(1)]
  have nd: "tok_type t \<noteq> TOKEN_DIV" using t(2) by auto
  have c: "\<exists>e P'. process_concatenation \<lparr>arr = Arr_block [a, s, b], arr_size = 3\<rparr> Q = Some (e, P') \<and>
      (if tok_type t = TOKEN_ADD \<and> T = T'
       then expr_err P' = expr_err Q \<and> sym_expr_res e = \<lparr>expr_type = T_string, nilable = False\<rparr>
       else expr_err P' = (if expr_err Q = EXIT_SUCCESS then ERR_INCOMPATIBILE_TYPE else expr_err Q))"
    if "cg_wf (p_cg Q)" for Q by (rule concatenation_typing [OF op t(1) that])
  show ?thesis
  proof (cases "T = T'")
    case True
    consider "T = T_string" | "T = T_integer \<or> T = T_double" | "T \<noteq> T_string" "T \<noteq> T_integer" "T \<noteq> T_double" by blast
    then show ?thesis
    proof cases
      case 1
      then show ?thesis using True op t c [OF P(2)] P(1) by (auto simp: operand_def defs split: if_splits)
    next
      case 2
      then show ?thesis using True op t nd g [OF P(2)] P(1) by (auto simp: operand_def defs)
    next
      case 3
      then show ?thesis using True op t nd P(1) by (simp add: operand_def defs)
    qed
  next
    case False
    show ?thesis
    proof (cases "l \<or> l'")
      case True
      from op False P(2) show ?thesis
      proof (cases rule: convert_differing [where oper = "tok_type t"])
        case (first G)
        then show ?thesis using True op t nd g [of "P\<lparr>p_cg := G\<rparr>"] P(1) by (simp add: operand_def defs)
      next
        case (second G)
        then show ?thesis using True op t nd g [of "P\<lparr>p_cg := G\<rparr>"] P(1) by (simp add: operand_def defs)
      next
        case neither
        then show ?thesis using arithmetic_differing [OF op t(1) _ P False True neither(2)] t(2) neither(1) by auto
      qed
    next
      case no: False
      have "arithmetic_type (tok_type t) T l T' l' = None" using False no by (simp add: arithmetic_type_def)
      then show ?thesis using False no op t P(1) by (simp add: operand_def defs)
    qed
  qed
qed

text \<open>
  A division has the same types, and a divisor whose value reads as 0 is an error. Two values of
  one type that is neither a number nor a string are divided without an error.
\<close>

definition zero_divisor :: "parser \<Rightarrow> ty \<Rightarrow> token \<Rightarrow> bool" where
  "zero_divisor P R t = (if R = T_integer then int_val_is_0 P t else double_val_is_0 P t)"

lemma val_is_0_code: "int_val_is_0 (P\<lparr>p_cg := G\<rparr>) = int_val_is_0 P" "double_val_is_0 (P\<lparr>p_cg := G\<rparr>) = double_val_is_0 P"
  by (rule ext; simp add: int_val_is_0_def double_val_is_0_def split: token_value.split)+

lemma division_of_equal:
  assumes "sym_expr_res a = \<lparr>expr_type = R, nilable = False\<rparr>" "sym_expr_res b = \<lparr>expr_type = R, nilable = False\<rparr>"
    "expr_err P = EXIT_SUCCESS" "cg_wf (p_cg P)"
  shows "\<exists>e P'. process_division a b P = Some (e, P') \<and>
    sym_expr_res e = \<lparr>expr_type = (if R = T_integer then T_integer else T_double), nilable = False\<rparr> \<and>
    expr_err P' = (if R \<in> {T_integer, T_double} \<and> zero_divisor P R (sym_token b) then ERR_SEMANTIC else EXIT_SUCCESS)"
proof -
  note g = prints_some_operation(1) [THEN generate_some(1), OF assms(4)]
  show ?thesis
    using assms g
    by (cases "R = T_integer"; cases "R = T_double"; cases "zero_divisor P R (sym_token b)")
      (simp_all add: process_division_def zero_divisor_def operation_defs error_codes EXIT_SUCCESS_def)
qed

lemma division_typing:
  assumes op: "operand T l a" "operand T' l' b" and t: "sym_token s = t" "tok_type t = TOKEN_DIV"
    and P: "expr_err P = EXIT_SUCCESS" "cg_wf (p_cg P)"
  shows "\<exists>e P'. process_arithmetic_operation \<lparr>arr = Arr_block [a, s, b], arr_size = 3\<rparr> P = Some (e, P') \<and>
    (case arithmetic_type TOKEN_DIV T l T' l' of
       Some R \<Rightarrow> sym_expr_res e = \<lparr>expr_type = R, nilable = False\<rparr> \<and>
         expr_err P' = (if zero_divisor P R (sym_token b) then ERR_SEMANTIC else EXIT_SUCCESS)
     | None \<Rightarrow>
         if T = T' \<and> T \<noteq> T_string
         then sym_expr_res e = \<lparr>expr_type = T_double, nilable = False\<rparr> \<and> expr_err P' = EXIT_SUCCESS
         else expr_err P' = ERR_INCOMPATIBILE_TYPE)"
proof -
  let ?h = "\<lparr>arr = Arr_block [a, s, b], arr_size = 3\<rparr>"
  note defs = process_arithmetic_operation_def arr_at_def arithmetic_type_def compare_types_strict_def
    compare_operand_with_type_def is_identifier_def operand_is_nilable_def set_expr_type_def
  show ?thesis
  proof (cases "T = T'")
    case same: True
    show ?thesis
    proof (cases "T = T_string")
      case True
      then show ?thesis
        using concatenation_typing [OF op t(1) P(2)] same op t P(1) by (auto simp: operand_def defs error_codes EXIT_SUCCESS_def)
    next
      case False
      have "process_arithmetic_operation ?h P = process_division a b P"
        using same False op t by (simp add: operand_def defs)
      with division_of_equal [of a T b P] same False op P show ?thesis
        by (auto simp: operand_def arithmetic_type_def)
    qed
  next
    case False
    show ?thesis
    proof (cases "l \<or> l'")
      case True
      from op False P(2) show ?thesis
      proof (cases rule: convert_differing [where oper = TOKEN_DIV])
        case (first G)
        have "process_arithmetic_operation ?h P = process_division (set_expr_type T_double a) b (P\<lparr>p_cg := G\<rparr>)"
          using first True op t by (simp add: operand_def defs)
        with division_of_equal [of "set_expr_type T_double a" T_double b "P\<lparr>p_cg := G\<rparr>"] first op P show ?thesis
          by (auto simp: operand_def arithmetic_type_def zero_divisor_def set_expr_type_def val_is_0_code)
      next
        case (second G)
        have "process_arithmetic_operation ?h P = process_division a (set_expr_type T_double b) (P\<lparr>p_cg := G\<rparr>)"
          using second True op t by (simp add: operand_def defs)
        with division_of_equal [of a T_double "set_expr_type T_double b" "P\<lparr>p_cg := G\<rparr>"] second op P show ?thesis
          by (auto simp: operand_def arithmetic_type_def zero_divisor_def set_expr_type_def val_is_0_code)
      next
        case neither
        then show ?thesis using arithmetic_differing [OF op t(1) _ P False True neither(2)] t(2) False neither(1) by auto
      qed
    next
      case no: False
      have "arithmetic_type TOKEN_DIV T l T' l' = None" using False no by (simp add: arithmetic_type_def)
      then show ?thesis using False no op t P(1) by (simp add: operand_def defs REPORT_ERROR_def error_code_handler_def)
    qed
  qed
qed

section \<open>Error paths\<close>

text \<open>
  A handle no rule fits, with no line break on the stack: \<open>reduce\<close> frees the array of symbols
  twice.
\<close>

lemma reduce_no_rule:
  assumes "is_handleBegin d" "p_budget P = None" "length xs \<le> MAX_EXPR_SIZE" "xs \<noteq> []"
    "\<forall>x\<in>set xs. \<not> is_handleBegin x" "\<not> find_closest_eol (d # st)"
    "get_rule \<lparr>arr = Arr_block (rev xs), arr_size = length xs\<rparr> = Some RULE_NO_RULE"
  shows "reduce (xs @ d # st) P = UB"
proof -
  have "\<not> find_closest_eol (d\<lparr>is_handleBegin := False\<rparr> # st)" using assms(6) by (simp split: if_splits)
  then show ?thesis
    using move_handle [OF assms(1-5), of st] symbol_arr_reverse_rev [of xs] assms(7)
    by (auto simp: reduce_def symbol_arr_free_def split: bind_split)
qed

text \<open>
  A \<open>!\<close> at the start of an expression is shifted, and no rule fits it.
\<close>

lemma expr_leading_not_nil:
  assumes r: "reading toks i (t0 # t # u # us) P" and t: "tok_type t = TOKEN_NOT_NIL" and eol: "\<not> preceding_eol (sym_token (stale P))"
  shows "expr P = UB"
proof -
  obtain d where d: "push_initial_sym init_symstack P = Some ([d], P)" "is_terminal d" "\<not> is_handleBegin d"
    "convert_term_to_index d = INDEX_DOLLAR" "\<And>k. GET_TOKEN k P = k (advance P)"
    and r1: "reading toks (Suc i) (t # u # us) (advance P)" and de: "\<not> preceding_eol (sym_token d)"
    by (rule expr_starts [OF r]) (use eol in auto)
  have k: "convert_token_to_index t = INDEX_NOT_NIL" using t by (simp add: convert_token_to_index_def)
  let ?P = "advance (advance P)"
  obtain s where s: "terminal t s" "expr_step ([] @ d # []) (advance P) = Some (EXIT_SUCCESS, s # [] @ mark d # [], ?P)"
    by (rule shift_step [OF r1, of "[]" d "[]"]) (use d(2,4) k in \<open>simp_all add: prec_defs\<close>)
  have st: "is_terminal s" "\<not> is_handleBegin s" "convert_term_to_index s = INDEX_NOT_NIL" "sym_token s = t"
    using s(1) k by (simp_all add: terminal_index) (simp_all add: terminal_def)
  have bd: "p_budget ?P = None" using r1 by (simp add: reading_def)
  have "get_rule \<lparr>arr = Arr_block (rev [s]), arr_size = length [s]\<rparr> = Some RULE_NO_RULE"
    using st(1,4) t by (simp add: get_rule_def arr_at_def is_operand_def is_literal_def)
  then have "reduce ([s] @ mark d # []) ?P = UB"
    by (intro reduce_no_rule) (use bd st(2) de in \<open>simp_all add: MAX_EXPR_SIZE_def mark_def\<close>)
  moreover have "get_prec_table_operation ([] @ s # [mark d]) (curr_tok ?P) = PREC_R"
    by (subst prec_operation) (use st(1,3) in \<open>simp_all add: prec_defs split: prec_tab_index.split\<close>)
  ultimately have "expr_step [s, mark d] ?P = UB" by (simp add: expr_step_def)
  moreover have "expr_finished ([] @ s # [mark d]) ?P = Some False"
    by (subst finished_terminal) (use st(1,3) in simp_all)
  ultimately have "expr_loop [d] (advance P) = UB"
    using reach_loop [OF reach.step [of "[d]" "advance P" "[s, mark d]" ?P]] s(2) by (simp add: expr_loop.simps [of "[s, mark d]"])
  then show ?thesis using d(1,5) by (simp add: expr_def)
qed

text \<open>
  A divisor that is not a single literal or variable has the empty token, whose value reads
  as 0: the division is reported as a division by zero. The symbol of an expression in
  parentheses is such a divisor.
\<close>

lemma divide_by_compound:
  assumes "operand R l a" "operand R l' b" "R \<in> {T_integer, T_double}" "sym_token b = EMPTY_TOKEN False"
    "expr_err P = EXIT_SUCCESS" "tok_type (sym_token s) = TOKEN_DIV"
  shows "\<exists>e. process_arithmetic_operation \<lparr>arr = Arr_block [a, s, b], arr_size = 3\<rparr> P = Some (e, P\<lparr>expr_err := ERR_SEMANTIC\<rparr>) \<and>
    computed R e"
proof -
  have "process_arithmetic_operation \<lparr>arr = Arr_block [a, s, b], arr_size = 3\<rparr> P = process_division a b P"
    using assms(1-3,6) by (auto simp: process_arithmetic_operation_def arr_at_def operand_def compare_types_strict_def
        is_identifier_def operand_is_nilable_def compare_operand_with_type_def)
  moreover have "\<exists>e. process_division a b P = Some (e, P\<lparr>expr_err := ERR_SEMANTIC\<rparr>) \<and> computed R e"
    using assms(1-5)
    by (auto simp: process_division_def operand_def compare_types_strict_def compare_operand_with_type_def int_val_is_0_def
        double_val_is_0_def EMPTY_TOKEN_def dbl_is_zero_def REPORT_ERROR_def error_code_handler_def computed_def expr_symbol_defs)
  ultimately show ?thesis by simp
qed

lemma parenthesis_compound:
  assumes "operand R l x"
  obtains c where "process_parenthesis \<lparr>arr = Arr_block [lp, x, rp], arr_size = 3\<rparr> P = Some (c, P)" "operand R l c"
    "sym_token c = EMPTY_TOKEN False"
  using that assms by (simp add: process_parenthesis_def arr_at_def operand_def DEFINE_EXPR_SYMBOL_def set_expr_type_def)

lemma divide_by_parenthesis:
  assumes "operand R l a" "operand R l' x" "R \<in> {T_integer, T_double}" "expr_err P = EXIT_SUCCESS"
    "tok_type (sym_token s) = TOKEN_DIV"
  shows "\<exists>c e. process_parenthesis \<lparr>arr = Arr_block [lp, x, rp], arr_size = 3\<rparr> P = Some (c, P) \<and>
    process_arithmetic_operation \<lparr>arr = Arr_block [a, s, c], arr_size = 3\<rparr> P = Some (e, P\<lparr>expr_err := ERR_SEMANTIC\<rparr>)"
proof -
  obtain c where c: "process_parenthesis \<lparr>arr = Arr_block [lp, x, rp], arr_size = 3\<rparr> P = Some (c, P)" "operand R l' c"
    "sym_token c = EMPTY_TOKEN False"
    by (rule parenthesis_compound [OF assms(2)])
  then show ?thesis using divide_by_compound [OF assms(1) c(2) assms(3) c(3) assms(4,5)] by blast
qed

lemma reduce_compound_division:
  assumes "value_symbol T_integer a" "value_symbol T_integer b" "sym_token b = EMPTY_TOKEN False" "terminal t s"
    "tok_type t = TOKEN_DIV" "is_handleBegin d" "p_budget P = None" "expr_err P = EXIT_SUCCESS"
  shows "\<exists>v. computed T_integer v \<and> reduce (b # s # a # d # st) P = Some (v # unmark d # st, P\<lparr>expr_err := ERR_SEMANTIC\<rparr>)"
proof -
  have bin: "is_binary_operator s" "tok_type t \<notin> relations \<union> {TOKEN_NIL_CHECK}"
    using assms(4,5) by (auto simp: is_binary_operator_def terminal_def relations_def)
  have o: "operand T_integer (sym_is_literal a) a" "operand T_integer (sym_is_literal b) b"
    using assms(1,2) by (simp_all add: operand_def value_symbol_def)
  have "tok_type (sym_token s) = TOKEN_DIV" using assms(4,5) by (simp add: terminal_def)
  then obtain v where v: "computed T_integer v"
    "process_arithmetic_operation \<lparr>arr = Arr_block [a, s, b], arr_size = 3\<rparr> P = Some (v, P\<lparr>expr_err := ERR_SEMANTIC\<rparr>)"
    using divide_by_compound [OF o _ assms(3,8)] by blast
  then show ?thesis
    using binary_handle [OF assms(1,2,4,6,7) bin(1)] bin(2) assms(7) by (simp add: push_symbol_def)
qed

text \<open>The whole analysis of \<open>e / f\<close>, where \<open>f\<close> is a factor of several tokens and hence in parentheses.\<close>

lemma expr_compound_division:
  assumes r: "reading toks i (t0 # (ts @ t # us) @ b # vs) P"
    and e: "phrase (int_var P) 2 ts e" "ex_type e = T_integer" and t: "tok_type t = TOKEN_DIV"
    and f: "phrase (int_var P) 3 us f" "ex_type f = T_integer" "1 < length us" and b: "ends_expression b"
    and P: "expr_err P = EXIT_SUCCESS" "lhs_plain P" "cg_wf (p_cg P)"
  shows "\<exists>P'. expr P = Some (ERR_SEMANTIC, P')"
proof -
  have k: "convert_token_to_index t = INDEX_MUL_DIV" using t by (simp add: convert_token_to_index_def)
  obtain t1 ts' where t1: "ts @ t # us @ b # vs = t1 # ts'" by (cases ts) auto
  obtain u us' where u: "us @ b # vs = u # us'" by (cases us) auto
  obtain d where d: "push_initial_sym init_symstack P = Some ([d], P)" "is_terminal d" "\<not> is_handleBegin d"
    "convert_term_to_index d = INDEX_DOLLAR" "\<And>k. GET_TOKEN k P = k (advance P)"
    and r1: "reading toks (Suc i) (ts @ t # u # us') (advance P)"
    by (rule expr_starts [of toks i t0 t1 ts' P]) (use r t1 u in auto)
  obtain s1 s P1 where s1: "value_symbol T_integer s1" "terminal t s" "convert_term_to_index s = INDEX_MUL_DIV"
    "reach [d] (advance P) (s # s1 # mark d # []) P1" "expr_finished (s # s1 # mark d # []) P1 = Some False"
    "reading toks (Suc (Suc i + length ts)) (us @ b # vs) P1" "wrote (code_events e) (advance P) P1"
    by (rule operator_pushed [OF phrase_becomes [OF e(1)] _ r1 d(2,3), of "[]"])
      (use d(4) e(2) k u P(3) in \<open>auto simp: prec_defs\<close>)
  have st: "is_terminal s" "\<not> is_handleBegin s" using s1(2) by (simp_all add: terminal_def)
  have f1: "expr_frame P P1" using s1(7) expr_frame_trans [of P "advance P" P1] by (simp add: wrote_def)
  have fb: "follows n b" for n using b by (auto simp: ends_expression_def follows_def follow_ok_def)
  obtain s2 P2 where s2: "value_symbol T_integer s2" "keeps_literal us s2"
    "reach (s # s1 # mark d # []) P1 (s2 # s # s1 # mark d # []) P2"
    "stopped toks (Suc (Suc i + length ts) + length us) b vs P2" "wrote (code_events f) P1 P2"
    by (rule becomesE [OF phrase_becomes [OF f(1)] f1 s1(6) fb st, of "[s1, mark d]"])
      (use s1(3) f(2) wrote_cg_wf [OF s1(7)] in \<open>auto simp: context_ok_def\<close>)
  have f2: "expr_frame P P2" using s2(5) expr_frame_trans [OF f1] by (simp add: wrote_def)
  have em: "sym_token s2 = EMPTY_TOKEN False" using s2(2) f(3) by (simp add: keeps_literal_def)
  have er: "expr_err P2 = EXIT_SUCCESS" using f2 P(1) by (simp add: expr_frame_def)
  let ?P = "P2\<lparr>expr_err := ERR_SEMANTIC\<rparr>"
  obtain v where v: "value_symbol T_integer v" "reduce ([s2] @ s # s1 # mark d # []) P2 = Some (v # d # [], ?P)"
    using reduce_compound_division [OF s1(1) s2(1) em s1(2) t mark_simps(2) stopped_budget [OF s2(4)] er, of d "[]"]
    by (auto simp: computed_def unmark_mark [OF d(3)])
  have fin: "expr_finished ([s2] @ s # s1 # mark d # []) P2 = Some False"
    by (subst finished_terminal) (use value_symbol_terminal [OF s2(1)] st s1(3) in simp_all)
  have last: "expr_step ([s2] @ s # s1 # mark d # []) P2 = Some (EXIT_SUCCESS, v # d # [], ?P)"
    by (rule reduce_step [OF _ st(1) _ v(2)])
      (use value_symbol_terminal [OF s2(1)] s1(3) prec_facts(8) [OF stopped_follow [OF s2(4) fb]] in simp_all)
  have run: "reach [d] (advance P) [v, d] ?P"
    using reach.steps [OF reach_trans [OF s2(3) s1(4,5)]] fin last by simp
  have l: "lhs_plain ?P" using P(2) lhs_plain_frame [OF f2] by (simp add: lhs_plain_def cong: option.case_cong)
  have so: "stopped toks (Suc (Suc i + length ts) + length us) b vs ?P" using s2(4) by simp
  obtain P3 where P3: "expr P = Some (error_code_handler EXIT_SUCCESS
      (P3\<lparr>is_all_literals := True, p_expr_res := \<lparr>expr_type = T_integer, nilable = False\<rparr>\<rparr>))"
    "expr_frame ?P P3"
    by (rule expr_ends [OF d(1,2,4,5) run v(1) so b l])
  have "expr_err P3 = ERR_SEMANTIC" using P3(2) by (simp add: expr_frame_def)
  then show ?thesis using P3(1) by (simp add: error_code_handler_def error_codes EXIT_SUCCESS_def)
qed

text \<open>Before a variable at the top level has a value, its name in an expression is looked up behind a null pointer.\<close>

lemma self_reference:
  assumes "tok_type t = TOKEN_IDENTIFIER" "tok_value t = V_string (it_name it)" "lhs_id P = Some a"
    "sh_items (p_heap P) a = Some it" "\<not> it_is_var_initialized it" "p_stack P = []"
  shows "id_is_defined t P = UB"
  using assms by (simp add: id_is_defined_def tok_str_def item_at_def strcmp_eq_0 stack_next_def)

end
