(* ===== verification/Parser.thy ===== *)
theory Parser
  imports Expression
begin

text \<open>
  The recursive-descent parser of \<open>src/parser.c\<close>, one definition per rule function. A rule
  returns an error code and the new state; the messages go to \<open>stderr\<close> and are left out,
  but the pointers a message reads are followed. Rules that call themselves are partial
  functions; \<open>rule_stmt\<close> and \<open>rule_func_stmt\<close> take the body rule they are mutually
  recursive with as an argument.
\<close>

section \<open>Actions the rules share\<close>

definition open_scope :: "parser \<Rightarrow> parser c" where
  "open_scope P = do {
     (stack, H, _) \<leftarrow> add_scope (p_stack P) (p_heap P);
     Some (P\<lparr>p_stack := stack, p_heap := H\<rparr>)
   }"

definition close_scope :: "parser \<Rightarrow> parser c" where
  "close_scope P = do {
     (stack, H, _) \<leftarrow> pop_scope (p_stack P) (p_heap P);
     Some (P\<lparr>p_stack := stack, p_heap := H\<rparr>)
   }"

definition insert_global :: "string \<Rightarrow> parser \<Rightarrow> (nat \<times> parser) c" where
  "insert_global key P = do {
     (T, H, err) \<leftarrow> symtable_insert (Some (global_symtab P)) key (p_heap P);
     T \<leftarrow> T;
     Some (err, P\<lparr>global_symtab := T, p_heap := H\<rparr>)
   }"

definition insert_local :: "string \<Rightarrow> parser \<Rightarrow> (nat \<times> parser) c" where
  "insert_local key P = do {
     T \<leftarrow> local_sym P;
     (T, H, err) \<leftarrow> symtable_insert T key (p_heap P);
     Some (err, set_local_sym T (P\<lparr>p_heap := H\<rparr>))
   }"

definition search_local :: "string \<Rightarrow> parser \<Rightarrow> nat option c" where
  "search_local key P = do {
     T \<leftarrow> local_sym P;
     (item, _) \<leftarrow> symtable_search T key (p_heap P);
     Some item
   }"

text \<open>An accessor of the symbol table applied to the global or the innermost local table.\<close>

definition on_global :: "(symtab option \<Rightarrow> symheap \<Rightarrow> (symheap \<times> nat) c) \<Rightarrow> parser \<Rightarrow> (nat \<times> parser) c" where
  "on_global f P = do { (H, err) \<leftarrow> f (Some (global_symtab P)) (p_heap P); Some (err, P\<lparr>p_heap := H\<rparr>) }"

definition on_local :: "(symtab option \<Rightarrow> symheap \<Rightarrow> (symheap \<times> nat) c) \<Rightarrow> parser \<Rightarrow> (nat \<times> parser) c" where
  "on_local f P = do { T \<leftarrow> local_sym P; (H, err) \<leftarrow> f T (p_heap P); Some (err, P\<lparr>p_heap := H\<rparr>) }"

definition name_at :: "nat option \<Rightarrow> parser \<Rightarrow> string c" where
  "name_at ptr P = do { item \<leftarrow> item_at ptr P; Some (it_name item) }"

text \<open>A failure whose message names an item.\<close>

definition fail_naming :: "nat option \<Rightarrow> nat \<Rightarrow> rule" where
  "fail_naming ptr code P = do { _ \<leftarrow> name_at ptr P; fail code P }"

text \<open>The name of the current token is looked up in the scopes, then in the global table.\<close>

definition find_variable :: "scope \<Rightarrow> string \<Rightarrow> parser \<Rightarrow> parser c" where
  "find_variable stack name P = do {
     found \<leftarrow> (if peek_scope stack then search_stack stack name P else Some None);
     found \<leftarrow> (if found = None then search_global name P else Some found);
     Some (P\<lparr>current_id := found\<rparr>)
   }"

text \<open>
  The same for an argument: as long as the item of \<open>current_id\<close> has no value, its own name is
  looked up behind the innermost scope.
\<close>

definition find_argument :: "string \<Rightarrow> parser \<Rightarrow> parser c" where
  "find_argument name P = do {
     stack \<leftarrow> (if current_id P \<noteq> None then do {
                item \<leftarrow> item_at (current_id P) P;
                if \<not> it_is_var_initialized item \<and> strcmp name (it_name item) = 0
                then stack_next P else Some (p_stack P)
              } else Some (p_stack P));
     find_variable stack name P
   }"

section \<open>Types\<close>

text \<open>
  The action of \<open>type\<close> for one type specifier. In a function header it describes a parameter
  or the return type, otherwise the current variable; for \<open>String\<close> outside the parameters of a
  header a current variable takes precedence over the return type.
\<close>

definition declare_type :: "ty \<Rightarrow> bool \<Rightarrow> parser \<Rightarrow> parser c" where
  "declare_type type is_string P = do {
     is_nilable \<leftarrow> tok_nilable (curr_tok P);
     if in_func_head P then
       (if in_param P then do {
          fn \<leftarrow> name_at (last_func_id P) P;
          (_, P) \<leftarrow> on_global (\<lambda>T. set_param_type T fn (p_tmp P) type) P;
          (_, P) \<leftarrow> on_global (\<lambda>T. set_param_nil T fn (p_tmp P) is_nilable) P;
          Some P
        }
        else if is_string \<and> current_id P \<noteq> None then
          change_item (current_id P) (\<lambda>it. it\<lparr>it_type := type, it_is_nillable := is_nilable\<rparr>) P
        else do {
          fn \<leftarrow> name_at (last_func_id P) P;
          (_, P) \<leftarrow> on_global (\<lambda>T. set_return_type T fn type) P;
          (_, P) \<leftarrow> on_global (\<lambda>T. set_nillable T fn is_nilable) P;
          Some P
        })
     else change_item (current_id P) (\<lambda>it. it\<lparr>it_type := type, it_is_nillable := is_nilable,
            it_is_var_initialized := (is_nilable \<or> it_is_var_initialized it)\<rparr>) P
   }"

definition rule_type :: rule where
  "rule_type P =
     (case tok_type (curr_tok P) of
        TOKEN_DT_INT \<Rightarrow> do { P \<leftarrow> declare_type T_integer False P; GET_TOKEN success P }
      | TOKEN_DT_DOUBLE \<Rightarrow> do { P \<leftarrow> declare_type T_double False P; GET_TOKEN success P }
      | TOKEN_DT_STRING \<Rightarrow> do { P \<leftarrow> declare_type T_string True P; GET_TOKEN success P }
      | _ \<Rightarrow> fail ERR_SYNTAX P)"

definition rule_opt_type :: rule where
  "rule_opt_type P =
     (if tok_type (curr_tok P) = TOKEN_COL then GET_TOKEN (NEXT_RULE rule_type success) P else success P)"

definition skip_type :: "ty \<Rightarrow> rule" where
  "skip_type type P = do {
     P \<leftarrow> (if in_param P then do {
             name \<leftarrow> name_at (current_id P) P;
             (_, P) \<leftarrow> on_local (\<lambda>T. set_type T name type) P;
             Some P
           } else Some P);
     GET_TOKEN success P
   }"

definition rule_type_skip :: rule where
  "rule_type_skip P =
     (case tok_type (curr_tok P) of
        TOKEN_DT_INT \<Rightarrow> skip_type T_integer P
      | TOKEN_DT_DOUBLE \<Rightarrow> skip_type T_double P
      | TOKEN_DT_STRING \<Rightarrow> skip_type T_string P
      | _ \<Rightarrow> fail ERR_SYNTAX P)"

section \<open>Arguments\<close>

text \<open>The argument that was checked becomes a parameter of the call in the generated code.\<close>

definition pass_argument :: rule where
  "pass_argument P = do {
     fn \<leftarrow> name_at (last_func_id P) P;
     P \<leftarrow> generate (\<lambda>env. code_generator_function_call_param_add env fn (curr_tok P)) P;
     success P
   }"

text \<open>A literal of type \<open>type\<close>; \<open>nil\<close> needs a nilable parameter.\<close>

definition check_literal :: "ty \<Rightarrow> rule" where
  "check_literal type P = do {
     f \<leftarrow> item_at (last_func_id P) P;
     if \<not> it_variadic_param f then do {
       p \<leftarrow> param_at (current_arg P) P;
       if type = T_nil then do {
         is_nillable \<leftarrow> p_is_nillable p;
         if \<not> is_nillable then fail ERR_FUNCTION_PARAMETER P else pass_argument P
       }
       else if p_type p \<noteq> type then fail ERR_FUNCTION_PARAMETER P
       else pass_argument P
     }
     else pass_argument P
   }"

definition rule_literal :: rule where
  "rule_literal P =
     (case tok_type (curr_tok P) of
        TOKEN_INT \<Rightarrow> check_literal T_integer P
      | TOKEN_DBL \<Rightarrow> check_literal T_double P
      | TOKEN_STRING \<Rightarrow> check_literal T_string P
      | TOKEN_NIL \<Rightarrow> check_literal T_nil P
      | _ \<Rightarrow> fail ERR_SYNTAX P)"

definition rule_term :: rule where
  "rule_term P =
     (if tok_type (curr_tok P) = TOKEN_IDENTIFIER then do {
        name \<leftarrow> tok_str (curr_tok P);
        P \<leftarrow> find_argument name P;
        if current_id P = None then fail ERR_UNDEFINED_VARIABLE P
        else do {
          item \<leftarrow> item_at (current_id P) P;
          p \<leftarrow> param_at (current_arg P) P;
          if it_type item \<noteq> p_type p then fail_naming (last_func_id P) ERR_FUNCTION_PARAMETER P
          else pass_argument P
        }
      }
      else NEXT_RULE rule_literal success P)"

definition rule_opt_arg :: rule where
  "rule_opt_arg P =
     (if tok_type (curr_tok P) = TOKEN_COL then GET_TOKEN (NEXT_RULE rule_term success) P else success P)"

text \<open>A variable as an argument without a label.\<close>

definition unlabelled_argument :: rule where
  "unlabelled_argument P = do {
     name \<leftarrow> tok_str (curr_tok P);
     P \<leftarrow> find_argument name P;
     if current_id P = None then fail ERR_UNDEFINED_VARIABLE P
     else do {
       item \<leftarrow> item_at (current_id P) P;
       if \<not> it_is_var_initialized item then fail ERR_UNDEFINED_VARIABLE P
       else do {
         f \<leftarrow> item_at (last_func_id P) P;
         if \<not> it_variadic_param f then do {
           p \<leftarrow> param_at (current_arg P) P;
           if it_type item \<noteq> p_type p then fail ERR_FUNCTION_PARAMETER P
           else do {
             is_nillable \<leftarrow> p_is_nillable p;
             if it_is_nillable item \<noteq> is_nillable then fail ERR_FUNCTION_PARAMETER P
             else pass_argument P
           }
         }
         else pass_argument P
       }
     }
   }"

definition rule_arg :: rule where
  "rule_arg P =
     (if tok_type (curr_tok P) = TOKEN_IDENTIFIER then do {
        p \<leftarrow> param_at (current_arg P) P;
        label \<leftarrow> p_label p;
        name \<leftarrow> tok_str (curr_tok P);
        if strcmp label ''_'' = 0 then unlabelled_argument P
        else if strcmp label name \<noteq> 0 then fail_naming (last_func_id P) ERR_FUNCTION_PARAMETER P
        else GET_TOKEN (NEXT_RULE rule_opt_arg success) P
      }
      else if current_arg P \<noteq> None then do {
        p \<leftarrow> param_at (current_arg P) P;
        label \<leftarrow> p_label p;
        if strcmp label ''_'' \<noteq> 0 then fail_naming (last_func_id P) ERR_FUNCTION_PARAMETER P
        else NEXT_RULE rule_literal success P
      }
      else NEXT_RULE rule_literal success P)"

subsection \<open>Rules as arguments of partial functions\<close>

lemma mono_GET_TOKEN [partial_function_mono]:
  "(\<And>P. mono_option (\<lambda>f. k f P)) \<Longrightarrow> mono_option (\<lambda>f. GET_TOKEN (k f) P)"
  unfolding GET_TOKEN_def Let_def by (intro partial_function_mono) simp_all

lemma mono_ASSERT_TOK_TYPE [partial_function_mono]:
  "(\<And>P. mono_option (\<lambda>f. k f P)) \<Longrightarrow> mono_option (\<lambda>f. ASSERT_TOK_TYPE type (k f) P)"
  unfolding ASSERT_TOK_TYPE_def by (intro partial_function_mono) simp_all

lemma mono_CHECK_NEWLINE [partial_function_mono]:
  "(\<And>P. mono_option (\<lambda>f. k f P)) \<Longrightarrow> mono_option (\<lambda>f. CHECK_NEWLINE (k f) P)"
  unfolding CHECK_NEWLINE_def by (intro partial_function_mono) simp_all

lemma mono_NEXT_RULE [partial_function_mono]:
  assumes "\<And>P. mono_option (\<lambda>f. rule f P)" "\<And>P. mono_option (\<lambda>f. k f P)"
  shows "mono_option (\<lambda>f. NEXT_RULE (rule f) (k f) P)"
proof -
  have "mono_option (\<lambda>f. case r of (res, P) \<Rightarrow> if res \<noteq> ERR_NO_ERR then Some (res, P) else k f P)" for r
    by (cases r) (auto intro!: partial_function_mono assms(2))
  then show ?thesis unfolding NEXT_RULE_def by (intro bind_mono assms(1))
qed

section \<open>Calls\<close>

partial_function (option) rule_arg_next :: "parser \<Rightarrow> (nat \<times> parser) c" where
  "rule_arg_next P =
     (if tok_type (curr_tok P) = TOKEN_COMMA then do {
        f \<leftarrow> item_at (last_func_id P) P;
        next \<leftarrow> (if \<not> it_variadic_param f then param_next_pointer (current_arg P) P else Some None);
        if \<not> it_variadic_param f \<and> next = None then fail_naming (last_func_id P) ERR_FUNCTION_PARAMETER P
        else GET_TOKEN (NEXT_RULE rule_arg (GET_TOKEN (NEXT_RULE rule_arg_next success)))
          (if \<not> it_variadic_param f then P\<lparr>current_arg := next\<rparr> else P)
      }
      else if tok_type (curr_tok P) = TOKEN_R_PAR then do {
        f \<leftarrow> item_at (last_func_id P) P;
        next \<leftarrow> (if \<not> it_variadic_param f then param_next_pointer (current_arg P) P else Some None);
        if \<not> it_variadic_param f \<and> next \<noteq> None then fail_naming (last_func_id P) ERR_FUNCTION_PARAMETER P
        else GET_TOKEN success P
      }
      else fail ERR_SYNTAX P)"

declare rule_arg_next.simps [code]

definition rule_arg_list :: rule where
  "rule_arg_list P = do {
     fn \<leftarrow> last_func_id P;
     f \<leftarrow> item_at (last_func_id P) P;
     arg \<leftarrow> param_pointer fn 0 P;
     let P = P\<lparr>current_arg := arg\<rparr>;
     if tok_type (curr_tok P) = TOKEN_R_PAR then
       (if \<not> it_variadic_param f \<and> current_arg P \<noteq> None
        then fail_naming (last_func_id P) ERR_FUNCTION_PARAMETER P
        else GET_TOKEN success P)
     else if \<not> it_variadic_param f \<and> current_arg P = None
     then fail_naming (last_func_id P) ERR_FUNCTION_PARAMETER P
     else NEXT_RULE rule_arg (GET_TOKEN (NEXT_RULE rule_arg_next success)) P
   }"

text \<open>Both kinds of call put the called function into \<open>last_func_id\<close> and restore it at the end.\<close>

definition finish_call :: "nat option \<Rightarrow> rule" where
  "finish_call temp P = do {
     fn \<leftarrow> name_at (last_func_id P) P;
     P \<leftarrow> generate (\<lambda>_. code_generator_function_call fn) P;
     success (P\<lparr>last_func_id := temp\<rparr>)
   }"

definition rule_funccall :: rule where
  "rule_funccall = GET_TOKEN (ASSERT_TOK_TYPE TOKEN_L_PAR (\<lambda>P.
     let temp = last_func_id P
     in GET_TOKEN (NEXT_RULE rule_arg_list (finish_call temp)) (P\<lparr>last_func_id := rhs_id P\<rparr>)))"

section \<open>Assignments and declarations\<close>

text \<open>
  The right side of an assignment: a function name starts a call; any other token is put
  back, and the parser stands on \<open>=\<close> again when the expression begins.
\<close>

definition right_side :: "rule \<Rightarrow> rule \<Rightarrow> rule" where
  "right_side call expression = GET_TOKEN (\<lambda>P.
     let back = (\<lambda>P. do { P \<leftarrow> step_back P; P \<leftarrow> reload_token P; expression P })
     in if tok_type (curr_tok P) = TOKEN_IDENTIFIER then do {
          name \<leftarrow> tok_str (curr_tok P);
          found \<leftarrow> search_global name P;
          let P = P\<lparr>rhs_id := found\<rparr>;
          if rhs_id P \<noteq> None then do {
            rhs \<leftarrow> item_at (rhs_id P) P;
            if it_type rhs = T_function then call P
            else GET_TOKEN (\<lambda>P.
              if tok_type (curr_tok P) = TOKEN_L_PAR then fail_naming (rhs_id P) ERR_UNDEFINED_FUNCTION P
              else do { P \<leftarrow> step_back P; back P }) P
          }
          else back P
        }
        else back P)"

text \<open>The variable on the left gets its value and is declared, or assigned, in the code.\<close>

definition set_initialized :: "parser \<Rightarrow> parser c" where
  "set_initialized P = change_item (lhs_id P) (\<lambda>it. it\<lparr>it_is_var_initialized := True\<rparr>) P"

definition initialize_and_declare :: rule where
  "initialize_and_declare P = do {
     P \<leftarrow> set_initialized P;
     lhs \<leftarrow> name_at (lhs_id P) P;
     P \<leftarrow> generate (\<lambda>env. code_generator_var_declare env lhs) P;
     success P
   }"

definition initialize_and_assign :: rule where
  "initialize_and_assign P = do {
     P \<leftarrow> set_initialized P;
     lhs \<leftarrow> name_at (lhs_id P) P;
     P \<leftarrow> generate (\<lambda>env. code_generator_var_assign env lhs) P;
     success P
   }"

text \<open>The call whose result goes into a variable with a type.\<close>

definition typed_call :: "rule \<Rightarrow> rule" where
  "typed_call finish P = do {
     rhs \<leftarrow> item_at (rhs_id P) P;
     if it_return_type rhs = T_nil then fail_naming (current_id P) ERR_INCOMPATIBILE_TYPE P
     else do {
       variable \<leftarrow> item_at (current_id P) P;
       if it_type variable \<noteq> it_return_type rhs then fail ERR_INCOMPATIBILE_TYPE P
       else if \<not> it_is_nillable variable \<and> it_is_nillable rhs then fail ERR_INCOMPATIBILE_TYPE P
       else NEXT_RULE rule_funccall finish P
     }
   }"

text \<open>The expression whose value goes into a variable with a type; \<open>nil\<close> has an ending of its own.\<close>

definition typed_expression :: "rule \<Rightarrow> rule \<Rightarrow> rule" where
  "typed_expression nil_value finish = NEXT_RULE expr (\<lambda>P. do {
     lhs \<leftarrow> item_at (lhs_id P) P;
     if it_type lhs \<noteq> expr_type (p_expr_res P) then
       (if it_is_nillable lhs \<and> expr_type (p_expr_res P) = T_nil then nil_value P
        else fail_naming (current_id P) ERR_INCOMPATIBILE_TYPE P)
     else if \<not> it_is_nillable lhs \<and> nilable (p_expr_res P) then fail ERR_INCOMPATIBILE_TYPE P
     else finish P
   })"

definition rule_opt_assign :: rule where
  "rule_opt_assign P =
     (if tok_type (curr_tok P) = TOKEN_ASS then
        right_side (typed_call initialize_and_declare)
          (typed_expression initialize_and_declare initialize_and_declare) P
      else do {
        lhs \<leftarrow> item_at (lhs_id P) P;
        if it_is_nillable lhs then do {
          P \<leftarrow> generate (\<lambda>env. code_generator_push env (p_nil P)) P;
          P \<leftarrow> generate (\<lambda>env. code_generator_var_declare env (it_name lhs)) P;
          success P
        }
        else do {
          P \<leftarrow> generate (\<lambda>env G. do {
            (frame, G) \<leftarrow> code_generator_get_var_frame env (it_name lhs) (it_is_var_initialized lhs) G;
            (uid, G) \<leftarrow> code_generator_get_var_uid env (it_name lhs) (it_is_var_initialized lhs) G;
            Some (code_generator_defvar frame (it_name lhs) uid G)
          }) P;
          success P
        }
      })"

text \<open>The right side of a declaration without a type, which gives the variable its type.\<close>

definition untyped_call :: rule where
  "untyped_call P = do {
     rhs \<leftarrow> item_at (rhs_id P) P;
     if it_return_type rhs = T_nil then fail_naming (current_id P) ERR_INCOMPATIBILE_TYPE P
     else do {
       lhs \<leftarrow> item_at (lhs_id P) P;
       P \<leftarrow> (if it_type lhs = T_undefined
         then change_item (lhs_id P) (\<lambda>it. it\<lparr>it_type := it_return_type rhs, it_is_nillable := it_is_nillable rhs\<rparr>) P
         else Some P);
       NEXT_RULE rule_funccall initialize_and_declare P
     }
   }"

definition untyped_expression :: rule where
  "untyped_expression = NEXT_RULE expr (\<lambda>P.
     if expr_type (p_expr_res P) = T_nil then fail_naming (lhs_id P) ERR_MISSING_TYPE P
     else do {
       P \<leftarrow> change_item (lhs_id P) (\<lambda>it. it\<lparr>it_type := expr_type (p_expr_res P),
         it_is_nillable := nilable (p_expr_res P)\<rparr>) P;
       initialize_and_declare P
     })"

definition rule_var_def_cont :: rule where
  "rule_var_def_cont P =
     (case tok_type (curr_tok P) of
        TOKEN_COL \<Rightarrow> GET_TOKEN (NEXT_RULE rule_type (NEXT_RULE rule_opt_assign success)) P
      | TOKEN_ASS \<Rightarrow> right_side untyped_call untyped_expression P
      | _ \<Rightarrow> fail_naming (current_id P) ERR_SYNTAX P)"

text \<open>
  A declaration puts the name into the innermost local table inside a condition, a loop or a
  function, and into the global table elsewhere.
\<close>

definition rule_define :: rule where
  "rule_define = ASSERT_TOK_TYPE TOKEN_IDENTIFIER (\<lambda>P. do {
     let local = (in_cond P > 0 \<or> in_loop P > 0 \<or> in_func_body P);
     let rest = (\<lambda>P. do {
           P \<leftarrow> change_item (current_id P) (\<lambda>it. it\<lparr>it_is_var_initialized := False\<rparr>) P;
           GET_TOKEN (NEXT_RULE rule_var_def_cont success) (P\<lparr>lhs_id := current_id P\<rparr>)
         });
     if local \<and> \<not> peek_scope (p_stack P) then fail ERR_INTERNAL P
     else do {
       name \<leftarrow> tok_str (curr_tok P);
       found \<leftarrow> (if local then search_local name P else search_global name P);
       let P = P\<lparr>current_id := found\<rparr>;
       if current_id P \<noteq> None then fail ERR_REDEFINING_VARIABLE P
       else do {
         (_, P) \<leftarrow> (if local then insert_local name P else insert_global name P);
         found \<leftarrow> (if local then search_local name P else search_global name P);
         rest (P\<lparr>current_id := found\<rparr>)
       }
     }
   })"

section \<open>Statements that begin with an identifier\<close>

definition assignment :: rule where
  "assignment = right_side (typed_call initialize_and_assign)
     (typed_expression (\<lambda>P. do { P \<leftarrow> set_initialized P; success P }) initialize_and_assign)"

definition rule_expr_type :: rule where
  "rule_expr_type P =
     (case tok_type (curr_tok P) of
        TOKEN_ASS \<Rightarrow>
          if lhs_id P = None then fail ERR_UNDEFINED_VARIABLE P
          else do {
            lhs \<leftarrow> item_at (lhs_id P) P;
            if \<not> it_is_mutable lhs \<and> it_is_var_initialized lhs then fail_naming (current_id P) ERR_SEMANTIC P
            else assignment P
          }
      | TOKEN_L_PAR \<Rightarrow>
          if current_id P = None then fail ERR_UNDEFINED_FUNCTION P
          else do {
            f \<leftarrow> item_at (current_id P) P;
            if it_type f \<noteq> T_function then fail ERR_UNDEFINED_FUNCTION P
            else
              let temp = last_func_id P
              in GET_TOKEN (NEXT_RULE rule_arg_list (finish_call temp))
                (P\<lparr>last_func_id := current_id P, current_id := None, in_function := True\<rparr>)
          }
      | _ \<Rightarrow> fail ERR_SYNTAX P)"

text \<open>The statement of an identifier: the token is the name.\<close>

definition identifier_statement :: rule where
  "identifier_statement = CHECK_NEWLINE (\<lambda>P. do {
     name \<leftarrow> tok_str (curr_tok P);
     P \<leftarrow> find_variable (p_stack P) name P;
     GET_TOKEN (NEXT_RULE rule_expr_type (\<lambda>P. success (P\<lparr>lhs_id := None\<rparr>))) (P\<lparr>lhs_id := current_id P\<rparr>)
   })"

definition declaration_statement :: "bool \<Rightarrow> rule" where
  "declaration_statement mutable = CHECK_NEWLINE (GET_TOKEN (NEXT_RULE rule_define (\<lambda>P. do {
     P \<leftarrow> change_item (lhs_id P) (\<lambda>it. it\<lparr>it_is_mutable := mutable\<rparr>) P;
     success (P\<lparr>lhs_id := None\<rparr>)
   })))"

section \<open>Conditions\<close>

text \<open>
  \<open>if let x\<close> compares the constant with \<open>nil\<close> and declares it again in the scope of the
  condition, not nilable.
\<close>

definition rule_cond_clause :: rule where
  "rule_cond_clause P =
     (if tok_type (curr_tok P) = TOKEN_LET then
        GET_TOKEN (ASSERT_TOK_TYPE TOKEN_IDENTIFIER (\<lambda>P. do {
          name \<leftarrow> tok_str (curr_tok P);
          P \<leftarrow> find_variable (p_stack P) name P;
          if current_id P = None then fail ERR_UNDEFINED_VARIABLE P
          else do {
            item \<leftarrow> item_at (current_id P) P;
            if it_is_mutable item then fail ERR_SEMANTIC P
            else if \<not> it_is_nillable item then fail ERR_SEMANTIC P
            else do {
              P \<leftarrow> generate (\<lambda>env. code_generator_push env (curr_tok P)) P;
              P \<leftarrow> generate (\<lambda>env. code_generator_push env (p_nil P)) P;
              P \<leftarrow> generate (\<lambda>_. code_generator_operations TOKEN_NEQ False) P;
              P \<leftarrow> generate (\<lambda>env. code_generator_push env (curr_tok P)) P;
              (_, P) \<leftarrow> insert_local (it_name item) P;
              (_, P) \<leftarrow> on_local (\<lambda>T. set_nillable T (it_name item) False) P;
              (_, P) \<leftarrow> on_local (\<lambda>T. set_type T (it_name item) (it_type item)) P;
              (_, P) \<leftarrow> on_local (\<lambda>T. set_mutability T (it_name item) False) P;
              new \<leftarrow> search_local (it_name item) P;
              P \<leftarrow> change_item new (\<lambda>it. it\<lparr>it_is_var_initialized := True\<rparr>) P;
              P \<leftarrow> generate (\<lambda>env. code_generator_var_declare env (it_name item)) P;
              GET_TOKEN success P
            }
          }
        })) P
      else do {
        P \<leftarrow> step_back P;
        P \<leftarrow> reload_token P;
        NEXT_RULE expr (\<lambda>P.
          if expr_type (p_expr_res P) \<noteq> T_bool then fail ERR_INCOMPATIBILE_TYPE P else success P) P
      })"

end
