(* ===== verification/Statements.thy ===== *)
theory Statements
  imports Parser
begin

text \<open>
  The statements and blocks of \<open>src/parser.c\<close>, outside and inside functions. A statement
  and the body it contains are mutually recursive: \<open>rule_stmt\<close> and \<open>rule_func_stmt\<close> take
  the body rule as an argument, and \<open>rule_block_body\<close> and \<open>rule_func_body\<close> close the
  recursion.
\<close>

section \<open>Loops and conditions\<close>

text \<open>
  The \<open>while\<close> statement. The counter \<open>loop_uid\<close> names the labels of the loop; the body rule
  pops the scope of the body.
\<close>

definition while_statement :: "rule \<Rightarrow> rule" where
  "while_statement body = CHECK_NEWLINE (\<lambda>P. do {
     let closing_loop_uid = loop_uid P;
     let P = P\<lparr>in_loop := in_loop P + 1, loop_uid := loop_uid P + 1\<rparr>;
     P \<leftarrow> generate (\<lambda>_. code_generator_for_label closing_loop_uid) P;
     NEXT_RULE expr (\<lambda>P. do {
       P \<leftarrow> generate (\<lambda>_. code_generator_for_loop_if closing_loop_uid) P;
       if expr_type (p_expr_res P) \<noteq> T_bool then fail ERR_INCOMPATIBILE_TYPE P
       else ASSERT_TOK_TYPE TOKEN_L_BKT (GET_TOKEN (\<lambda>P. do {
         P \<leftarrow> open_scope P;
         P \<leftarrow> generate (\<lambda>_. code_generator_for_body closing_loop_uid) (P\<lparr>first_stmt := True\<rparr>);
         NEXT_RULE body (GET_TOKEN (\<lambda>P. do {
           P \<leftarrow> generate (\<lambda>_. code_generator_for_loop_end closing_loop_uid) P;
           success (P\<lparr>in_loop := in_loop P - 1\<rparr>)
         })) P
       })) P
     }) P
   })"

text \<open>
  The \<open>if\<close> statement: one scope for the condition, which \<open>if let\<close> declares its constant in,
  and one for each branch; the scope of the condition is closed before \<open>else\<close>.
\<close>

definition else_branch :: "rule \<Rightarrow> 32 word \<Rightarrow> rule" where
  "else_branch body closing_uid = GET_TOKEN (ASSERT_TOK_TYPE TOKEN_ELSE (\<lambda>P. do {
     P \<leftarrow> open_scope P;
     P \<leftarrow> generate (\<lambda>_. code_generator_if_else closing_uid) P;
     GET_TOKEN (ASSERT_TOK_TYPE TOKEN_L_BKT (GET_TOKEN (\<lambda>P.
       NEXT_RULE body (GET_TOKEN (\<lambda>P. do {
         P \<leftarrow> generate (\<lambda>_. code_generator_if_end closing_uid) P;
         success (P\<lparr>in_cond := in_cond P - 1\<rparr>)
       })) (P\<lparr>first_stmt := True\<rparr>)))) P
   }))"

definition if_statement :: "rule \<Rightarrow> rule" where
  "if_statement body = CHECK_NEWLINE (\<lambda>P. GET_TOKEN (\<lambda>P. do {
     P \<leftarrow> open_scope P;
     NEXT_RULE rule_cond_clause (\<lambda>P. do {
       let closing_uid = cond_uid P;
       P \<leftarrow> generate (\<lambda>_. code_generator_if_header closing_uid) (P\<lparr>cond_uid := cond_uid P + 1\<rparr>);
       ASSERT_TOK_TYPE TOKEN_L_BKT (GET_TOKEN (\<lambda>P. do {
         P \<leftarrow> open_scope (P\<lparr>first_stmt := True\<rparr>);
         NEXT_RULE body (\<lambda>P. do {
           P \<leftarrow> close_scope P;
           else_branch body closing_uid P
         }) P
       })) P
     }) P
   }) (P\<lparr>in_cond := in_cond P + 1\<rparr>))"

lemma mono_while_statement [partial_function_mono]:
  "(\<And>P. mono_option (\<lambda>f. body f P)) \<Longrightarrow> mono_option (\<lambda>f. while_statement (body f) P)"
  unfolding while_statement_def Let_def by (intro partial_function_mono) simp_all

lemma mono_else_branch [partial_function_mono]:
  "(\<And>P. mono_option (\<lambda>f. body f P)) \<Longrightarrow> mono_option (\<lambda>f. else_branch (body f) uid P)"
  unfolding else_branch_def by (intro partial_function_mono) simp_all

lemma mono_if_statement [partial_function_mono]:
  "(\<And>P. mono_option (\<lambda>f. body f P)) \<Longrightarrow> mono_option (\<lambda>f. if_statement (body f) P)"
  unfolding if_statement_def Let_def by (intro partial_function_mono) simp_all

section \<open>Statements outside functions\<close>

definition rule_stmt :: "rule \<Rightarrow> rule" where
  "rule_stmt body P =
     (let ty = tok_type (curr_tok P) in
      if ty = TOKEN_VAR then declaration_statement True P
      else if ty = TOKEN_LET then declaration_statement False P
      else if ty = TOKEN_IDENTIFIER then identifier_statement P
      else if ty = TOKEN_WHILE then while_statement body P
      else if ty = TOKEN_IF then if_statement body P
      else fail ERR_SYNTAX P)"

lemma mono_rule_stmt [partial_function_mono]:
  "(\<And>P. mono_option (\<lambda>f. body f P)) \<Longrightarrow> mono_option (\<lambda>f. rule_stmt (body f) P)"
  unfolding rule_stmt_def Let_def by (intro partial_function_mono) simp_all

partial_function (option) rule_block_body :: "parser \<Rightarrow> (nat \<times> parser) c" where
  "rule_block_body P =
     (if tok_type (curr_tok P) = TOKEN_R_BKT then do { P \<leftarrow> close_scope P; success P }
      else NEXT_RULE (rule_stmt rule_block_body)
        (\<lambda>P. NEXT_RULE rule_block_body success (P\<lparr>first_stmt := False\<rparr>)) P)"

declare rule_block_body.simps [code]

section \<open>Statements inside functions\<close>

text \<open>
  \<open>return\<close>: in a function without a result the next token must be on a new line or close the
  block; otherwise an expression of the type of the function follows.
\<close>

definition rule_opt_ret :: rule where
  "rule_opt_ret P = do {
     let finish = (\<lambda>P. do { P \<leftarrow> generate (\<lambda>_. code_generator_return) P; success P });
     f \<leftarrow> item_at (last_func_id P) P;
     if it_return_type f = T_nil then
       GET_TOKEN (\<lambda>P.
         if \<not> preceding_eol (curr_tok P) \<and> tok_type (curr_tok P) \<noteq> TOKEN_R_BKT
         then fail ERR_FUNCTION_RETURN P else finish P) P
     else do {
       runner \<leftarrow> deref (p_buffer P) (tb_runner (p_buffer P));
       next \<leftarrow> deref (p_buffer P) (n_next runner);
       if tok_type (n_token next) = TOKEN_R_BKT then fail ERR_FUNCTION_RETURN P
       else NEXT_RULE expr (\<lambda>P. do {
         f \<leftarrow> item_at (last_func_id P) P;
         if it_return_type f \<noteq> expr_type (p_expr_res P) then fail_naming (last_func_id P) ERR_RETURN_TYPE P
         else finish P
       }) P
     }
   }"

definition rule_func_stmt :: "rule \<Rightarrow> rule" where
  "rule_func_stmt body P =
     (let ty = tok_type (curr_tok P) in
      if ty = TOKEN_VAR then declaration_statement True P
      else if ty = TOKEN_LET then declaration_statement False P
      else if ty = TOKEN_IDENTIFIER then identifier_statement P
      else if ty = TOKEN_WHILE then while_statement body P
      else if ty = TOKEN_IF then if_statement body P
      else if ty = TOKEN_RETURN then
        CHECK_NEWLINE (\<lambda>P. NEXT_RULE rule_opt_ret success (P\<lparr>return_found := True\<rparr>)) P
      else fail ERR_SYNTAX P)"

lemma mono_rule_func_stmt [partial_function_mono]:
  "(\<And>P. mono_option (\<lambda>f. body f P)) \<Longrightarrow> mono_option (\<lambda>f. rule_func_stmt (body f) P)"
  unfolding rule_func_stmt_def Let_def by (intro partial_function_mono) simp_all

text \<open>
  The closing bracket of a body. That of the function itself, outside conditions and loops,
  needs a \<open>return\<close> before it; any closing bracket forgets the \<open>return\<close> statements seen.
\<close>

definition end_of_body :: rule where
  "end_of_body P = do {
     missing \<leftarrow> (if in_cond P = 0 \<and> in_loop P = 0 then do {
                  f \<leftarrow> item_at (last_func_id P) P;
                  Some (it_return_type f \<noteq> T_nil \<and> \<not> return_found P)
                } else Some False);
     if missing then fail_naming (last_func_id P) ERR_RETURN_TYPE P
     else do {
       P \<leftarrow> close_scope (P\<lparr>return_found := False\<rparr>);
       success P
     }
   }"

partial_function (option) rule_func_body :: "parser \<Rightarrow> (nat \<times> parser) c" where
  "rule_func_body P =
     (if tok_type (curr_tok P) = TOKEN_R_BKT then end_of_body P
      else NEXT_RULE (rule_func_stmt rule_func_body)
        (\<lambda>P. NEXT_RULE rule_func_body success (P\<lparr>first_stmt := False\<rparr>)) P)"

declare rule_func_body.simps [code]

end
