(* ===== verification/Program.thy ===== *)
theory Program
  imports Statements
begin

text \<open>
  Functions and the whole program of \<open>src/parser.c\<close>: the first pass over the token buffer,
  which enters the headers of functions into the global table, the second pass, which parses
  and generates code, the built-in functions, and \<open>parse\<close> with its set-up and clean-up.
\<close>

section \<open>Function headers, first pass\<close>

text \<open>The macro \<open>NEW_PARAM\<close>: the name of the current token becomes a parameter of \<open>last_func_id\<close>.\<close>

definition NEW_PARAM :: "rule \<Rightarrow> rule" where
  "NEW_PARAM k P = do {
     fn \<leftarrow> name_at (last_func_id P) P;
     name \<leftarrow> tok_str (curr_tok P);
     (err, P) \<leftarrow> on_global (\<lambda>T. add_param T fn name) P;
     if err = SYMTAB_ERR_ITEM_NOT_FOUND then fail ERR_UNDEFINED_FUNCTION P
     else if err = SYMTAB_ERR_ITEM_NOT_FUNCTION then fail ERR_SEMANTIC P
     else k P
   }"

text \<open>
  The label waits in \<open>p->tmp\<close> until the parameter exists; then \<open>p->tmp\<close> holds the name of
  the parameter, which \<open>type\<close> uses.
\<close>

definition rule_param :: rule where
  "rule_param P = (do {
     label \<leftarrow> (case tok_type (curr_tok P) of
        TOKEN_UND_SCR \<Rightarrow> Some (Some ''_'')
      | TOKEN_IDENTIFIER \<Rightarrow> do { name \<leftarrow> tok_str (curr_tok P); Some (Some name) }
      | _ \<Rightarrow> Some None);
     case label of
       None \<Rightarrow> fail ERR_SYNTAX P
     | Some label \<Rightarrow> GET_TOKEN (ASSERT_TOK_TYPE TOKEN_IDENTIFIER (NEW_PARAM (\<lambda>P. do {
         fn \<leftarrow> name_at (last_func_id P) P;
         name \<leftarrow> tok_str (curr_tok P);
         (_, P) \<leftarrow> on_global (\<lambda>T. set_param_label T fn name (p_tmp P)) P;
         GET_TOKEN (ASSERT_TOK_TYPE TOKEN_COL (GET_TOKEN (NEXT_RULE rule_type success)))
           (P\<lparr>p_tmp := name\<rparr>)
       }))) (P\<lparr>p_tmp := label\<rparr>)
   })"

partial_function (option) rule_param_next :: "parser \<Rightarrow> (nat \<times> parser) c" where
  "rule_param_next P =
     (if tok_type (curr_tok P) = TOKEN_R_PAR then success (P\<lparr>in_param := False\<rparr>)
      else if tok_type (curr_tok P) = TOKEN_COMMA
      then GET_TOKEN (NEXT_RULE rule_param (NEXT_RULE rule_param_next success)) P
      else fail ERR_SYNTAX P)"

declare rule_param_next.simps [code]

definition rule_param_list :: rule where
  "rule_param_list P =
     (if tok_type (curr_tok P) = TOKEN_R_PAR then success (P\<lparr>in_param := False\<rparr>)
      else NEXT_RULE rule_param (NEXT_RULE rule_param_next success) (P\<lparr>in_param := True\<rparr>))"

definition rule_func_ret_type :: rule where
  "rule_func_ret_type P =
     (if tok_type (curr_tok P) = TOKEN_RET_VAL then GET_TOKEN (NEXT_RULE rule_type success) P
      else do {
        fn \<leftarrow> name_at (last_func_id P) P;
        (_, P) \<leftarrow> on_global (\<lambda>T. set_return_type T fn T_nil) P;
        success P
      })"

definition rule_func_header :: rule where
  "rule_func_header P =
     GET_TOKEN (ASSERT_TOK_TYPE TOKEN_IDENTIFIER (\<lambda>P. do {
       name \<leftarrow> tok_str (curr_tok P);
       (err, P) \<leftarrow> insert_global name P;
       if err = SYMTAB_ERR_ITEM_ALREADY_STORED then fail ERR_REDEFINING_VARIABLE P
       else do {
         found \<leftarrow> search_global name P;
         P \<leftarrow> change_item found (\<lambda>it. it\<lparr>it_type := T_function\<rparr>) (P\<lparr>last_func_id := found\<rparr>);
         GET_TOKEN (ASSERT_TOK_TYPE TOKEN_L_PAR
           (GET_TOKEN (NEXT_RULE rule_param_list
             (GET_TOKEN (NEXT_RULE rule_func_ret_type (\<lambda>P. success (P\<lparr>in_func_head := False\<rparr>))))))) P
       }
     })) (P\<lparr>in_func_head := True\<rparr>)"

text \<open>The first pass goes over all tokens and parses only the headers.\<close>

partial_function (option) rule_skip :: "parser \<Rightarrow> (nat \<times> parser) c" where
  "rule_skip P =
     (if tok_type (curr_tok P) = TOKEN_EOF then success P
      else if tok_type (curr_tok P) = TOKEN_FUNC
      then NEXT_RULE rule_func_header (GET_TOKEN (NEXT_RULE rule_skip success)) P
      else GET_TOKEN (NEXT_RULE rule_skip success) P)"

declare rule_skip.simps [code]

section \<open>Function headers, second pass\<close>

text \<open>The parameters become initialised variables of the scope around the body.\<close>

definition rule_param_skip :: rule where
  "rule_param_skip P =
     (if tok_type (curr_tok P) \<noteq> TOKEN_UND_SCR \<and> tok_type (curr_tok P) \<noteq> TOKEN_IDENTIFIER
      then fail ERR_SYNTAX P
      else GET_TOKEN (ASSERT_TOK_TYPE TOKEN_IDENTIFIER (\<lambda>P. do {
        name \<leftarrow> tok_str (curr_tok P);
        (_, P) \<leftarrow> insert_local name P;
        found \<leftarrow> search_local name P;
        P \<leftarrow> change_item found (\<lambda>it. it\<lparr>it_is_var_initialized := True\<rparr>) (P\<lparr>current_id := found\<rparr>);
        name \<leftarrow> name_at (current_id P) P;
        P \<leftarrow> generate (\<lambda>env. code_generator_param_map env name (param_cnt P)) P;
        GET_TOKEN (ASSERT_TOK_TYPE TOKEN_COL (GET_TOKEN (NEXT_RULE rule_type_skip success)))
          (P\<lparr>param_cnt := param_cnt P + 1\<rparr>)
      })) P)"

partial_function (option) rule_param_next_skip :: "parser \<Rightarrow> (nat \<times> parser) c" where
  "rule_param_next_skip P =
     (if tok_type (curr_tok P) = TOKEN_R_PAR then success (P\<lparr>in_param := False\<rparr>)
      else if tok_type (curr_tok P) = TOKEN_COMMA
      then GET_TOKEN (NEXT_RULE rule_param_skip (NEXT_RULE rule_param_next_skip success)) P
      else fail ERR_SYNTAX P)"

declare rule_param_next_skip.simps [code]

definition rule_param_list_skip :: rule where
  "rule_param_list_skip P =
     (if tok_type (curr_tok P) = TOKEN_R_PAR then success (P\<lparr>in_param := False\<rparr>)
      else NEXT_RULE rule_param_skip (NEXT_RULE rule_param_next_skip success) (P\<lparr>in_param := True\<rparr>))"

definition rule_func_ret_type_skip :: rule where
  "rule_func_ret_type_skip P =
     (if tok_type (curr_tok P) = TOKEN_RET_VAL then GET_TOKEN (NEXT_RULE rule_type_skip success) P
      else success P)"

section \<open>Programs\<close>

text \<open>
  A function: the header, one scope for the parameters and one for the body. After it, and
  after every statement, \<open>first_stmt\<close> is reset.
\<close>

definition function_definition :: rule where
  "function_definition = CHECK_NEWLINE (\<lambda>P.
     GET_TOKEN (ASSERT_TOK_TYPE TOKEN_IDENTIFIER (\<lambda>P. do {
       name \<leftarrow> tok_str (curr_tok P);
       found \<leftarrow> search_global name P;
       P \<leftarrow> generate (\<lambda>_. code_generator_function_label_token (curr_tok P)) (P\<lparr>last_func_id := found\<rparr>);
       GET_TOKEN (ASSERT_TOK_TYPE TOKEN_L_PAR (\<lambda>P. do {
         P \<leftarrow> open_scope P;
         GET_TOKEN (NEXT_RULE rule_param_list_skip (GET_TOKEN (NEXT_RULE rule_func_ret_type_skip (\<lambda>P.
           ASSERT_TOK_TYPE TOKEN_L_BKT (GET_TOKEN (\<lambda>P. do {
             P \<leftarrow> open_scope (P\<lparr>first_stmt := True\<rparr>);
             NEXT_RULE rule_func_body (\<lambda>P. do {
               P \<leftarrow> close_scope P;
               let P = P\<lparr>in_func_body := False, first_stmt := False\<rparr>;
               fn \<leftarrow> name_at (last_func_id P) P;
               P \<leftarrow> generate (\<lambda>_. code_generator_function_end fn) P;
               GET_TOKEN success P
             }) P
           })) (P\<lparr>in_func_head := False, in_func_body := True\<rparr>))))) (P\<lparr>param_cnt := 0\<rparr>)
       })) P
     })) (P\<lparr>in_func_head := True\<rparr>))"

partial_function (option) rule_prog :: "parser \<Rightarrow> (nat \<times> parser) c" where
  "rule_prog P =
     (if tok_type (curr_tok P) = TOKEN_EOF then do {
        P \<leftarrow> generate (\<lambda>_. code_generator_eof) P;
        success P
      }
      else if tok_type (curr_tok P) = TOKEN_FUNC
      then NEXT_RULE function_definition (NEXT_RULE rule_prog success) P
      else NEXT_RULE (rule_stmt rule_block_body)
        (\<lambda>P. NEXT_RULE rule_prog success (P\<lparr>first_stmt := False\<rparr>)) P)"

declare rule_prog.simps [code]

section \<open>Built-in functions\<close>

text \<open>
  Calls on the global table in a row; like \<open>st_err\<close>, the result is the code of the last one.
\<close>

type_synonym table_call = "parser \<Rightarrow> (nat \<times> parser) c"

fun table_calls :: "table_call list \<Rightarrow> nat \<Rightarrow> parser \<Rightarrow> (nat \<times> parser) c" where
  "table_calls [] st_err P = Some (st_err, P)"
| "table_calls (f # fs) st_err P = do { (st_err, P) \<leftarrow> f P; table_calls fs st_err P }"

definition SET_BUILTIN :: "string \<Rightarrow> ty \<Rightarrow> bool \<Rightarrow> table_call list" where
  "SET_BUILTIN func_name ret_type is_nilable =
     [insert_global func_name,
      on_global (\<lambda>T. set_type T func_name T_function),
      on_global (\<lambda>T. set_return_type T func_name ret_type),
      on_global (\<lambda>T. set_nillable T func_name is_nilable),
      on_global (\<lambda>T. set_func_definition T func_name True)]"

definition ADD_BUILTIN_PARAM :: "string \<Rightarrow> string \<Rightarrow> string \<Rightarrow> ty \<Rightarrow> bool \<Rightarrow> table_call list" where
  "ADD_BUILTIN_PARAM builtin_id label param_name param_type is_nilable =
     [on_global (\<lambda>T. add_param T builtin_id param_name),
      on_global (\<lambda>T. set_param_label T builtin_id param_name label),
      on_global (\<lambda>T. set_param_type T builtin_id param_name param_type),
      on_global (\<lambda>T. set_param_nil T builtin_id param_name is_nilable)]"

definition make_variadic :: "string \<Rightarrow> table_call" where
  "make_variadic builtin_id P = do {
     (item, st_err) \<leftarrow> symtable_search (Some (global_symtab P)) builtin_id (p_heap P);
     P \<leftarrow> change_item item (\<lambda>it. it\<lparr>it_variadic_param := True\<rparr>) P;
     Some (st_err, P)
   }"

definition builtin_calls :: "table_call list" where
  "builtin_calls =
     SET_BUILTIN ''readString'' T_string True @
     SET_BUILTIN ''readInt'' T_integer True @
     SET_BUILTIN ''readDouble'' T_double True @
     SET_BUILTIN ''write'' T_nil False @
     [make_variadic ''write''] @
     ADD_BUILTIN_PARAM ''write'' ''_'' ''_'' T_undefined False @
     SET_BUILTIN ''Int2Double'' T_double False @
     ADD_BUILTIN_PARAM ''Int2Double'' ''_'' ''term'' T_integer False @
     SET_BUILTIN ''Double2Int'' T_integer False @
     ADD_BUILTIN_PARAM ''Double2Int'' ''_'' ''term'' T_double False @
     SET_BUILTIN ''length'' T_integer False @
     ADD_BUILTIN_PARAM ''length'' ''_'' ''s'' T_string False @
     SET_BUILTIN ''substring'' T_string True @
     ADD_BUILTIN_PARAM ''substring'' ''of'' ''s'' T_string False @
     ADD_BUILTIN_PARAM ''substring'' ''startingAt'' ''i'' T_integer False @
     ADD_BUILTIN_PARAM ''substring'' ''endingBefore'' ''j'' T_integer False @
     SET_BUILTIN ''ord'' T_integer False @
     ADD_BUILTIN_PARAM ''ord'' ''_'' ''c'' T_string False @
     SET_BUILTIN ''chr'' T_string False @
     ADD_BUILTIN_PARAM ''chr'' ''_'' ''i'' T_integer False"

definition add_builtins :: "parser \<Rightarrow> (bool \<times> parser) c" where
  "add_builtins P = do {
     (st_err, P) \<leftarrow> table_calls builtin_calls SYMTAB_OK P;
     Some (st_err = SYMTAB_OK, P)
   }"

section \<open>The main function of the parser\<close>

text \<open>
  \<open>parser_init\<close> sets the members below; the current token and the position among the
  arguments of a function keep what the memory of the record holds.
\<close>

definition parser_init :: "parser \<Rightarrow> (bool \<times> parser) c" where
  "parser_init P = do {
     (T, H, symtab_err) \<leftarrow> symtable_init (p_heap P);
     if symtab_err \<noteq> SYMTAB_OK then Some (False, P\<lparr>global_symtab := T, p_heap := H\<rparr>)
     else Some (True, P\<lparr>
       global_symtab := T, p_heap := H, p_stack := init_scope, p_tmp := [], p_buffer := tb_init (p_buffer P),
       current_arg := None, current_id := None, last_func_id := None, lhs_id := None, rhs_id := None,
       in_cond := 0, in_func_head := False, in_func_body := False, in_function := False,
       return_found := False, first_stmt := True, in_loop := 0, in_param := False,
       p_expr_res := \<lparr>expr_type = T_undefined, nilable = False\<rparr>,
       param_cnt := 0, cond_uid := 0, loop_uid := 0,
       p_nil := \<lparr>preceding_eol = False, tok_type = TOKEN_NIL, tok_value = V_nilable True\<rparr>\<rparr>)
   }"

definition parser_dispose :: "parser \<Rightarrow> parser c" where
  "parser_dispose P = do {
     (T, H) \<leftarrow> symtable_dispose (global_symtab P) (p_heap P);
     (stack, H, _) \<leftarrow> dispose_scope (p_stack P) H;
     B \<leftarrow> tb_dispose (p_buffer P);
     Some (P\<lparr>p_tmp := [], global_symtab := T, p_heap := H, p_stack := stack, p_buffer := B\<rparr>)
   }"

text \<open>The scanner runs to the end of the input before the parser starts.\<close>

partial_function (option) fill_loop :: "parser \<Rightarrow> (nat \<times> parser) c" where
  "fill_loop P = do {
     (res, t, L) \<leftarrow> get_token (curr_tok P) (p_lex P);
     let P = P\<lparr>curr_tok := t, p_lex := L\<rparr>;
     if res \<noteq> ERR_NO_ERR then Some (res, P)
     else do {
       (_, B, m) \<leftarrow> tb_push (curr_tok P) (p_buffer P) (p_budget P);
       let P = P\<lparr>p_buffer := B, p_budget := m\<rparr>;
       if tok_type (curr_tok P) \<noteq> TOKEN_EOF then fill_loop P
       else Some (ERR_NO_ERR, P\<lparr>p_buffer := (p_buffer P)\<lparr>tb_runner := tb_head (p_buffer P)\<rparr>\<rparr>)
     }
   }"

declare fill_loop.simps [code]

definition parser_fill_buffer :: rule where
  "parser_fill_buffer = fill_loop"

definition parser_get_func_decls :: rule where
  "parser_get_func_decls P = do {
     P \<leftarrow> reload_token P;
     if tok_type (curr_tok P) = TOKEN_UNDEFINED then fail ERR_INTERNAL P
     else NEXT_RULE rule_skip success P
   }"

text \<open>The result of a phase; an error releases the data of the parser and is returned.\<close>

definition phase :: "rule \<Rightarrow> rule \<Rightarrow> rule" where
  "phase rule k P = do {
     (res, P) \<leftarrow> rule P;
     if res \<noteq> ERR_NO_ERR then do { P \<leftarrow> parser_dispose P; fail res P } else k P
   }"

definition parse :: rule where
  "parse P = do {
     (ok, P) \<leftarrow> parser_init P;
     if \<not> ok then fail ERR_INTERNAL P
     else do {
       P \<leftarrow> generate (\<lambda>_. code_generator_prolog) P;
       (ok, P) \<leftarrow> add_builtins P;
       if \<not> ok then do { P \<leftarrow> parser_dispose P; fail ERR_INTERNAL P }
       else phase parser_fill_buffer (phase parser_get_func_decls (\<lambda>P. do {
         P \<leftarrow> reload_token (P\<lparr>p_buffer := (p_buffer P)\<lparr>tb_runner := tb_head (p_buffer P)\<rparr>\<rparr>);
         if tok_type (curr_tok P) = TOKEN_UNDEFINED \<and> int_val_is_0 P (curr_tok P) then fail ERR_INTERNAL P
         else phase rule_prog (\<lambda>P. do { P \<leftarrow> parser_dispose P; success P }) P
       })) P
     }
   }"

text \<open>
  The state in which \<open>main\<close> calls \<open>parse\<close>: the static variables have their initial values, the
  record of the parser is uninitialised memory, given by \<open>P\<close>. Standard input is \<open>inp\<close>, and
  every allocator has the budget \<open>m\<close>.
\<close>

definition program_start :: "budget \<Rightarrow> string \<Rightarrow> parser \<Rightarrow> parser" where
  "program_start m inp P = P\<lparr>
     p_heap := symheap_init m, p_lex := lexer_init m inp, p_cg := codegen_init m,
     p_buffer := tb_empty_heap, p_budget := m, is_multiline_expr := False, is_all_literals := True,
     expr_err := 0\<rparr>"

text \<open>The exit status of the compiler and what it wrote to standard output.\<close>

definition main :: "budget \<Rightarrow> string \<Rightarrow> parser \<Rightarrow> (nat \<times> string) c" where
  "main m inp P = do {
     (res, P) \<leftarrow> parse (program_start m inp P);
     Some (res, cg_out (p_cg P))
   }"

end
