(* ===== verification/Block_Code.thy ===== *)
theory Block_Code
  imports Expression_Parsing Program Samples
begin

text \<open>
  The code of structured programs: assignments to integer variables, loops and conditions,
  nested to any depth. The grammar of statements over global variables, the code of a
  statement, and the proof that the parser reads exactly a statement of the grammar, closes
  what it opened, and prints the code (\<open>statements_ok\<close>).
\<close>

section \<open>Scopes without names, and the variables behind them\<close>

text \<open>No table of a scope hides the name. A scope that was just opened holds \<open>fresh_table\<close>.\<close>

definition misses :: "symheap \<Rightarrow> string \<Rightarrow> symtab option \<Rightarrow> bool" where
  "misses H name T \<longleftrightarrow> symtable_search T name H = Some (None, SYMTAB_ERR_ITEM_NOT_FOUND)"

lemma fresh_table_misses: "misses H name (Some fresh_table)"
  by (simp add: misses_def symtable_search_def fresh_table_def hash_def hash2_def search_probe.simps slot_def)

lemma open_scope_empty:
  "sh_budget (p_heap P) = None \<Longrightarrow> open_scope P = Some (P\<lparr>p_stack := Some fresh_table # p_stack P\<rparr>)"
  by (cases P) (simp add: open_scope_def add_scope_def create_local_symtab_def symtable_init_def alloc_None fresh_table_def Let_def)

lemma dispose_nothing: "dispose_items (replicate n None) H = Some H"
  by (induction n) simp_all

lemma close_scope_empty:
  "p_stack P = Some fresh_table # st \<Longrightarrow> close_scope P = Some (P\<lparr>p_stack := st\<rparr>)"
  by (cases P) (simp add: close_scope_def pop_scope_def symtable_dispose_def dispose_nothing fresh_table_def)

lemma find_scope_misses:
  "\<forall>T\<in>set stack. misses H name T \<Longrightarrow> \<exists>e'. find_scope stack name H e = Some ([], e') \<and> (stack = [] \<longrightarrow> e' = e)"
  by (induction stack arbitrary: e) (auto simp: misses_def)

lemma find_initialized_misses:
  "\<forall>T\<in>set stack. misses H name T \<Longrightarrow> \<exists>e'. find_initialized stack name H e = Some ([], e') \<and>
    (e' = e \<or> e' = SYMTAB_ERR_ITEM_NOT_FOUND)"
proof (induction stack arbitrary: e)
  case (Cons T stack)
  then show ?case using Cons.IH [of SYMTAB_ERR_ITEM_NOT_FOUND] by (auto simp: misses_def)
qed simp

lemma search_stack_misses: "\<forall>T\<in>set stack. misses (p_heap P) name T \<Longrightarrow> search_stack stack name P = Some None"
  using find_scope_misses [of stack "p_heap P" name SYMTAB_OK]
  by (auto simp: search_stack_def search_scopes_def peek_scope_def)

lemma find_variable_misses:
  assumes "\<forall>T\<in>set stack. misses (p_heap P) name T"
    "symtable_search (Some (global_symtab P)) name (p_heap P) = Some (item, e)"
  shows "find_variable stack name P = Some (P\<lparr>current_id := item\<rparr>)"
  using assms(2) search_stack_misses [OF assms(1)]
  by (cases "peek_scope stack") (simp_all add: find_variable_def search_global_def)

text \<open>
  An initialised, mutable global variable of type \<open>Int\<close> that no scope hides, with its text in
  the generated code.
\<close>

definition global_int :: "parser \<Rightarrow> string \<Rightarrow> string \<Rightarrow> bool" where
  "global_int P name v \<longleftrightarrow> (\<exists>a it.
     symtable_search (Some (global_symtab P)) name (p_heap P) = Some (Some a, SYMTAB_OK) \<and>
     (\<forall>T\<in>set (p_stack P). misses (p_heap P) name T) \<and>
     sh_items (p_heap P) a = Some it \<and> it_name it = name \<and> it_is_var_initialized it \<and> it_is_mutable it \<and>
     it_type it = T_integer \<and> \<not> it_is_nillable it \<and> v = var_text gf_name name (it_uid it) \<and> plain name \<and> name \<noteq> ''_'')"

definition var_in :: "(string \<Rightarrow> string option) \<Rightarrow> token \<Rightarrow> string \<Rightarrow> bool" where
  "var_in V t v \<longleftrightarrow> (\<exists>name. tok_type t = TOKEN_IDENTIFIER \<and> tok_value t = V_string name \<and> V name = Some v)"

definition globals :: "(string \<Rightarrow> string option) \<Rightarrow> parser \<Rightarrow> bool" where
  "globals V P \<longleftrightarrow> (\<forall>name v. V name = Some v \<longrightarrow> global_int P name v)"

lemma search_scopes_env_misses:
  assumes "\<forall>T\<in>set stack. misses H name T"
  shows "\<exists>item e. search_env_scopes stack i name H = Some (item, e) \<and> e \<noteq> SYMTAB_OK"
  using find_scope_misses [OF assms, of SYMTAB_NOT_INITIALIZED] find_initialized_misses [OF assms, of SYMTAB_NOT_INITIALIZED]
  by (auto simp: search_env_scopes_def search_scopes_def search_scopes_initialized_var_def peek_scope_def report_error_def symtab_errors)

lemma copy_varname_ok: "cg_budget G = None \<Longrightarrow> copy_varname name G = Some G"
  by (cases G) (simp add: copy_varname_def)

text \<open>The text of a global variable that no scope hides.\<close>

lemma var_ref_global:
  assumes "cg_budget G = None" "env_global E = Some T" "env_scopes E = Some stack" "\<forall>U\<in>set stack. misses (env_heap E) name U"
    "symtable_search (Some T) name (env_heap E) = Some (Some a, SYMTAB_OK)" "sh_items (env_heap E) a = Some it"
  shows "code_generator_get_var_frame E name i G = Some (gf_name, G)" "code_generator_get_var_uid E name i G = Some (it_uid it, G)"
    "var_ref E name i G = Some (var_text gf_name name (it_uid it), G)"
proof -
  obtain item e where s: "search_env_scopes stack i name (env_heap E) = Some (item, e)" "e \<noteq> SYMTAB_OK"
    using search_scopes_env_misses [OF assms(4)] by blast
  show "code_generator_get_var_frame E name i G = Some (gf_name, G)" "code_generator_get_var_uid E name i G = Some (it_uid it, G)"
    using s assms by (simp_all add: code_generator_get_var_frame_def code_generator_get_var_uid_def copy_varname_ok uid_of_def)
  then show "var_ref E name i G = Some (var_text gf_name name (it_uid it), G)"
    by (simp add: var_ref_def)
qed

lemma plain_var_text: "plain frame \<Longrightarrow> plain name \<Longrightarrow> plain (var_text frame name uid)"
  by (simp add: var_text_def plain_print_d)

lemma plain_frames: "plain gf_name" "plain lf_name"
  by (simp_all add: gf_name_def lf_name_def)

lemma env_of_fields [simp]:
  "env_global (env_of P) = Some (global_symtab P)" "env_scopes (env_of P) = Some (p_stack P)" "env_heap (env_of P) = p_heap P"
  by (simp_all add: env_of_def code_generator_set_current_symtable_def)

lemma global_int_ref:
  assumes "global_int P name v"
  shows "plain v" "\<forall>G. cg_wf G \<longrightarrow> var_ref (env_of P) name i G = Some (v, G)"
  using assms var_ref_global(3) [of _ "env_of P" "global_symtab P" "p_stack P" name]
  by (auto simp: global_int_def cg_wf_def plain_var_text plain_frames)

text \<open>
  The variable on the left of an assignment or declaration: not of type \<open>Double\<close>, and it has a
  value already or is none of the variables of \<open>V\<close>.
\<close>

definition lhs_apart :: "(string \<Rightarrow> string option) \<Rightarrow> parser \<Rightarrow> bool" where
  "lhs_apart V P \<longleftrightarrow> (\<forall>a. lhs_id P = Some a \<longrightarrow> (\<exists>it. sh_items (p_heap P) a = Some it \<and> it_type it \<noteq> T_double \<and>
     (it_is_var_initialized it \<or> V (it_name it) = None)))"

lemma lhs_apart_plain: "lhs_apart V P \<Longrightarrow> lhs_plain P"
  by (auto simp: lhs_apart_def lhs_plain_def split: option.split)

lemma globals_int_var:
  assumes "globals V P" "lhs_apart V P" "var_in V t v"
  shows "int_var P t v"
proof -
  obtain name where t: "tok_type t = TOKEN_IDENTIFIER" "tok_value t = V_string name" "V name = Some v"
    using assms(3) by (auto simp: var_in_def)
  have g: "global_int P name v" using assms(1) t(3) by (simp add: globals_def)
  obtain a it where a: "symtable_search (Some (global_symtab P)) name (p_heap P) = Some (Some a, SYMTAB_OK)"
    "\<forall>T\<in>set (p_stack P). misses (p_heap P) name T" "sh_items (p_heap P) a = Some it" "it_is_var_initialized it"
    "it_type it = T_integer" "\<not> it_is_nillable it"
    using g by (auto simp: global_int_def)
  have "local_lookup P name = search_stack (p_stack P) name P"
    using assms(2) t(3) by (cases "lhs_id P") (auto simp: local_lookup_def lhs_apart_def item_at_def strcmp_eq_0)
  then have "name_lookup P name = Some (Some a)"
    using a(1) search_stack_misses [OF a(2)] by (simp add: name_lookup_def search_global_def)
  then show ?thesis using t a global_int_ref [OF g] by (auto simp: int_var_def)
qed

lemma phrase_mono: "phrase V n ts e \<Longrightarrow> (\<And>t v. V t v \<Longrightarrow> W t v) \<Longrightarrow> phrase W n ts e"
proof (induction rule: phrase.induct)
  case (sum ts e t us f)
  show ?case by (rule phrase.sum) (use sum in simp_all)
next
  case (comparison ts e t us f)
  show ?case by (rule phrase.comparison) (use comparison in simp_all)
qed (auto intro: phrase.intros)

text \<open>No call and no other parenthesis follows a variable that begins a phrase.\<close>

lemma phrase_second:
  "phrase V n ts e \<Longrightarrow> tok_type b \<noteq> TOKEN_L_PAR \<Longrightarrow> tok_type (hd ts) = TOKEN_IDENTIFIER \<Longrightarrow>
    (\<And>t v. V t v \<Longrightarrow> tok_type t = TOKEN_IDENTIFIER) \<Longrightarrow> tok_type ((ts @ b # us) ! 1) \<noteq> TOKEN_L_PAR"
proof (induction arbitrary: b us rule: phrase.induct)
  case (product ts e t us' f)
  then show ?case using phrase_ne [OF product.hyps(1)] by (simp add: product.IH(1))
next
  case (quotient ts e t u w)
  then show ?case using phrase_ne [OF quotient.hyps(1)] by (simp add: quotient.IH)
next
  case (sum ts e t us' f)
  then show ?case using phrase_ne [OF sum.hyps(1)] by (auto simp: sum.IH(1))
next
  case (comparison ts e t us' f)
  then show ?case using phrase_ne [OF comparison.hyps(1)] by (auto simp: comparison.IH(1) relations_def)
qed (simp_all add: int_token_of_def)

section \<open>Statements\<close>

datatype stmt = Assign string ex | Loop ex block | Cond ex block block
  and block = Done | Then stmt block

text \<open>
  The tokens of a statement and of the inside of a block, over the variables \<open>V\<close>. Every
  statement but the first of a block begins on a new line.
\<close>

inductive stmt_phrase :: "(string \<Rightarrow> string option) \<Rightarrow> token list \<Rightarrow> stmt \<Rightarrow> bool"
  and block_phrase :: "(string \<Rightarrow> string option) \<Rightarrow> bool \<Rightarrow> token list \<Rightarrow> block \<Rightarrow> bool" for V where
  assign: "var_in V x v \<Longrightarrow> tok_type q = TOKEN_ASS \<Longrightarrow> phrase (var_in V) 0 ts e \<Longrightarrow> ex_type e = T_integer \<Longrightarrow>
    stmt_phrase V (x # q # ts) (Assign v e)"
| loop: "tok_type w = TOKEN_WHILE \<Longrightarrow> phrase (var_in V) 0 ts e \<Longrightarrow> ex_type e = T_bool \<Longrightarrow> tok_type l = TOKEN_L_BKT \<Longrightarrow>
    block_phrase V True us b \<Longrightarrow> tok_type r = TOKEN_R_BKT \<Longrightarrow> stmt_phrase V (w # ts @ l # us @ [r]) (Loop e b)"
| cond: "tok_type i = TOKEN_IF \<Longrightarrow> phrase (var_in V) 0 ts e \<Longrightarrow> ex_type e = T_bool \<Longrightarrow> tok_type l = TOKEN_L_BKT \<Longrightarrow>
    block_phrase V True us b \<Longrightarrow> tok_type r = TOKEN_R_BKT \<Longrightarrow> tok_type s = TOKEN_ELSE \<Longrightarrow> tok_type l' = TOKEN_L_BKT \<Longrightarrow>
    block_phrase V True us' b' \<Longrightarrow> tok_type r' = TOKEN_R_BKT \<Longrightarrow>
    stmt_phrase V (i # ts @ l # us @ r # s # l' # us' @ [r']) (Cond e b b')"
| finish: "block_phrase V first [] Done"
| step: "stmt_phrase V ts s \<Longrightarrow> first \<or> preceding_eol (hd ts) \<Longrightarrow> block_phrase V False us b \<Longrightarrow>
    block_phrase V first (ts @ us) (Then s b)"

text \<open>
  The code of a statement. The numbers of labels come from the counters \<open>cond_uid\<close> and
  \<open>loop_uid\<close>, which are returned; what a loop prints at once goes in front of it.
\<close>

definition assign_events :: "string \<Rightarrow> event list" where
  "assign_events v = [Buffered (NL # ''POPS '' @ v @ [NL])]"

definition test_events :: "32 word \<Rightarrow> event list" where
  "test_events n = [Buffered (nl ''PUSHS bool@true''), Buffered (ln (''JUMPIFNEQS $$FOR_END_'' @ print_u n)),
     Buffered (ln (''JUMP $$FOR_BODY_'' @ print_u n)), Buffered (nl (''LABEL $$FOR_BODY_'' @ print_u n))]"

definition loop_events :: "32 word \<Rightarrow> event list \<Rightarrow> event list" where
  "loop_events n es = [Direct (direct es), Buffered (loop_start n @ buffered es @ loop_stop n)]"

definition cond_events :: "32 word \<Rightarrow> event list \<Rightarrow> event list \<Rightarrow> event list" where
  "cond_events n es es' =
     [Buffered (nl ''PUSHS bool@true''), Buffered (ln (''JUMPIFNEQS $$ELSE_'' @ print_u n))] @ es @
     [Buffered (nl (''JUMP $$IF_END_'' @ print_u n)), Buffered (ln (''LABEL $$ELSE_'' @ print_u n))] @ es' @
     [Buffered (nl (''LABEL $$IF_END_'' @ print_u n))]"

type_synonym uids = "32 word \<times> 32 word"

fun stmt_code :: "stmt \<Rightarrow> uids \<Rightarrow> event list \<times> uids" and block_code :: "block \<Rightarrow> uids \<Rightarrow> event list \<times> uids" where
  "stmt_code (Assign v e) u = (code_events e @ assign_events v, u)"
| "stmt_code (Loop e b) (c, l) =
     (case block_code b (c, l + 1) of (es, u) \<Rightarrow> (loop_events l (code_events e @ test_events l @ es), u))"
| "stmt_code (Cond e b b') (c, l) =
     (case block_code b (c + 1, l) of (es, u) \<Rightarrow> case block_code b' u of (es', u') \<Rightarrow>
        (code_events e @ cond_events c es es', u'))"
| "block_code Done u = ([], u)"
| "block_code (Then s b) u = (case stmt_code s u of (es, u) \<Rightarrow> case block_code b u of (es', u') \<Rightarrow> (es @ es', u'))"

text \<open>How deep loops are nested.\<close>

fun stmt_depth :: "stmt \<Rightarrow> nat" and block_depth :: "block \<Rightarrow> nat" where
  "stmt_depth (Assign v e) = 0"
| "stmt_depth (Loop e b) = Suc (block_depth b)"
| "stmt_depth (Cond e b b') = max (block_depth b) (block_depth b')"
| "block_depth Done = 0"
| "block_depth (Then s b) = max (stmt_depth s) (block_depth b)"

section \<open>What a statement leaves alone\<close>

definition stmt_frame :: "parser \<Rightarrow> parser \<Rightarrow> bool" where
  "stmt_frame P P' \<longleftrightarrow> global_symtab P' = global_symtab P \<and> p_heap P' = p_heap P \<and> p_stack P' = p_stack P \<and>
     expr_err P' = expr_err P \<and> in_cond P' = in_cond P \<and> in_loop P' = in_loop P \<and> in_func_body P' = in_func_body P \<and>
     last_func_id P' = last_func_id P \<and> lhs_id P' = lhs_id P"

lemma stmt_frame_refl: "stmt_frame P P"
  by (simp add: stmt_frame_def)

lemma stmt_frame_trans: "stmt_frame P P1 \<Longrightarrow> stmt_frame P1 P2 \<Longrightarrow> stmt_frame P P2"
  by (simp add: stmt_frame_def)

lemma expr_stmt_frame: "expr_frame P P' \<Longrightarrow> stmt_frame P P'"
  by (simp add: expr_frame_def stmt_frame_def)

lemma globals_same:
  "global_symtab P' = global_symtab P \<Longrightarrow> p_heap P' = p_heap P \<Longrightarrow> p_stack P' = p_stack P \<Longrightarrow> globals V P' = globals V P"
  by (simp add: globals_def global_int_def)

lemma globals_open: "globals V P \<Longrightarrow> globals V (P\<lparr>p_stack := Some fresh_table # p_stack P\<rparr>)"
  by (auto simp: globals_def global_int_def fresh_table_misses)

lemma reading_more [simp]:
  "reading toks i ts (P\<lparr>current_id := c\<rparr>) = reading toks i ts P" "reading toks i ts (P\<lparr>lhs_id := c\<rparr>) = reading toks i ts P"
  "reading toks i ts (P\<lparr>rhs_id := c\<rparr>) = reading toks i ts P" "reading toks i ts (P\<lparr>first_stmt := b\<rparr>) = reading toks i ts P"
  "reading toks i ts (P\<lparr>in_cond := n\<rparr>) = reading toks i ts P" "reading toks i ts (P\<lparr>in_loop := n\<rparr>) = reading toks i ts P"
  "reading toks i ts (P\<lparr>cond_uid := n\<rparr>) = reading toks i ts P" "reading toks i ts (P\<lparr>loop_uid := n\<rparr>) = reading toks i ts P"
  "reading toks i ts (P\<lparr>p_stack := st\<rparr>) = reading toks i ts P" "reading toks i ts (P\<lparr>p_heap := H\<rparr>) = reading toks i ts P"
  by (simp_all add: reading_def at_token_def)

lemma advance_more [simp]:
  "first_stmt (advance P) = first_stmt P" "in_cond (advance P) = in_cond P" "in_loop (advance P) = in_loop P"
  "loop_uid (advance P) = loop_uid P" "rhs_id (advance P) = rhs_id P" "in_func_body (advance P) = in_func_body P"
  "last_func_id (advance P) = last_func_id P"
  by (simp_all add: advance_def Let_def)

lemma reading_curr: "reading toks i (t # ts) P \<Longrightarrow> curr_tok P = t"
  by (simp add: reading_def)

lemma reading_nth:
  assumes "reading toks i ts P" "k < length ts"
  shows "toks ! (i + k) = ts ! k"
  using assms by (auto simp: reading_def at_token_def)

section \<open>Assignments\<close>

lemma phrase_first: "phrase V n ts e \<Longrightarrow> tok_type (hd ts) = TOKEN_IDENTIFIER \<Longrightarrow> \<exists>v. V (hd ts) v"
proof (induction rule: phrase.induct)
  case (product ts e t us f)
  then show ?case using phrase_ne [OF product.hyps(1)] by simp
next
  case (quotient ts e t u w)
  then show ?case using phrase_ne [OF quotient.hyps(1)] by simp
next
  case (sum ts e t us f)
  then show ?case using phrase_ne [OF sum.hyps(1)] by simp
next
  case (comparison ts e t us f)
  then show ?case using phrase_ne [OF comparison.hyps(1)] by simp
qed (auto simp: int_token_of_def)

text \<open>The right side is an expression: the parser steps back to the token in front of it.\<close>




lemma right_side_expression:
  assumes r: "reading toks i (q # t # u # us) P"
    and t: "tok_type t = TOKEN_IDENTIFIER \<Longrightarrow> \<exists>name a it e. tok_value t = V_string name \<and>
      symtable_search (Some (global_symtab P)) name (p_heap P) = Some (Some a, e) \<and>
      sh_items (p_heap P) a = Some it \<and> it_type it \<noteq> T_function \<and> tok_type u \<noteq> TOKEN_L_PAR"
  obtains B rhs where "right_side call expression P = expression (P\<lparr>p_buffer := B, curr_tok := q, rhs_id := rhs\<rparr>)"
    "reading toks i (q # t # u # us) (P\<lparr>p_buffer := B, curr_tok := q, rhs_id := rhs\<rparr>)"
proof -
  let ?P1 = "advance P"
  have r1: "reading toks (Suc i) (t # u # us) ?P1" by (rule reading_advance(2) [OF r])
  have q: "toks ! i = q" "curr_tok P = q" using reading_nth [OF r, of 0] reading_curr [OF r] by simp_all
  have toks: "i < length toks" "toks \<noteq> []" using r by (auto simp: reading_def at_token_def)
  have re: "reload_token (P'\<lparr>p_buffer := B\<rparr>) = Some (P'\<lparr>p_buffer := B, curr_tok := q\<rparr>)" if "tb_repr B toks i" for P' B
    using tb.cur_law [OF that] q(1) toks by (simp add: reload_token_def)
  have fin: "reading toks i (q # t # u # us) (P\<lparr>p_buffer := B, curr_tok := q, rhs_id := rhs\<rparr>)" if "tb_repr B toks i" for B rhs
    using r that by (auto simp: reading_def at_token_def)
  obtain B1 where B1: "tb_prev (p_buffer ?P1) = Some B1" "tb_repr B1 toks i"
    by (rule step_back_reading [OF r1])
  show ?thesis
  proof (cases "tok_type t = TOKEN_IDENTIFIER")
    case False
    have "right_side call expression P = expression (?P1\<lparr>p_buffer := B1, curr_tok := q\<rparr>)"
      using False reading_curr [OF r1] re [OF B1(2)] B1(1)
      by (simp add: right_side_def Let_def reading_advance(1) [OF r] step_back_def)
    moreover have "?P1\<lparr>p_buffer := B1, curr_tok := q\<rparr> = P\<lparr>p_buffer := B1, curr_tok := q, rhs_id := rhs_id P\<rparr>"
      by (simp add: advance_def Let_def)
    ultimately show ?thesis using that [of "rhs_id P" B1] fin [OF B1(2)] by simp
  next
    case True
    then obtain name a it e where t: "tok_value t = V_string name"
      "symtable_search (Some (global_symtab P)) name (p_heap P) = Some (Some a, e)"
      "sh_items (p_heap P) a = Some it" "it_type it \<noteq> T_function" "tok_type u \<noteq> TOKEN_L_PAR"
      using t by blast
    let ?P2 = "?P1\<lparr>rhs_id := Some a\<rparr>"
    have r2: "reading toks (Suc i) (t # u # us) ?P2" using r1 by simp
    have r3: "reading toks (Suc (Suc i)) (u # us) (advance ?P2)" by (rule reading_advance(2) [OF r2])
    obtain B2 where B2: "tb_prev (p_buffer (advance ?P2)) = Some B2" "tb_repr B2 toks (Suc i)"
      by (rule step_back_reading [OF r3])
    obtain B3 where B3: "tb_prev B2 = Some B3" "tb_repr B3 toks i"
      using tb.prv_law [OF B2(2)] r1 by (auto simp: reading_def at_token_def)
    have "right_side call expression P = expression ((advance ?P2)\<lparr>p_buffer := B3, curr_tok := q\<rparr>)"
      using True t reading_curr [OF r1] reading_curr [OF r3] re [OF B3(2), of "advance ?P2"] B2(1) B3(1)
      by (simp add: right_side_def Let_def reading_advance(1) [OF r] reading_advance(1) [OF r2] step_back_def
          search_global_def tok_str_def item_at_def)
    moreover have "(advance ?P2)\<lparr>p_buffer := B3, curr_tok := q\<rparr> = P\<lparr>p_buffer := B3, curr_tok := q, rhs_id := Some a\<rparr>"
      by (simp add: advance_def Let_def)
    ultimately show ?thesis using that [of "Some a" B3] fin [OF B3(2)] by simp
  qed
qed

text \<open>The state in which statements run, and the result of a statement.\<close>

definition ready_for :: "(string \<Rightarrow> string option) \<Rightarrow> parser \<Rightarrow> bool" where
  "ready_for V P \<longleftrightarrow> globals V P \<and> lhs_id P = None \<and> expr_err P = EXIT_SUCCESS \<and> cg_wf (p_cg P) \<and> sh_budget (p_heap P) = None"

definition leads :: "token list \<Rightarrow> token list \<Rightarrow> event list \<times> uids \<Rightarrow> parser \<Rightarrow> (nat \<times> parser) c \<Rightarrow> bool" where
  "leads toks ts code P result \<longleftrightarrow> (\<exists>P' j. result = Some (ERR_NO_ERR, P') \<and> reading toks j ts P' \<and> stmt_frame P P' \<and>
     writes (fst code) (p_cg P) (p_cg P') \<and> (cond_uid P', loop_uid P') = snd code)"

lemma ready_frame: "ready_for V P \<Longrightarrow> stmt_frame P P' \<Longrightarrow> cg_wf (p_cg P') \<Longrightarrow> ready_for V P'"
  using globals_same [of P' P V] by (simp add: ready_for_def stmt_frame_def)

lemma expression_runs:
  assumes "reading toks i (t0 # ts @ b # us) P" "phrase (var_in V) 0 ts e" "ends_expression b"
    "globals V P" "lhs_apart V P" "expr_err P = EXIT_SUCCESS" "cg_wf (p_cg P)"
  obtains P' where "expr P = Some (ERR_NO_ERR, P')" "wrote (code_events e) P P'"
    "p_expr_res P' = \<lparr>expr_type = ex_type e, nilable = False\<rparr>" "reading toks (i + Suc (length ts)) (b # us) P'"
proof -
  have "phrase (int_var P) 0 ts e" by (rule phrase_mono [OF assms(2)]) (rule globals_int_var [OF assms(4,5)])
  from expr_phrase [OF assms(1) this assms(3,6) lhs_apart_plain [OF assms(5)] assms(7)] that show ?thesis by blast
qed

lemma var_inE:
  assumes "var_in V t v" "globals V P"
  obtains name a it where "tok_type t = TOKEN_IDENTIFIER" "tok_str t = Some name" "tok_value t = V_string name"
    "symtable_search (Some (global_symtab P)) name (p_heap P) = Some (Some a, SYMTAB_OK)"
    "\<forall>T\<in>set (p_stack P). misses (p_heap P) name T"
    "sh_items (p_heap P) a = Some it" "it_name it = name" "it_is_var_initialized it" "it_is_mutable it"
    "it_type it = T_integer" "\<not> it_is_nillable it" "global_int P name v" "name \<noteq> ''_''"
proof -
  obtain name where t: "tok_type t = TOKEN_IDENTIFIER" "tok_value t = V_string name" "V name = Some v"
    using assms(1) by (auto simp: var_in_def)
  have g: "global_int P name v" using assms(2) t(3) by (simp add: globals_def)
  then obtain a it where "symtable_search (Some (global_symtab P)) name (p_heap P) = Some (Some a, SYMTAB_OK)"
    "\<forall>T\<in>set (p_stack P). misses (p_heap P) name T"
    "sh_items (p_heap P) a = Some it" "it_name it = name" "it_is_var_initialized it" "it_is_mutable it"
    "it_type it = T_integer" "\<not> it_is_nillable it" "name \<noteq> ''_''"
    by (auto simp: global_int_def)
  with t g show ?thesis using that by (simp add: tok_str_def)
qed

lemma set_initialized_again:
  assumes "lhs_id P = Some a" "sh_items (p_heap P) a = Some it" "it_is_var_initialized it"
  shows "set_initialized P = Some P"
proof -
  have "it\<lparr>it_is_var_initialized := True\<rparr> = it" using assms(3) by (cases it) simp
  moreover have "(sh_items (p_heap P))(a \<mapsto> it) = sh_items (p_heap P)" by (rule fun_upd_idem) (rule assms(2))
  ultimately have "set_item (p_heap P) a (\<lambda>it. it\<lparr>it_is_var_initialized := True\<rparr>) = Some (p_heap P)"
    using assms(2) by (simp add: set_item_def)
  then show ?thesis using assms(1) by (simp add: set_initialized_def change_item_def)
qed

lemma prints_assign:
  assumes "global_int P name v"
  shows "prints UNIV 0 (code_generator_var_assign (env_of P) name) (assign_events v)"
proof -
  have "name \<noteq> ''_''" using assms by (auto simp: global_int_def)
  then show ?thesis
    using prints_BUFFER_PRINT_var [OF global_int_ref(2) [OF assms], of "NL # ''POPS ''" "[NL]" UNIV 0] global_int_ref(1) [OF assms]
    by (simp add: code_generator_var_assign_def assign_events_def strcmp_eq_0)
qed

lemma ends_not_par: "ends_expression b \<Longrightarrow> tok_type b \<noteq> TOKEN_L_PAR"
  by (auto simp: ends_expression_def line_end_def convert_token_to_index_def)

lemma right_side_value:
  assumes r: "reading toks i (q # ts @ b # us) P" and ph: "phrase (var_in V) 0 ts e" and b: "ends_expression b" and g: "globals V P"
  obtains B rhs where "right_side call expression P = expression (P\<lparr>p_buffer := B, curr_tok := q, rhs_id := rhs\<rparr>)"
    "reading toks i (q # ts @ b # us) (P\<lparr>p_buffer := B, curr_tok := q, rhs_id := rhs\<rparr>)"
proof -
  obtain t ts' where ts: "ts = t # ts'" using phrase_ne [OF ph] by (cases ts) auto
  obtain u us' where u: "ts' @ b # us = u # us'" by (cases "ts' @ b # us") auto
  have second: "tok_type u \<noteq> TOKEN_L_PAR" if "tok_type t = TOKEN_IDENTIFIER"
    using phrase_second [OF ph ends_not_par [OF b], of us] that u ts by (auto simp: var_in_def)
  have name: "\<exists>name a it e. tok_value t = V_string name \<and>
      symtable_search (Some (global_symtab P)) name (p_heap P) = Some (Some a, e) \<and>
      sh_items (p_heap P) a = Some it \<and> it_type it \<noteq> T_function \<and> tok_type u \<noteq> TOKEN_L_PAR"
    if t: "tok_type t = TOKEN_IDENTIFIER"
  proof -
    obtain w where "var_in V t w" using phrase_first [OF ph] t ts by auto
    from var_inE [OF this g] obtain name a it where "tok_value t = V_string name"
      "symtable_search (Some (global_symtab P)) name (p_heap P) = Some (Some a, SYMTAB_OK)"
      "sh_items (p_heap P) a = Some it" "it_type it = T_integer" by metis
    then show ?thesis using second [OF t] by (intro exI [of _ name] exI [of _ a] exI [of _ it] exI [of _ SYMTAB_OK]) simp
  qed
  have eq: "q # ts @ b # us = q # t # u # us'" using ts u by simp
  from r eq have "reading toks i (q # t # u # us') P" by simp
  from right_side_expression [OF this name] show ?thesis using that unfolding eq by metis
qed

text \<open>The value of an expression is assigned to the variable on the left.\<close>

lemma assignment_runs:
  assumes r: "reading toks i (q # ts @ b # us) P" and ph: "phrase (var_in V) 0 ts e" "ex_type e = T_integer"
    and b: "ends_expression b" and g: "globals V P" "expr_err P = EXIT_SUCCESS" "cg_wf (p_cg P)"
    and lhs: "lhs_id P = Some a" "sh_items (p_heap P) a = Some it" "it_is_var_initialized it" "it_type it = T_integer"
      "\<not> it_is_nillable it" "global_int P (it_name it) v"
  obtains P' j where "assignment P = Some (ERR_NO_ERR, P')" "reading toks j (b # us) P'" "stmt_frame P P'"
    "writes (code_events e @ assign_events v) (p_cg P) (p_cg P')" "cond_uid P' = cond_uid P" "loop_uid P' = loop_uid P"
proof -
  from right_side_value [OF r ph(1) b g(1)] obtain B rhs where
    rs: "assignment P = typed_expression (\<lambda>P. do { P \<leftarrow> set_initialized P; success P }) initialize_and_assign
        (P\<lparr>p_buffer := B, curr_tok := q, rhs_id := rhs\<rparr>)"
    and r1: "reading toks i (q # ts @ b # us) (P\<lparr>p_buffer := B, curr_tok := q, rhs_id := rhs\<rparr>)"
    unfolding assignment_def .
  let ?P1 = "P\<lparr>p_buffer := B, curr_tok := q, rhs_id := rhs\<rparr>"
  have g1: "globals V ?P1" using g(1) globals_same [of ?P1 P V] by simp
  have l1: "lhs_apart V ?P1" using lhs by (simp add: lhs_apart_def)
  obtain P2 where P2: "expr ?P1 = Some (ERR_NO_ERR, P2)" "wrote (code_events e) ?P1 P2"
      "p_expr_res P2 = \<lparr>expr_type = ex_type e, nilable = False\<rparr>" "reading toks (i + Suc (length ts)) (b # us) P2"
    by (rule expression_runs [OF r1 ph(1) b g1 l1]) (use g in simp_all)
  have f2: "stmt_frame P P2" "cond_uid P2 = cond_uid P" "loop_uid P2 = loop_uid P"
    using P2(2) by (simp_all add: wrote_def expr_frame_def stmt_frame_def)
  have i2: "lhs_id P2 = Some a" "sh_items (p_heap P2) a = Some it" using f2(1) lhs by (simp_all add: stmt_frame_def)
  have gi: "global_int P2 (it_name it) v" using lhs(6) f2(1) by (simp add: global_int_def stmt_frame_def)
  obtain G where G: "generate (\<lambda>env. code_generator_var_assign env (it_name it)) P2 = Some (P2\<lparr>p_cg := G\<rparr>)"
      "wrote (assign_events v) P2 (P2\<lparr>p_cg := G\<rparr>)"
    by (rule generate_prints [OF _ wrote_cg_wf [OF P2(2)], where f = "\<lambda>env. code_generator_var_assign env (it_name it)"])
      (rule prints_assign [OF gi])
  have "initialize_and_assign P2 = Some (ERR_NO_ERR, P2\<lparr>p_cg := G\<rparr>)"
    using set_initialized_again [OF i2 lhs(3)] i2 G(1)
    by (simp add: initialize_and_assign_def name_at_def item_at_def success_def ERR_NO_ERR_def EXIT_SUCCESS_def)
  then have "assignment P = Some (ERR_NO_ERR, P2\<lparr>p_cg := G\<rparr>)"
    using rs P2(1,3) i2 lhs(4,5) ph(2) by (simp add: typed_expression_def NEXT_RULE_def item_at_def)
  moreover have "writes (code_events e @ assign_events v) (p_cg P) (p_cg (P2\<lparr>p_cg := G\<rparr>))"
    using P2(2) G(2) writes_trans [of _ "p_cg P" "p_cg P2"] by (simp add: wrote_def)
  moreover have "stmt_frame P (P2\<lparr>p_cg := G\<rparr>)" using f2(1) by (simp add: stmt_frame_def)
  moreover have "reading toks (i + Suc (length ts)) (b # us) (P2\<lparr>p_cg := G\<rparr>)" using P2(4) by simp
  ultimately show ?thesis using that [of "P2\<lparr>p_cg := G\<rparr>"] f2 by simp
qed

lemma identifier_statement_leads:
  assumes r: "reading toks i (x # q # ts @ b # us) P" and s: "var_in V x v" "tok_type q = TOKEN_ASS" "phrase (var_in V) 0 ts e"
      "ex_type e = T_integer" and b: "ends_expression b" and V: "ready_for V P" and new: "first_stmt P \<or> preceding_eol x"
  shows "leads toks (b # us) (stmt_code (Assign v e) (cond_uid P, loop_uid P)) P (identifier_statement P)"
proof -
  have g: "globals V P" "lhs_id P = None" "expr_err P = EXIT_SUCCESS" "cg_wf (p_cg P)" using V by (simp_all add: ready_for_def)
  have x: "curr_tok P = x" by (rule reading_curr [OF r])
  obtain name a it where n: "tok_type x = TOKEN_IDENTIFIER" "tok_str x = Some name" "tok_value x = V_string name"
    "symtable_search (Some (global_symtab P)) name (p_heap P) = Some (Some a, SYMTAB_OK)"
    "\<forall>T\<in>set (p_stack P). misses (p_heap P) name T"
    "sh_items (p_heap P) a = Some it" "it_name it = name" "it_is_var_initialized it" "it_is_mutable it"
    "it_type it = T_integer" "\<not> it_is_nillable it" "global_int P name v" "name \<noteq> ''_''"
    by (rule var_inE [OF s(1) g(1)])
  let ?P = "P\<lparr>current_id := Some a, lhs_id := Some a\<rparr>"
  have r0: "reading toks i (x # q # ts @ b # us) ?P" using r by simp
  have r1: "reading toks (Suc i) (q # ts @ b # us) (advance ?P)" by (rule reading_advance(2) [OF r0])
  have g1: "globals V (advance ?P)" using globals_same [of "advance ?P" P V] g(1) by simp
  have gi: "global_int (advance ?P) (it_name it) v" using n(7,12) by (simp add: global_int_def)
  obtain P2 j where P2: "assignment (advance ?P) = Some (ERR_NO_ERR, P2)" "reading toks j (b # us) P2" "stmt_frame (advance ?P) P2"
      "writes (code_events e @ assign_events v) (p_cg (advance ?P)) (p_cg P2)"
      "cond_uid P2 = cond_uid (advance ?P)" "loop_uid P2 = loop_uid (advance ?P)"
    by (rule assignment_runs [OF r1 s(3,4) b g1 _ _ _ _ n(8) n(10) n(11) gi]) (use n g in simp_all)
  have e: "rule_expr_type (advance ?P) = Some (ERR_NO_ERR, P2)"
    using P2(1) n(6,9) reading_curr [OF r1] s(2) by (simp add: rule_expr_type_def item_at_def)
  have "identifier_statement P = Some (ERR_NO_ERR, P2\<lparr>lhs_id := None\<rparr>)"
    using new e find_variable_misses [OF n(5,4)] x n(2) reading_advance(1) [OF r0]
    by (auto simp: identifier_statement_def CHECK_NEWLINE_def NEXT_RULE_def success_def ERR_NO_ERR_def EXIT_SUCCESS_def)
  moreover have "stmt_frame P (P2\<lparr>lhs_id := None\<rparr>)" using P2(3) g(2) by (simp add: stmt_frame_def)
  ultimately show ?thesis using P2 by (auto simp: leads_def)
qed

text \<open>The first token of a statement tells the statements apart, and ends an expression in front of it.\<close>

lemma stmt_phrase_first:
  "stmt_phrase V ts s \<Longrightarrow> ts \<noteq> [] \<and> (tok_type (hd ts) = TOKEN_WHILE \<or> tok_type (hd ts) = TOKEN_IF \<or>
    tok_type (hd ts) = TOKEN_IDENTIFIER)"
  by (auto elim!: stmt_phrase.cases simp: var_in_def)

lemma stmt_phrase_ends: "stmt_phrase V ts s \<Longrightarrow> preceding_eol (hd ts) \<Longrightarrow> ends_expression (hd ts)"
  using stmt_phrase_first [of V ts s] by (auto simp: ends_expression_def line_end_def convert_token_to_index_def)

lemma block_phrase_ends:
  assumes "block_phrase V False us b" "ends_expression r"
  shows "ends_expression (hd (us @ r # ts))"
  using assms(1)
proof cases
  case (step ts s us b)
  then show ?thesis using stmt_phrase_ends [of V ts s] stmt_phrase_first [of V ts s] by (auto simp: hd_append)
qed (use assms(2) in simp)

section \<open>Loops and conditions\<close>

text \<open>
  What is to be shown of a statement and of a block. The block begins with the scope that was
  opened for it, and closes it.
\<close>

definition room_for :: "nat \<Rightarrow> parser \<Rightarrow> bool" where
  "room_for d P \<longleftrightarrow> unat (for_open (p_cg P)) + d < 2 ^ 32"

definition stmt_ok :: "(string \<Rightarrow> string option) \<Rightarrow> token list \<Rightarrow> stmt \<Rightarrow> bool" where
  "stmt_ok V ts s \<longleftrightarrow> (\<forall>toks i b us P. reading toks i (ts @ b # us) P \<and> ends_expression b \<and> ready_for V P \<and>
     (first_stmt P \<or> preceding_eol (hd ts)) \<and> room_for (stmt_depth s) P \<longrightarrow>
     leads toks (b # us) (stmt_code s (cond_uid P, loop_uid P)) P (rule_stmt rule_block_body P))"

definition block_ok :: "(string \<Rightarrow> string option) \<Rightarrow> bool \<Rightarrow> token list \<Rightarrow> block \<Rightarrow> bool" where
  "block_ok V first us b \<longleftrightarrow> (\<forall>toks i r ts P st. reading toks i (us @ r # ts) P \<and> tok_type r = TOKEN_R_BKT \<and> ready_for V P \<and>
     p_stack P = Some fresh_table # st \<and> (first \<longrightarrow> first_stmt P) \<and> room_for (block_depth b) P \<longrightarrow>
     leads toks (r # ts) (block_code b (cond_uid P, loop_uid P)) (P\<lparr>p_stack := st\<rparr>) (rule_block_body P))"

lemma stmt_okD:
  "stmt_ok V ts s \<Longrightarrow> reading toks i (ts @ b # us) P \<Longrightarrow> ends_expression b \<Longrightarrow> ready_for V P \<Longrightarrow>
    first_stmt P \<or> preceding_eol (hd ts) \<Longrightarrow> room_for (stmt_depth s) P \<Longrightarrow>
    leads toks (b # us) (stmt_code s (cond_uid P, loop_uid P)) P (rule_stmt rule_block_body P)"
  unfolding stmt_ok_def by blast

lemma block_okD:
  "block_ok V first us b \<Longrightarrow> reading toks i (us @ r # ts) P \<Longrightarrow> tok_type r = TOKEN_R_BKT \<Longrightarrow> ready_for V P \<Longrightarrow>
    p_stack P = Some fresh_table # st \<Longrightarrow> (first \<longrightarrow> first_stmt P) \<Longrightarrow> room_for (block_depth b) P \<Longrightarrow>
    leads toks (r # ts) (block_code b (cond_uid P, loop_uid P)) (P\<lparr>p_stack := st\<rparr>) (rule_block_body P)"
  unfolding block_ok_def by blast

lemma leadsE:
  assumes "leads toks ts code P result"
  obtains P' j where "result = Some (ERR_NO_ERR, P')" "reading toks j ts P'" "stmt_frame P P'"
    "writes (fst code) (p_cg P) (p_cg P')" "(cond_uid P', loop_uid P') = snd code"
  using assms by (auto simp: leads_def)

lemma CHECK_NEWLINE_ok: "first_stmt P \<or> preceding_eol (curr_tok P) \<Longrightarrow> CHECK_NEWLINE k P = k P"
  by (auto simp: CHECK_NEWLINE_def)

lemma generate_writes:
  assumes "prints UNIV 0 (f (env_of P)) es" "cg_wf (p_cg P)"
  obtains G where "generate f P = Some (P\<lparr>p_cg := G\<rparr>)" "writes es (p_cg P) G"
proof (rule generate_prints [where f = f and P = P, OF assms])
  fix G
  assume "generate f P = Some (P\<lparr>p_cg := G\<rparr>)" "wrote es P (P\<lparr>p_cg := G\<rparr>)"
  then show thesis using that by (simp add: wrote_def)
qed

lemma ready_expr: "ready_for V P \<Longrightarrow> lhs_apart V P"
  by (simp add: ready_for_def lhs_apart_def)

lemma ready_upd:
  "ready_for V P \<Longrightarrow> ready_for V (P\<lparr>in_loop := n\<rparr>)" "ready_for V P \<Longrightarrow> ready_for V (P\<lparr>in_cond := m\<rparr>)"
  "ready_for V P \<Longrightarrow> ready_for V (P\<lparr>loop_uid := u\<rparr>)" "ready_for V P \<Longrightarrow> ready_for V (P\<lparr>cond_uid := u\<rparr>)"
  "ready_for V P \<Longrightarrow> ready_for V (P\<lparr>first_stmt := b\<rparr>)" "ready_for V P \<Longrightarrow> ready_for V (advance P)"
  "ready_for V P \<Longrightarrow> ready_for V (P\<lparr>p_stack := Some fresh_table # p_stack P\<rparr>)"
  "ready_for V P \<Longrightarrow> cg_wf G \<Longrightarrow> ready_for V (P\<lparr>p_cg := G\<rparr>)"
  using globals_open [of V P] by (auto simp: ready_for_def globals_def global_int_def)

lemma prints_test:
  "prints UNIV 0 (code_generator_for_loop_if n) (take 3 (test_events n))"
  "prints UNIV 0 (code_generator_for_body n) (drop 3 (test_events n))"
  unfolding code_generator_for_loop_if_def code_generator_for_body_def test_events_def
  using prints_buffer_list [of "[nl ''PUSHS bool@true'', ln (''JUMPIFNEQS $$FOR_END_'' @ print_u n),
    ln (''JUMP $$FOR_BODY_'' @ print_u n)]"] prints_BUFFER_PRINT [of "nl (''LABEL $$FOR_BODY_'' @ print_u n)"]
  by (simp_all add: plain_print_u)

text \<open>The inside of a loop: the test, the scope of the body, and the body.\<close>

definition loop_inside :: "32 word \<Rightarrow> rule \<Rightarrow> rule \<Rightarrow> rule" where
  "loop_inside n body k = NEXT_RULE expr (\<lambda>P. do {
     P \<leftarrow> generate (\<lambda>_. code_generator_for_loop_if n) P;
     if expr_type (p_expr_res P) \<noteq> T_bool then fail ERR_INCOMPATIBILE_TYPE P
     else ASSERT_TOK_TYPE TOKEN_L_BKT (GET_TOKEN (\<lambda>P. do {
       P \<leftarrow> open_scope P;
       P \<leftarrow> generate (\<lambda>_. code_generator_for_body n) (P\<lparr>first_stmt := True\<rparr>);
       NEXT_RULE body k P
     })) P
   })"

lemma loop_inside_leads:
  assumes r: "reading toks i (w # ts @ l # us @ r # rs) P" and ph: "phrase (var_in V) 0 ts e" "ex_type e = T_bool"
    and t: "tok_type l = TOKEN_L_BKT" "tok_type r = TOKEN_R_BKT" and body: "block_ok V True us b" and V: "ready_for V P"
    and room: "room_for (block_depth b) P"
  obtains P' where "\<And>k. loop_inside n rule_block_body k P = k P'"
    "leads toks (r # rs) (code_events e @ test_events n @ fst (block_code b (cond_uid P, loop_uid P)),
       snd (block_code b (cond_uid P, loop_uid P))) P (Some (ERR_NO_ERR, P'))"
proof -
  have g: "globals V P" "expr_err P = EXIT_SUCCESS" "cg_wf (p_cg P)" using V by (simp_all add: ready_for_def)
  have dollar: "ends_expression l" using t(1) by (simp add: ends_expression_def convert_token_to_index_def)
  obtain P1 where P1: "expr P = Some (ERR_NO_ERR, P1)" "wrote (code_events e) P P1"
      "p_expr_res P1 = \<lparr>expr_type = ex_type e, nilable = False\<rparr>" "reading toks (i + Suc (length ts)) (l # us @ r # rs) P1"
    by (rule expression_runs [OF r ph(1) dollar g(1) ready_expr [OF V] g(2,3)])
  have w1: "cg_wf (p_cg P1)" by (rule wrote_cg_wf [OF P1(2)])
  obtain G2 where G2: "generate (\<lambda>_. code_generator_for_loop_if n) P1 = Some (P1\<lparr>p_cg := G2\<rparr>)" "writes (take 3 (test_events n)) (p_cg P1) G2"
    by (rule generate_writes [OF prints_test(1) w1])
  let ?P2 = "P1\<lparr>p_cg := G2\<rparr>"
  obtain x xs where x: "us @ r # rs = x # xs" by (cases us) auto
  have r2: "reading toks (i + Suc (length ts)) (l # x # xs) ?P2" using P1(4) x by simp
  have r3: "reading toks (Suc (i + Suc (length ts))) (us @ r # rs) (advance ?P2)" using reading_advance(2) [OF r2] x by simp
  have f2: "stmt_frame P (advance ?P2)" "cond_uid ?P2 = cond_uid P" "loop_uid ?P2 = loop_uid P"
    using P1(2) by (simp_all add: wrote_def expr_frame_def stmt_frame_def)
  have w2: "cg_wf G2" using G2(2) by (simp add: writes_def)
  have V2: "ready_for V (advance ?P2)" by (rule ready_frame [OF V f2(1)]) (simp add: w2)
  have st: "p_stack (advance ?P2) = p_stack P" using f2(1) by (simp add: stmt_frame_def)
  let ?P3 = "(advance ?P2)\<lparr>p_stack := Some fresh_table # p_stack P, first_stmt := True\<rparr>"
  have op: "open_scope (advance ?P2) = Some ((advance ?P2)\<lparr>p_stack := Some fresh_table # p_stack P\<rparr>)"
    using open_scope_empty [of "advance ?P2"] V2 st by (simp add: ready_for_def)
  have V3: "ready_for V ?P3" using ready_upd(5) [OF ready_upd(7) [OF V2], of True] by (simp only: st)
  then have w3: "cg_wf (p_cg ?P3)" by (simp only: ready_for_def)
  obtain G3 where G3: "generate (\<lambda>_. code_generator_for_body n) ?P3 = Some (?P3\<lparr>p_cg := G3\<rparr>)" "writes (drop 3 (test_events n)) (p_cg ?P3) G3"
    by (rule generate_writes [OF prints_test(2) w3])
  have V4: "ready_for V (?P3\<lparr>p_cg := G3\<rparr>)" by (rule ready_upd(8) [OF V3]) (use G3(2) in \<open>simp add: writes_def\<close>)
  have w: "writes (code_events e @ test_events n) (p_cg P) G3"
    using P1(2) G2(2) G3(2) writes_trans [of "take 3 (test_events n)" "p_cg P1" G2 "drop 3 (test_events n)" G3]
      writes_trans [of "code_events e" "p_cg P" "p_cg P1"]
    by (simp only: wrote_def append_take_drop_id) (simp add: advance_frame)
  then have fo: "for_open G3 = for_open (p_cg P)" by (simp add: writes_def)
  have "leads toks (r # rs) (block_code b (cond_uid (?P3\<lparr>p_cg := G3\<rparr>), loop_uid (?P3\<lparr>p_cg := G3\<rparr>)))
      (?P3\<lparr>p_cg := G3, p_stack := p_stack P\<rparr>) (rule_block_body (?P3\<lparr>p_cg := G3\<rparr>))"
    by (rule block_okD [OF body _ t(2) V4]) (use r3 room fo in \<open>simp_all add: room_for_def\<close>)
  then obtain P' where P': "rule_block_body (?P3\<lparr>p_cg := G3\<rparr>) = Some (ERR_NO_ERR, P')"
      and L: "leads toks (r # rs) (block_code b (cond_uid P, loop_uid P)) (P\<lparr>p_cg := G3\<rparr>) (Some (ERR_NO_ERR, P'))"
    using f2 by (auto simp: leads_def stmt_frame_def)
  have "loop_inside n rule_block_body k P = k P'" for k
    using P1(1,3) ph(2) reading_curr [OF P1(4)] t(1) reading_advance(1) [OF r2] G2(1) op G3(1) P'
    by (simp add: loop_inside_def NEXT_RULE_def ASSERT_TOK_TYPE_def)
  moreover have "leads toks (r # rs) (code_events e @ test_events n @ fst (block_code b (cond_uid P, loop_uid P)),
       snd (block_code b (cond_uid P, loop_uid P))) P (Some (ERR_NO_ERR, P'))"
    using L writes_trans [OF w] by (auto simp: leads_def stmt_frame_def)
  ultimately show ?thesis using that by blast
qed

lemma while_statement_inside:
  "while_statement body = CHECK_NEWLINE (\<lambda>P. do {
     let n = loop_uid P;
     P \<leftarrow> generate (\<lambda>_. code_generator_for_label n) (P\<lparr>in_loop := in_loop P + 1, loop_uid := loop_uid P + 1\<rparr>);
     loop_inside n body (GET_TOKEN (\<lambda>P. do {
       P \<leftarrow> generate (\<lambda>_. code_generator_for_loop_end n) P;
       success (P\<lparr>in_loop := in_loop P - 1\<rparr>)
     })) P
   })"
  by (simp add: while_statement_def loop_inside_def Let_def)

lemma loop_ok:
  assumes t: "tok_type w = TOKEN_WHILE" "tok_type l = TOKEN_L_BKT" "tok_type r = TOKEN_R_BKT"
    and ph: "phrase (var_in V) 0 ts e" "ex_type e = T_bool" and body: "block_ok V True us b"
  shows "stmt_ok V (w # ts @ l # us @ [r]) (Loop e b)"
  unfolding stmt_ok_def
proof (intro allI impI, elim conjE)
  fix toks i x xs P
  assume "reading toks i ((w # ts @ l # us @ [r]) @ x # xs) P" and x: "ends_expression x" and V: "ready_for V P"
    and new: "first_stmt P \<or> preceding_eol (hd (w # ts @ l # us @ [r]))" and room: "room_for (stmt_depth (Loop e b)) P"
  then have r: "reading toks i (w # ts @ l # us @ r # x # xs) P" by simp
  let ?n = "loop_uid P" let ?P1 = "P\<lparr>in_loop := in_loop P + 1, loop_uid := loop_uid P + 1\<rparr>" and ?G = "p_cg P"
  have g: "cg_wf ?G" "unat (for_open ?G) + 1 < 2 ^ 32" using V room by (simp_all add: ready_for_def room_for_def)
  obtain G1 where G1: "code_generator_for_label ?n ?G = Some G1" "cg_wf G1" "for_open G1 = for_open ?G + 1" "for_open G1 > 0"
    "unat (for_open G1) = unat (for_open ?G) + 1" "cg_out G1 = cg_out ?G"
    "ds_abs (print_buffer G1) = ds_abs (print_buffer ?G) @ loop_start ?n"
    by (rule loop_opens [OF g])
  let ?P2 = "?P1\<lparr>p_cg := G1\<rparr>"
  let ?u = "(cond_uid P, loop_uid P + 1)" let ?es = "code_events e @ test_events ?n @ fst (block_code b ?u)"
  have V2: "ready_for V ?P2" using ready_upd(8) [OF ready_upd(3) [OF ready_upd(1) [OF V]] G1(2)] .
  obtain P3 where P3: "\<And>k. loop_inside ?n rule_block_body k ?P2 = k P3"
    "leads toks (r # x # xs) (code_events e @ test_events ?n @ fst (block_code b (cond_uid ?P2, loop_uid ?P2)),
       snd (block_code b (cond_uid ?P2, loop_uid ?P2))) ?P2 (Some (ERR_NO_ERR, P3))"
    by (rule loop_inside_leads [OF _ ph t(2,3) body V2]) (use r G1(5) room in \<open>auto simp: room_for_def\<close>)
  then obtain j where j: "reading toks j (r # x # xs) P3" "stmt_frame ?P2 P3" "writes ?es G1 (p_cg P3)"
      "(cond_uid P3, loop_uid P3) = snd (block_code b ?u)"
    by (auto elim: leadsE)
  obtain G' where G': "code_generator_for_loop_end ?n (p_cg P3) = Some G'"
    "writes [Direct (direct ?es), Buffered (loop_start ?n @ buffered ?es @ loop_stop ?n)] ?G G'"
    by (rule loop_closes [OF g, of "p_cg P3" "direct ?es" ?n "buffered ?es"]) (use G1 j(3) in \<open>auto simp: writes_def\<close>)
  have "rule_stmt rule_block_body P = Some (ERR_NO_ERR, (advance P3)\<lparr>p_cg := G', in_loop := in_loop (advance P3) - 1\<rparr>)"
    using t(1) new CHECK_NEWLINE_ok [of P] reading_curr [OF r] G1(1) P3(1) reading_advance(1) [OF j(1)] G'(1)
    by (simp add: rule_stmt_def while_statement_inside generate_def success_def ERR_NO_ERR_def EXIT_SUCCESS_def)
  then show "leads toks (x # xs) (stmt_code (Loop e b) (cond_uid P, loop_uid P)) P (rule_stmt rule_block_body P)"
    using reading_advance(2) [OF j(1)] j(2,4) G'(2)
    by (auto simp: leads_def stmt_frame_def loop_events_def split: prod.split)
qed

text \<open>The condition: the parser steps back from the first token of the expression.\<close>

lemma phrase_start:
  "phrase V n ts e \<Longrightarrow> (\<And>t v. V t v \<Longrightarrow> tok_type t = TOKEN_IDENTIFIER) \<Longrightarrow> tok_type (hd ts) \<noteq> TOKEN_LET"
proof (induction rule: phrase.induct)
  case (product ts e t us f)
  then show ?case using phrase_ne [OF product.hyps(1)] by simp
next
  case (quotient ts e t u w)
  then show ?case using phrase_ne [OF quotient.hyps(1)] by simp
next
  case (sum ts e t us f)
  then show ?case using phrase_ne [OF sum.hyps(1)] by simp
next
  case (comparison ts e t us f)
  then show ?case using phrase_ne [OF comparison.hyps(1)] by simp
next
  case (variable t v)
  then show ?case by fastforce
qed (auto simp: int_token_of_def)

lemma condition_leads:
  assumes r: "reading toks (Suc i) (ts @ l # us) P" and i: "tok_type (toks ! i) \<noteq> TOKEN_UNDEFINED"
    and ph: "phrase (var_in V) 0 ts e" "ex_type e = T_bool"
    and t: "tok_type l = TOKEN_L_BKT" and V: "ready_for V P"
  shows "leads toks (l # us) (code_events e, (cond_uid P, loop_uid P)) P (rule_cond_clause P)"
proof -
  have g: "globals V P" "expr_err P = EXIT_SUCCESS" "cg_wf (p_cg P)" using V by (simp_all add: ready_for_def)
  have c: "tok_type (curr_tok P) \<noteq> TOKEN_LET"
    using phrase_start [OF ph(1)] phrase_ne [OF ph(1)] r by (auto simp: reading_def var_in_def)
  obtain B where B: "step_back P = Some (P\<lparr>p_buffer := B\<rparr>)" "tb_repr B toks i" "i < length toks"
      "reload_token (P\<lparr>p_buffer := B\<rparr>) = Some (P\<lparr>p_buffer := B, curr_tok := toks ! i\<rparr>)"
    by (rule step_back_reading [OF r])
  let ?P = "P\<lparr>p_buffer := B, curr_tok := toks ! i\<rparr>"
  have d: "drop i toks = toks ! i # ts @ l # us" using r B(3) by (simp add: reading_def Cons_nth_drop_Suc [symmetric])
  have r': "reading toks i (toks ! i # ts @ l # us) ?P" using r B(2,3) i d by (auto simp: reading_def at_token_def)
  have g': "globals V ?P" using g(1) globals_same [of ?P P V] by simp
  have dollar: "ends_expression l" using t by (simp add: ends_expression_def convert_token_to_index_def)
  obtain P1 where P1: "expr ?P = Some (ERR_NO_ERR, P1)" "wrote (code_events e) ?P P1"
      "p_expr_res P1 = \<lparr>expr_type = ex_type e, nilable = False\<rparr>" "reading toks (i + Suc (length ts)) (l # us) P1"
    by (rule expression_runs [OF r' ph(1) dollar g']) (use V in \<open>simp_all add: ready_for_def lhs_apart_def\<close>)
  have "rule_cond_clause P = Some (ERR_NO_ERR, P1)"
    using c B(1,4) P1(1,3) ph(2)
    by (simp add: rule_cond_clause_def NEXT_RULE_def success_def ERR_NO_ERR_def EXIT_SUCCESS_def)
  then show ?thesis
    using P1(2,4) by (auto simp: leads_def wrote_def expr_frame_def stmt_frame_def)
qed

text \<open>The second branch, from the closing bracket of the first one.\<close>

lemma else_branch_leads:
  assumes r: "reading toks i (r # s # l # us @ r' # x # xs) P"
    and t: "tok_type s = TOKEN_ELSE" "tok_type l = TOKEN_L_BKT" "tok_type r' = TOKEN_R_BKT" and body: "block_ok V True us b"
    and V: "ready_for V P" and room: "room_for (block_depth b) P"
  shows "leads toks (x # xs)
      ([Buffered (nl (''JUMP $$IF_END_'' @ print_u n)), Buffered (ln (''LABEL $$ELSE_'' @ print_u n))] @
         fst (block_code b (cond_uid P, loop_uid P)) @ [Buffered (nl (''LABEL $$IF_END_'' @ print_u n))],
       snd (block_code b (cond_uid P, loop_uid P)))
      (P\<lparr>in_cond := in_cond P - 1\<rparr>) (else_branch rule_block_body n P)"
proof -
  let ?u = "(cond_uid P, loop_uid P)" and ?st = "Some fresh_table # p_stack P"
  have r1: "reading toks (Suc i) (s # l # us @ r' # x # xs) (advance P)" by (rule reading_advance(2) [OF r])
  let ?P1 = "(advance P)\<lparr>p_stack := ?st\<rparr>"
  have op: "open_scope (advance P) = Some ?P1" using open_scope_empty [of "advance P"] V by (simp add: ready_for_def)
  have V1: "ready_for V ?P1" using ready_upd(7) [OF ready_upd(6) [OF V]] by simp
  then have w1: "cg_wf (p_cg ?P1)" by (simp only: ready_for_def)
  obtain G where G: "generate (\<lambda>_. code_generator_if_else n) ?P1 = Some (?P1\<lparr>p_cg := G\<rparr>)"
      "writes [Buffered (nl (''JUMP $$IF_END_'' @ print_u n)), Buffered (ln (''LABEL $$ELSE_'' @ print_u n))] (p_cg ?P1) G"
    using generate_writes [where f = "\<lambda>_. code_generator_if_else n" and P = ?P1, OF _ w1] prints_if_else [of UNIV 0 n] by auto
  let ?P2 = "?P1\<lparr>p_cg := G\<rparr>"
  have w2: "cg_wf G" "for_open G = for_open (p_cg P)" using G(2) by (simp_all add: writes_def)
  have r2: "reading toks (Suc i) (s # l # us @ r' # x # xs) ?P2" using r1 by simp
  have r3: "reading toks (Suc (Suc i)) (l # us @ r' # x # xs) (advance ?P2)" by (rule reading_advance(2) [OF r2])
  obtain y ys where y: "us @ r' # x # xs = y # ys" by (cases us) auto
  have get: "GET_TOKEN k (advance ?P2) = k (advance (advance ?P2))" for k
    using reading_advance(1) [of toks _ l y ys] r3 y by simp
  let ?P4 = "(advance (advance ?P2))\<lparr>first_stmt := True\<rparr>"
  have r4: "reading toks (Suc (Suc (Suc i))) (us @ r' # x # xs) ?P4"
    using reading_advance(2) [of toks _ l y ys] r3 y by simp
  have V4: "ready_for V ?P4" by (rule ready_upd(5) [OF ready_upd(6) [OF ready_upd(6) [OF ready_upd(8) [OF V1 w2(1)]]]])
  have "leads toks (r' # x # xs) (block_code b (cond_uid ?P4, loop_uid ?P4)) (?P4\<lparr>p_stack := p_stack P\<rparr>) (rule_block_body ?P4)"
    by (rule block_okD [OF body r4 t(3) V4]) (use room w2 in \<open>simp_all add: room_for_def\<close>)
  then obtain P5 j where P5: "rule_block_body ?P4 = Some (ERR_NO_ERR, P5)" "reading toks j (r' # x # xs) P5" "stmt_frame P P5"
      "writes (fst (block_code b ?u)) G (p_cg P5)" "(cond_uid P5, loop_uid P5) = snd (block_code b ?u)"
    by (auto simp: stmt_frame_def elim!: leadsE)
  have w5: "cg_wf (p_cg (advance P5))" using P5(4) by (simp add: writes_def)
  obtain G' where G': "generate (\<lambda>_. code_generator_if_end n) (advance P5) = Some ((advance P5)\<lparr>p_cg := G'\<rparr>)"
      "writes [Buffered (nl (''LABEL $$IF_END_'' @ print_u n))] (p_cg (advance P5)) G'"
    by (rule generate_writes [OF prints_if_end w5])
  have "else_branch rule_block_body n P = Some (ERR_NO_ERR, (advance P5)\<lparr>p_cg := G', in_cond := in_cond (advance P5) - 1\<rparr>)"
    using t reading_curr [OF r1] reading_curr [OF r3] reading_advance(1) [OF r] reading_advance(1) [OF r2] get op G(1) P5(1)
      reading_advance(1) [OF P5(2)] G'(1)
    by (simp add: else_branch_def NEXT_RULE_def ASSERT_TOK_TYPE_def success_def ERR_NO_ERR_def EXIT_SUCCESS_def)
  moreover have "writes ([Buffered (nl (''JUMP $$IF_END_'' @ print_u n)), Buffered (ln (''LABEL $$ELSE_'' @ print_u n))] @
         fst (block_code b ?u) @ [Buffered (nl (''LABEL $$IF_END_'' @ print_u n))]) (p_cg P) G'"
    using writes_trans [OF writes_trans [OF G(2) P5(4)], of _ G'] G'(2) by simp
  ultimately show ?thesis using reading_advance(2) [OF P5(2)] P5(3,5) by (auto simp: leads_def stmt_frame_def)
qed

text \<open>The first branch, from the bracket that opens it: the scope of the branch is closed again.\<close>

lemma branch_leads:
  assumes r: "reading toks i (l # us @ r # rs) P" and t: "tok_type r = TOKEN_R_BKT" and body: "block_ok V True us b"
    and V: "ready_for V P" and room: "room_for (block_depth b) P"
  obtains P1 where "\<And>k. GET_TOKEN k P = k (advance P)" "open_scope ((advance P)\<lparr>first_stmt := True\<rparr>) = Some P1"
    "leads toks (r # rs) (block_code b (cond_uid P, loop_uid P)) P (rule_block_body P1)"
proof -
  let ?P1 = "(advance P)\<lparr>first_stmt := True\<rparr>"
  obtain y ys where y: "us @ r # rs = y # ys" by (cases us) auto
  have r1: "GET_TOKEN k P = k (advance P)" "reading toks (Suc i) (us @ r # rs) ?P1" for k
    using reading_advance [of toks i l y ys] r y by simp_all
  have V1: "ready_for V ?P1" by (rule ready_upd(5) [OF ready_upd(6) [OF V]])
  then have op: "open_scope ?P1 = Some (?P1\<lparr>p_stack := Some fresh_table # p_stack ?P1\<rparr>)"
    by (intro open_scope_empty) (simp add: ready_for_def)
  let ?P2 = "?P1\<lparr>p_stack := Some fresh_table # p_stack ?P1\<rparr>"
  have "leads toks (r # rs) (block_code b (cond_uid ?P2, loop_uid ?P2)) (?P2\<lparr>p_stack := p_stack P\<rparr>) (rule_block_body ?P2)"
    by (rule block_okD [OF body _ t ready_upd(7) [OF V1]]) (use r1(2) room in \<open>simp_all add: room_for_def\<close>)
  then have "leads toks (r # rs) (block_code b (cond_uid P, loop_uid P)) P (rule_block_body ?P2)"
    by (simp add: leads_def stmt_frame_def)
  with r1(1) op that show ?thesis by blast
qed

definition then_branch :: "rule \<Rightarrow> 32 word \<Rightarrow> rule" where
  "then_branch body n = ASSERT_TOK_TYPE TOKEN_L_BKT (GET_TOKEN (\<lambda>P. do {
     P \<leftarrow> open_scope (P\<lparr>first_stmt := True\<rparr>);
     NEXT_RULE body (\<lambda>P. do { P \<leftarrow> close_scope P; else_branch body n P }) P
   }))"

lemma if_statement_inside:
  "if_statement body = CHECK_NEWLINE (\<lambda>P. GET_TOKEN (\<lambda>P. do {
     P \<leftarrow> open_scope P;
     NEXT_RULE rule_cond_clause (\<lambda>P. do {
       let n = cond_uid P;
       P \<leftarrow> generate (\<lambda>_. code_generator_if_header n) (P\<lparr>cond_uid := cond_uid P + 1\<rparr>);
       then_branch body n P
     }) P
   }) (P\<lparr>in_cond := in_cond P + 1\<rparr>))"
  by (simp add: if_statement_def then_branch_def Let_def)

lemma global_int_close: "global_int P name v \<Longrightarrow> p_stack P = T # st \<Longrightarrow> global_int (P\<lparr>p_stack := st\<rparr>) name v"
  by (auto simp: global_int_def)

lemma ready_close: "ready_for V P \<Longrightarrow> p_stack P = T # st \<Longrightarrow> ready_for V (P\<lparr>p_stack := st\<rparr>)"
  by (auto simp: ready_for_def globals_def intro: global_int_close)

lemma then_branch_leads:
  assumes r: "reading toks i (l # us @ r # s # l' # us' @ r' # x # xs) P"
    and t: "tok_type l = TOKEN_L_BKT" "tok_type r = TOKEN_R_BKT" "tok_type s = TOKEN_ELSE"
      "tok_type l' = TOKEN_L_BKT" "tok_type r' = TOKEN_R_BKT"
    and body: "block_ok V True us b" "block_ok V True us' b'" and V: "ready_for V P" and st: "p_stack P = Some fresh_table # st"
    and room: "room_for (block_depth b) P" "room_for (block_depth b') P"
    and code: "block_code b (cond_uid P, loop_uid P) = (es, u)" "block_code b' u = (es', u')"
  shows "leads toks (x # xs)
      (es @ [Buffered (nl (''JUMP $$IF_END_'' @ print_u n)), Buffered (ln (''LABEL $$ELSE_'' @ print_u n))] @
         es' @ [Buffered (nl (''LABEL $$IF_END_'' @ print_u n))], u')
      (P\<lparr>p_stack := st, in_cond := in_cond P - 1\<rparr>) (then_branch rule_block_body n P)"
proof -
  obtain P1 where P1: "\<And>k. GET_TOKEN k P = k (advance P)" "open_scope ((advance P)\<lparr>first_stmt := True\<rparr>) = Some P1"
    "leads toks (r # s # l' # us' @ r' # x # xs) (block_code b (cond_uid P, loop_uid P)) P (rule_block_body P1)"
    using branch_leads [OF r t(2) body(1) V room(1)] by blast
  then obtain P2 j where P2: "rule_block_body P1 = Some (ERR_NO_ERR, P2)" "reading toks j (r # s # l' # us' @ r' # x # xs) P2"
      "stmt_frame P P2" "writes es (p_cg P) (p_cg P2)" "(cond_uid P2, loop_uid P2) = u"
    using code(1) by (auto elim: leadsE)
  have w: "cg_wf (p_cg P2)" "for_open (p_cg P2) = for_open (p_cg P)" using P2(4) by (simp_all add: writes_def)
  have st2: "p_stack P2 = Some fresh_table # st" using P2(3) st by (simp add: stmt_frame_def)
  let ?P3 = "P2\<lparr>p_stack := st\<rparr>"
  have V3: "ready_for V ?P3" by (rule ready_close [OF ready_frame [OF V P2(3) w(1)] st2])
  have "leads toks (x # xs)
      ([Buffered (nl (''JUMP $$IF_END_'' @ print_u n)), Buffered (ln (''LABEL $$ELSE_'' @ print_u n))] @
         es' @ [Buffered (nl (''LABEL $$IF_END_'' @ print_u n))], u')
      (?P3\<lparr>in_cond := in_cond ?P3 - 1\<rparr>) (else_branch rule_block_body n ?P3)"
    using else_branch_leads [OF _ t(3,4,5) body(2) V3, of toks j r x xs n] P2(2,5) room(2) w(2) code(2)
    by (simp add: room_for_def)
  moreover have "then_branch rule_block_body n P = else_branch rule_block_body n ?P3"
    using t(1) reading_curr [OF r] P1(1,2) P2(1) close_scope_empty [OF st2]
    by (simp add: then_branch_def ASSERT_TOK_TYPE_def NEXT_RULE_def)
  ultimately show ?thesis using P2(3) writes_trans [OF P2(4)] by (fastforce simp: leads_def stmt_frame_def)
qed

lemma cond_ok:
  assumes t: "tok_type w = TOKEN_IF" "tok_type l = TOKEN_L_BKT" "tok_type r = TOKEN_R_BKT" "tok_type s = TOKEN_ELSE"
      "tok_type l' = TOKEN_L_BKT" "tok_type r' = TOKEN_R_BKT"
    and ph: "phrase (var_in V) 0 ts e" "ex_type e = T_bool" and body: "block_ok V True us b" "block_ok V True us' b'"
  shows "stmt_ok V (w # ts @ l # us @ r # s # l' # us' @ [r']) (Cond e b b')"
  unfolding stmt_ok_def
proof (intro allI impI, elim conjE)
  fix toks i x xs P
  let ?ts = "w # ts @ l # us @ r # s # l' # us' @ [r']" and ?rest = "us @ r # s # l' # us' @ r' # x # xs"
  assume "reading toks i (?ts @ x # xs) P" and x: "ends_expression x" and V: "ready_for V P"
    and new: "first_stmt P \<or> preceding_eol (hd ?ts)" and room: "room_for (stmt_depth (Cond e b b')) P"
  then have r: "reading toks i (w # ts @ l # ?rest) P" by simp
  let ?P0 = "P\<lparr>in_cond := in_cond P + 1\<rparr>" and ?n = "cond_uid P"
  obtain y ys where y: "ts @ l # ?rest = y # ys" by (cases ts) auto
  have r0: "GET_TOKEN k ?P0 = k (advance ?P0)" "reading toks (Suc i) (ts @ l # ?rest) (advance ?P0)" for k
    using reading_advance [of toks i w y ys ?P0] r y by simp_all
  have V0: "ready_for V (advance ?P0)" by (rule ready_upd(6) [OF ready_upd(2) [OF V]])
  let ?P1 = "(advance ?P0)\<lparr>p_stack := Some fresh_table # p_stack (advance ?P0)\<rparr>"
  have op: "open_scope (advance ?P0) = Some ?P1" by (rule open_scope_empty) (use V0 in \<open>simp add: ready_for_def\<close>)
  have V1: "ready_for V ?P1" by (rule ready_upd(7) [OF V0])
  have w: "tok_type (toks ! i) \<noteq> TOKEN_UNDEFINED" using r reading_nth [OF r, of 0] by (simp add: t(1))
  have r1: "reading toks (Suc i) (ts @ l # ?rest) ?P1" using r0(2) by simp
  obtain P2 j where P2: "rule_cond_clause ?P1 = Some (ERR_NO_ERR, P2)" "reading toks j (l # ?rest) P2" "stmt_frame ?P1 P2"
      "writes (code_events e) (p_cg ?P1) (p_cg P2)" "(cond_uid P2, loop_uid P2) = (cond_uid ?P1, loop_uid ?P1)"
    by (rule leadsE [OF condition_leads [OF r1 w ph t(2) V1]]) simp
  have w2: "cg_wf (p_cg P2)" using P2(4) by (simp add: writes_def)
  have V2: "ready_for V (P2\<lparr>cond_uid := cond_uid P2 + 1\<rparr>)" by (rule ready_upd(4) [OF ready_frame [OF V1 P2(3) w2]])
  have "prints UNIV 0 (code_generator_if_header ?n) [Buffered (nl ''PUSHS bool@true''), Buffered (ln (''JUMPIFNEQS $$ELSE_'' @ print_u ?n))]"
    using prints_if_header [of UNIV 0 ?n] by simp
  from generate_writes [OF this, of "P2\<lparr>cond_uid := cond_uid P2 + 1\<rparr>"] obtain G where
    G: "generate (\<lambda>_. code_generator_if_header ?n) (P2\<lparr>cond_uid := cond_uid P2 + 1\<rparr>) = Some (P2\<lparr>cond_uid := cond_uid P2 + 1, p_cg := G\<rparr>)"
      "writes [Buffered (nl ''PUSHS bool@true''), Buffered (ln (''JUMPIFNEQS $$ELSE_'' @ print_u ?n))] (p_cg P2) G"
    using w2 by auto
  let ?P3 = "P2\<lparr>cond_uid := cond_uid P2 + 1, p_cg := G\<rparr>"
  obtain es u es' u' where code: "block_code b (cond_uid P + 1, loop_uid P) = (es, u)" "block_code b' u = (es', u')"
    by (metis surj_pair)
  have w3: "cg_wf G" "for_open G = for_open (p_cg P)" using P2(4) G(2) by (simp_all add: writes_def)
  have V3: "ready_for V ?P3" by (rule ready_upd(8) [OF V2 w3(1)])
  have L: "leads toks (x # xs)
      (es @ [Buffered (nl (''JUMP $$IF_END_'' @ print_u ?n)), Buffered (ln (''LABEL $$ELSE_'' @ print_u ?n))] @
         es' @ [Buffered (nl (''LABEL $$IF_END_'' @ print_u ?n))], u')
      (?P3\<lparr>p_stack := p_stack P, in_cond := in_cond ?P3 - 1\<rparr>) (then_branch rule_block_body ?n ?P3)"
    by (rule then_branch_leads [OF _ t(2-6) body V3])
      (use P2(2,3,5) room w3 code in \<open>auto simp: room_for_def stmt_frame_def\<close>)
  have "rule_stmt rule_block_body P = then_branch rule_block_body ?n ?P3"
    using t(1) new CHECK_NEWLINE_ok [of P] reading_curr [OF r] r0(1) op P2(1,5) G(1)
    by (simp add: rule_stmt_def if_statement_inside NEXT_RULE_def Let_def)
  with L show "leads toks (x # xs) (stmt_code (Cond e b b') (cond_uid P, loop_uid P)) P (rule_stmt rule_block_body P)"
    using P2(3) writes_trans [OF writes_trans [OF P2(4) G(2)]] code
    by (fastforce simp: leads_def stmt_frame_def cond_events_def)
qed

section \<open>Blocks\<close>

lemma assign_ok:
  assumes "var_in V x v" "tok_type q = TOKEN_ASS" "phrase (var_in V) 0 ts e" "ex_type e = T_integer"
  shows "stmt_ok V (x # q # ts) (Assign v e)"
  unfolding stmt_ok_def
proof (intro allI impI, elim conjE)
  fix toks i b us P
  assume r: "reading toks i ((x # q # ts) @ b # us) P" "ends_expression b" "ready_for V P"
    and new: "first_stmt P \<or> preceding_eol (hd (x # q # ts))"
  have "rule_stmt rule_block_body P = identifier_statement P"
    using reading_curr [of toks i x _ P] r(1) assms(1) by (simp add: rule_stmt_def var_in_def)
  then show "leads toks (b # us) (stmt_code (Assign v e) (cond_uid P, loop_uid P)) P (rule_stmt rule_block_body P)"
    using identifier_statement_leads [OF _ assms r(2,3)] r(1) new by simp
qed

lemma finish_ok: "block_ok V first [] Done"
  unfolding block_ok_def
proof (intro allI impI, elim conjE)
  fix toks i r ts P st
  assume r: "reading toks i ([] @ r # ts) P" "tok_type r = TOKEN_R_BKT" "ready_for V P" "p_stack P = Some fresh_table # st"
  have "rule_block_body P = Some (ERR_NO_ERR, P\<lparr>p_stack := st\<rparr>)"
    using r reading_curr [of toks i r ts P] close_scope_empty [OF r(4)]
    by (simp add: rule_block_body.simps [of P] success_def ERR_NO_ERR_def EXIT_SUCCESS_def)
  then show "leads toks (r # ts) (block_code Done (cond_uid P, loop_uid P)) (P\<lparr>p_stack := st\<rparr>) (rule_block_body P)"
    using r by (auto simp: leads_def stmt_frame_def ready_for_def intro: writes_refl)
qed

text \<open>A statement in front of others, in a block or a program.\<close>

lemma first_of_block:
  assumes ok: "stmt_ok V ts s" and s: "stmt_phrase V ts s" and r: "reading toks i (ts @ us @ r # rs) P"
    and rest: "block_phrase V False us b" "ends_expression r" and V: "ready_for V P"
    and new: "first_stmt P \<or> preceding_eol (hd ts)" and room: "room_for (block_depth (Then s b)) P"
  obtains P1 j where "\<And>k. NEXT_RULE (rule_stmt rule_block_body) k P = k P1"
    "reading toks j (us @ r # rs) (P1\<lparr>first_stmt := False\<rparr>)" "stmt_frame P P1" "ready_for V (P1\<lparr>first_stmt := False\<rparr>)"
    "room_for (block_depth b) (P1\<lparr>first_stmt := False\<rparr>)"
    "writes (fst (stmt_code s (cond_uid P, loop_uid P))) (p_cg P) (p_cg P1)"
    "(cond_uid P1, loop_uid P1) = snd (stmt_code s (cond_uid P, loop_uid P))"
    "curr_tok P = hd ts" "ts \<noteq> []" "tok_type (hd ts) \<in> {TOKEN_WHILE, TOKEN_IF, TOKEN_IDENTIFIER}"
proof -
  obtain x xs where x: "us @ r # rs = x # xs" by (cases us) auto
  have "ends_expression x" using block_phrase_ends [OF rest, of rs] x by simp
  with ok r x have "leads toks (x # xs) (stmt_code s (cond_uid P, loop_uid P)) P (rule_stmt rule_block_body P)"
    using V new room by (intro stmt_okD [of V ts s]) (auto simp: room_for_def)
  then obtain P1 j where P1: "rule_stmt rule_block_body P = Some (ERR_NO_ERR, P1)" "reading toks j (x # xs) P1" "stmt_frame P P1"
      "writes (fst (stmt_code s (cond_uid P, loop_uid P))) (p_cg P) (p_cg P1)"
      "(cond_uid P1, loop_uid P1) = snd (stmt_code s (cond_uid P, loop_uid P))"
    by (rule leadsE)
  have w: "cg_wf (p_cg P1)" "for_open (p_cg P1) = for_open (p_cg P)" using P1(4) by (simp_all add: writes_def)
  have h: "ts \<noteq> []" "tok_type (hd ts) \<in> {TOKEN_WHILE, TOKEN_IF, TOKEN_IDENTIFIER}" using stmt_phrase_first [OF s] by auto
  have c: "curr_tok P = hd ts" using r h(1) by (cases ts) (auto simp: reading_def)
  show ?thesis
    by (rule that [of P1 j])
      (use P1 x h c room w ready_upd(5) [OF ready_frame [OF V P1(3) w(1)]] in \<open>auto simp: NEXT_RULE_def room_for_def\<close>)
qed

lemma step_ok:
  assumes "stmt_ok V ts s" "stmt_phrase V ts s" "first \<or> preceding_eol (hd ts)" "block_phrase V False us b" "block_ok V False us b"
  shows "block_ok V first (ts @ us) (Then s b)"
  unfolding block_ok_def
proof (intro allI impI, elim conjE)
  fix toks i r rs P st
  assume r: "reading toks i ((ts @ us) @ r # rs) P" "tok_type r = TOKEN_R_BKT" "ready_for V P" "p_stack P = Some fresh_table # st"
    and room: "room_for (block_depth (Then s b)) P" and new: "first \<longrightarrow> first_stmt P"
  then have e: "ends_expression r" and r': "reading toks i (ts @ us @ r # rs) P" and new': "first_stmt P \<or> preceding_eol (hd ts)"
    using assms(3) by (auto simp: ends_expression_def convert_token_to_index_def)
  obtain P1 j where P1: "\<And>k. NEXT_RULE (rule_stmt rule_block_body) k P = k P1"
    "reading toks j (us @ r # rs) (P1\<lparr>first_stmt := False\<rparr>)" "stmt_frame P P1" "ready_for V (P1\<lparr>first_stmt := False\<rparr>)"
    "room_for (block_depth b) (P1\<lparr>first_stmt := False\<rparr>)"
    "writes (fst (stmt_code s (cond_uid P, loop_uid P))) (p_cg P) (p_cg P1)"
    "(cond_uid P1, loop_uid P1) = snd (stmt_code s (cond_uid P, loop_uid P))"
    "curr_tok P = hd ts" "ts \<noteq> []" "tok_type (hd ts) \<in> {TOKEN_WHILE, TOKEN_IF, TOKEN_IDENTIFIER}"
    using first_of_block [OF assms(1,2) r' assms(4) e r(3) new' room] by blast
  have "leads toks (r # rs) (block_code b (cond_uid P1, loop_uid P1)) (P1\<lparr>first_stmt := False, p_stack := st\<rparr>)
      (rule_block_body (P1\<lparr>first_stmt := False\<rparr>))"
    using block_okD [OF assms(5) P1(2) r(2) P1(4) _ _ P1(5), of st] P1(3) r(4) by (simp add: stmt_frame_def)
  moreover have "rule_block_body P = NEXT_RULE rule_block_body success (P1\<lparr>first_stmt := False\<rparr>)"
    using P1(1,8,10) by (auto simp: rule_block_body.simps [of P])
  ultimately show "leads toks (r # rs) (block_code (Then s b) (cond_uid P, loop_uid P)) (P\<lparr>p_stack := st\<rparr>) (rule_block_body P)"
    using P1(3,7) writes_trans [OF P1(6)]
    by (fastforce simp: leads_def stmt_frame_def NEXT_RULE_def success_def ERR_NO_ERR_def EXIT_SUCCESS_def split: prod.split)
qed

lemma statements_ok:
  "stmt_phrase V ts s \<Longrightarrow> stmt_ok V ts s" "block_phrase V first us b \<Longrightarrow> block_ok V first us b"
  by (induction rule: stmt_phrase_block_phrase.inducts)
    (auto intro: assign_ok loop_ok cond_ok finish_ok step_ok)

end
