(* ===== verification/Program_Code.thy ===== *)
theory Program_Code
  imports Block_Code
begin

text \<open>
  The code of whole programs without functions: declarations of integer variables and the
  statements of \<open>Block_Code\<close>. A declaration puts its name into the global table; the second
  pass over a program ends without error and prints the code of the program.
\<close>

section \<open>Declarations\<close>

text \<open>The item of a declared variable, and what the declaration prints.\<close>

definition typed_int :: "symtab_item \<Rightarrow> symtab_item" where
  "typed_int = (\<lambda>it. it\<lparr>it_type := T_integer, it_is_nillable := False, it_is_var_initialized := True\<rparr>)"

definition declare_events :: "string \<Rightarrow> event list" where
  "declare_events v = [Direct (nl (''DEFVAR '' @ v)), Buffered (''POPS '' @ v @ [NL])]"

lemma prints_declare:
  assumes "env_global E = Some T" "env_scopes E = Some []" "symtable_search (Some T) name (env_heap E) = Some (Some a, SYMTAB_OK)"
    "sh_items (env_heap E) a = Some it" "plain name"
  shows "prints UNIV 0 (code_generator_var_declare E name) (declare_events (var_text gf_name name (it_uid it)))"
proof -
  let ?v = "var_text gf_name name (it_uid it)"
  have ref: "code_generator_get_var_frame E name False G = Some (gf_name, G)" "code_generator_get_var_uid E name False G = Some (it_uid it, G)"
    "var_ref E name False G = Some (?v, G)" if "cg_wf G" for G
    using var_ref_global [of G E T "[]" name a it False] that assms by (simp_all add: cg_wf_def)
  have "prints UNIV 0 (\<lambda>G. Some (code_generator_defvar gf_name name (it_uid it) G)) [Direct (nl (''DEFVAR '' @ ?v))]"
    by (rule prints_defvar)
  then have "prints UNIV 0 (declare_var E name) [Direct (nl (''DEFVAR '' @ ?v))]"
    using ref(1,2) by (simp add: prints_def declare_var_def)
  moreover have "prints UNIV 0 (BUFFER_PRINT_var ''POPS '' E name False [NL]) [Buffered (''POPS '' @ ?v @ [NL])]"
    by (rule prints_BUFFER_PRINT_var) (use ref(3) assms(5) in \<open>auto simp: plain_var_text plain_frames\<close>)
  ultimately show ?thesis
    using prints_run [of UNIV 0 "[declare_var E name, BUFFER_PRINT_var ''POPS '' E name False [NL]]"
      "[[Direct (nl (''DEFVAR '' @ ?v))], [Buffered (''POPS '' @ ?v @ [NL])]]"]
    by (simp add: code_generator_var_declare_def declare_events_def)
qed

lemma change_item_upd:
  "ptr = Some a \<Longrightarrow> sh_items (p_heap P) a = Some it \<Longrightarrow> change_item ptr f P = Some (P\<lparr>p_heap := upd_item a f (p_heap P)\<rparr>)"
  by (simp add: change_item_def set_item_upd)

text \<open>The value of a declaration without a type gives the variable its type and its value.\<close>

lemma declaration_value:
  assumes r: "reading toks i (q # ts @ b # us) P" and ph: "phrase (var_in V) 0 ts e" "ex_type e = T_integer"
    and b: "ends_expression b" and g: "globals V P" "expr_err P = EXIT_SUCCESS" "cg_wf (p_cg P)" "p_stack P = []"
    and lhs: "lhs_id P = Some a" "sh_items (p_heap P) a = Some it" "it_type it = T_undefined" "V (it_name it) = None"
      "plain (it_name it)" and inv: "table_inv (p_heap P) (global_symtab P)" "entry (p_heap P) (st_items (global_symtab P)) (it_name it) a"
  obtains P' j where "right_side untyped_call untyped_expression P = Some (ERR_NO_ERR, P')" "reading toks j (b # us) P'"
    "stmt_frame (P\<lparr>p_heap := upd_item a typed_int (p_heap P)\<rparr>) P'"
    "writes (code_events e @ declare_events (var_text gf_name (it_name it) (it_uid it))) (p_cg P) (p_cg P')"
    "cond_uid P' = cond_uid P" "loop_uid P' = loop_uid P"
proof -
  from right_side_value [OF r ph(1) b g(1)] obtain B rhs where
    rs: "right_side untyped_call untyped_expression P = untyped_expression (P\<lparr>p_buffer := B, curr_tok := q, rhs_id := rhs\<rparr>)"
    and r1: "reading toks i (q # ts @ b # us) (P\<lparr>p_buffer := B, curr_tok := q, rhs_id := rhs\<rparr>)" .
  let ?P1 = "P\<lparr>p_buffer := B, curr_tok := q, rhs_id := rhs\<rparr>"
  have g1: "globals V ?P1" using g(1) globals_same [of ?P1 P V] by simp
  have l1: "lhs_apart V ?P1" using lhs by (simp add: lhs_apart_def)
  obtain P2 where P2: "expr ?P1 = Some (ERR_NO_ERR, P2)" "wrote (code_events e) ?P1 P2"
      "p_expr_res P2 = \<lparr>expr_type = ex_type e, nilable = False\<rparr>" "reading toks (i + Suc (length ts)) (b # us) P2"
    by (rule expression_runs [OF r1 ph(1) b g1 l1]) (use g in simp_all)
  have f2: "stmt_frame P P2" "cond_uid P2 = cond_uid P" "loop_uid P2 = loop_uid P"
    using P2(2) by (simp_all add: wrote_def expr_frame_def stmt_frame_def)
  have i2: "lhs_id P2 = Some a" "sh_items (p_heap P2) a = Some it" using f2(1) lhs by (simp_all add: stmt_frame_def)
  let ?H = "upd_item a typed_int (p_heap P2)"
  let ?P3 = "P2\<lparr>p_heap := ?H\<rparr>"
  let ?f = "\<lambda>it. it\<lparr>it_type := T_integer, it_is_nillable := False\<rparr>"
  have ch: "change_item (Some a) ?f P2 = Some (P2\<lparr>p_heap := upd_item a ?f (p_heap P2)\<rparr>)"
    "set_initialized (P2\<lparr>p_heap := upd_item a ?f (p_heap P2)\<rparr>) = Some ?P3"
    using i2 by (simp_all add: set_initialized_def change_item_upd [of _ a _ it] change_item_upd [of _ a] upd_item_item
        upd_item_twice typed_int_def)
  have k: "keeps_identity typed_int" by (simp add: keeps_identity_def typed_int_def)
  have inv2: "table_inv (p_heap P2) (global_symtab P2)" "entry (p_heap P2) (st_items (global_symtab P2)) (it_name it) a"
    using inv f2(1) by (simp_all add: stmt_frame_def)
  have find: "symtable_search (Some (global_symtab P2)) (it_name it) ?H = Some (Some a, SYMTAB_OK)"
    using inv2 by (simp add: search_entry table_inv_upd [OF _ i2(2) k] entry_upd [OF i2(2) k])
  have it3: "sh_items ?H a = Some (typed_int it)" "it_name (typed_int it) = it_name it" "it_uid (typed_int it) = it_uid it"
    using i2(2) by (simp_all add: upd_item_item typed_int_def)
  have "p_stack P2 = []" using f2(1) g(4) by (simp add: stmt_frame_def)
  then have pr: "prints UNIV 0 (code_generator_var_declare (env_of ?P3) (it_name it))
      (declare_events (var_text gf_name (it_name it) (it_uid it)))"
    using prints_declare [of "env_of ?P3" "global_symtab P2" "it_name it" a "typed_int it"] find it3 lhs(5) by simp
  have w: "cg_wf (p_cg ?P3)" using wrote_cg_wf [OF P2(2)] by simp
  obtain G where G: "generate (\<lambda>env. code_generator_var_declare env (it_name it)) ?P3 = Some (?P3\<lparr>p_cg := G\<rparr>)"
      "writes (declare_events (var_text gf_name (it_name it) (it_uid it))) (p_cg ?P3) G"
    by (rule generate_writes [where f = "\<lambda>env. code_generator_var_declare env (it_name it)", OF pr w])
  have "untyped_expression ?P1 = Some (ERR_NO_ERR, ?P3\<lparr>p_cg := G\<rparr>)"
    using P2(1,3) ph(2) ch i2 it3 G(1)
    by (simp add: untyped_expression_def NEXT_RULE_def initialize_and_declare_def name_at_def item_at_def success_def
        ERR_NO_ERR_def EXIT_SUCCESS_def)
  then show ?thesis
    using that [of "?P3\<lparr>p_cg := G\<rparr>"] rs P2(2,4) f2 writes_trans [OF _ G(2)] by (simp add: wrote_def stmt_frame_def)
qed

text \<open>The state between the statements of a program, outside functions and blocks.\<close>

definition outermost :: "(string \<Rightarrow> string option) \<Rightarrow> parser \<Rightarrow> bool" where
  "outermost V P \<longleftrightarrow> ready_for V P \<and> p_stack P = [] \<and> in_cond P = 0 \<and> in_loop P = 0 \<and> \<not> in_func_body P \<and>
     table_inv (p_heap P) (global_symtab P) \<and> for_open (p_cg P) = 0"

lemma outermost_next: "outermost V P \<Longrightarrow> outermost V (P\<lparr>first_stmt := b\<rparr>)"
  using ready_upd(5) by (simp add: outermost_def)

text \<open>The name that a declaration puts into the global table.\<close>

definition int_item :: "string \<Rightarrow> 32 word \<Rightarrow> symtab_item" where
  "int_item name uid = (typed_int (new_item name uid))\<lparr>it_is_mutable := True\<rparr>"

definition declared :: "string \<Rightarrow> symheap \<Rightarrow> symheap" where
  "declared name H = upd_item (sh_fresh H) (\<lambda>it. (typed_int it)\<lparr>it_is_mutable := True\<rparr>) (after_insert name H)"

lemma declared_facts:
  assumes inv: "table_inv (after_insert name H) T"
  shows "sh_items (declared name H) = (sh_items H)(sh_fresh H \<mapsto> int_item name (sh_unique_id H))"
    "table_inv (declared name H) T" "entry (declared name H) items = entry (after_insert name H) items"
    "names (declared name H) items = names (after_insert name H) items"
    "sh_unique_id (declared name H) = sh_unique_id H + 1" "sh_fresh (declared name H) = sh_fresh H + 1"
proof -
  have i: "sh_items (after_insert name H) (sh_fresh H) = Some (new_item name (sh_unique_id H))"
    and k: "keeps_identity (\<lambda>it. (typed_int it)\<lparr>it_is_mutable := True\<rparr>)"
    by (simp_all add: keeps_identity_def typed_int_def)
  show "table_inv (declared name H) T" unfolding declared_def by (rule table_inv_upd [OF inv i k])
  show "entry (declared name H) items = entry (after_insert name H) items"
    unfolding declared_def by (intro ext) (rule entry_upd [OF i k])
  show "names (declared name H) items = names (after_insert name H) items"
    unfolding declared_def by (rule names_upd [OF i k])
  show "sh_items (declared name H) = (sh_items H)(sh_fresh H \<mapsto> int_item name (sh_unique_id H))"
    "sh_unique_id (declared name H) = sh_unique_id H + 1" "sh_fresh (declared name H) = sh_fresh H + 1"
    by (simp_all add: declared_def upd_item_def int_item_def)
qed

definition labelled :: "symheap \<Rightarrow> bool" where
  "labelled H \<longleftrightarrow> (\<forall>a it. sh_items H a = Some it \<longrightarrow> (\<forall>p\<in>set (it_parameters it). p_label p \<noteq> None))"

lemma labelled_declared:
  "table_inv (after_insert name H) T \<Longrightarrow> labelled H \<Longrightarrow> labelled (declared name H)"
  using declared_facts(1) by (auto simp: labelled_def int_item_def typed_int_def new_item_def)

text \<open>Variables stay when the table and the heap grow, and the declared name joins them.\<close>

lemma globals_grow:
  assumes g: "globals V P" and st: "p_stack P' = []"
    and inv: "table_inv (p_heap P) (global_symtab P)" "table_inv (p_heap P') (global_symtab P')"
    and ent: "\<And>k a. entry (p_heap P) (st_items (global_symtab P)) k a \<Longrightarrow> entry (p_heap P') (st_items (global_symtab P')) k a"
    and items: "\<And>a it. sh_items (p_heap P) a = Some it \<Longrightarrow> sh_items (p_heap P') a = Some it"
  shows "globals V P'"
  unfolding globals_def
proof (intro allI impI)
  fix k v
  assume "V k = Some v"
  then have "global_int P k v" using g by (simp add: globals_def)
  then obtain a it where a: "entry (p_heap P) (st_items (global_symtab P)) k a" "sh_items (p_heap P) a = Some it"
      "it_name it = k" "it_is_var_initialized it" "it_is_mutable it"
      "it_type it = T_integer" "\<not> it_is_nillable it" "v = var_text gf_name k (it_uid it)" "plain k" "k \<noteq> ''_''"
    using inv(1) by (auto simp: global_int_def search_entry)
  with ent [OF a(1)] items [OF a(2)] st inv(2) show "global_int P' k v" by (auto simp: global_int_def search_entry)
qed

lemma globals_add:
  "globals V P \<Longrightarrow> global_int P name v \<Longrightarrow> globals (V(name \<mapsto> v)) P"
  by (auto simp: globals_def)

lemma heap_fresh: "heap_wf H \<Longrightarrow> sh_items H a = Some it \<Longrightarrow> a \<noteq> sh_fresh H"
  by (auto simp: heap_wf_def)

text \<open>The declaration from the name on: the name is inserted, and its value declares it.\<close>

lemma define_leads:
  assumes r: "reading toks i (x # q # ts @ b # us) P" and x: "tok_type x = TOKEN_IDENTIFIER" "tok_value x = V_string name"
    and q: "tok_type q = TOKEN_ASS" and ph: "phrase (var_in V) 0 ts e" "ex_type e = T_integer" and b: "ends_expression b"
    and V: "outermost V P" and new: "name \<notin> names (p_heap P) (st_items (global_symtab P))" and half: "2 * st_count (global_symtab P) < st_size (global_symtab P)"
    and name: "plain name" "name \<noteq> ''_''"
  obtains P' j T where "rule_define P = Some (ERR_NO_ERR, P')" "reading toks j (b # us) P'"
    "symtable_insert (Some (global_symtab P)) name (p_heap P) = Some (Some T, after_insert name (p_heap P), SYMTAB_OK)"
    "stmt_frame (P\<lparr>global_symtab := T, lhs_id := Some (sh_fresh (p_heap P)),
       p_heap := upd_item (sh_fresh (p_heap P)) typed_int (after_insert name (p_heap P))\<rparr>) P'"
    "writes (code_events e @ declare_events (var_text gf_name name (sh_unique_id (p_heap P)))) (p_cg P) (p_cg P')"
    "cond_uid P' = cond_uid P" "loop_uid P' = loop_uid P"
proof -
  let ?H = "after_insert name (p_heap P)" and ?a = "sh_fresh (p_heap P)"
  have V': "globals V P" "expr_err P = EXIT_SUCCESS" "cg_wf (p_cg P)" "p_stack P = []" "in_cond P = 0" "in_loop P = 0"
      "\<not> in_func_body P" "table_inv (p_heap P) (global_symtab P)"
    using V by (simp_all add: outermost_def ready_for_def)
  have c: "curr_tok P = x" by (rule reading_curr [OF r])
  obtain T where T: "symtable_search (Some (global_symtab P)) name (p_heap P) = Some (None, SYMTAB_ERR_ITEM_NOT_FOUND)"
    "symtable_insert (Some (global_symtab P)) name (p_heap P) = Some (Some T, ?H, SYMTAB_OK)" "table_inv ?H T"
    "\<forall>k a. entry ?H (st_items T) k a \<longleftrightarrow> entry (p_heap P) (st_items (global_symtab P)) k a \<or> k = name \<and> a = ?a"
    by (rule insert_absent [OF V'(8) new half])
  have e: "entry ?H (st_items T) name ?a" using T(4) by simp
  let ?P1 = "P\<lparr>global_symtab := T, p_heap := ?H, current_id := Some ?a, lhs_id := Some ?a\<rparr>"
  have i: "sh_items ?H ?a = Some (new_item name (sh_unique_id (p_heap P)))" by simp
  have "upd_item ?a (\<lambda>it. it\<lparr>it_is_var_initialized := False\<rparr>) ?H = ?H" by (simp add: upd_item_def new_item_def)
  then have ch: "change_item (Some ?a) (\<lambda>it. it\<lparr>it_is_var_initialized := False\<rparr>) (P\<lparr>global_symtab := T, p_heap := ?H, current_id := Some ?a\<rparr>) =
      Some (P\<lparr>global_symtab := T, p_heap := ?H, current_id := Some ?a\<rparr>)"
    using change_item_upd [of "Some ?a" ?a "P\<lparr>global_symtab := T, p_heap := ?H, current_id := Some ?a\<rparr>" _ "\<lambda>it. it\<lparr>it_is_var_initialized := False\<rparr>"] i by simp
  have r1: "reading toks i (x # q # ts @ b # us) ?P1" using r by (simp add: reading_def at_token_def)
  have r2: "reading toks (Suc i) (q # ts @ b # us) (advance ?P1)" by (rule reading_advance(2) [OF r1])
  have g2: "globals V (advance ?P1)"
  proof (rule globals_grow [OF V'(1) _ V'(8)])
    show "sh_items (p_heap (advance ?P1)) b = Some it" if "sh_items (p_heap P) b = Some it" for b it
      using that heap_fresh [OF _ that] V'(8) by (simp add: table_inv_def)
  qed (use V'(4) T(3,4) in simp_all)
  have vn: "V name = None"
  proof (rule ccontr)
    assume "V name \<noteq> None"
    then obtain v where "V name = Some v" by auto
    then have "global_int P name v" using V'(1) by (simp add: globals_def)
    then obtain a where "entry (p_heap P) (st_items (global_symtab P)) name a"
      using V'(8) by (auto simp: global_int_def search_entry)
    then show False using new by (auto simp: entry_def names_alt)
  qed
  obtain P' j where P': "right_side untyped_call untyped_expression (advance ?P1) = Some (ERR_NO_ERR, P')" "reading toks j (b # us) P'"
    "stmt_frame ((advance ?P1)\<lparr>p_heap := upd_item ?a typed_int (p_heap (advance ?P1))\<rparr>) P'"
    "writes (code_events e @ declare_events (var_text gf_name name (sh_unique_id (p_heap P)))) (p_cg P) (p_cg P')"
    "cond_uid P' = cond_uid P" "loop_uid P' = loop_uid P"
    by (rule declaration_value [OF r2 ph b g2, of ?a "new_item name (sh_unique_id (p_heap P))"])
      (use V' T(3) e i name vn in \<open>simp_all add: new_item_def\<close>)
  have "rule_define P = Some (ERR_NO_ERR, P')"
    using c x q V' T(1,2) search_entry [OF T(3), of name ?a] e ch reading_advance(1) [OF r1] reading_curr [OF r2] P'(1)
    by (simp add: rule_define_def ASSERT_TOK_TYPE_def tok_str_def search_global_def insert_global_def NEXT_RULE_def rule_var_def_cont_def
        success_def ERR_NO_ERR_def EXIT_SUCCESS_def)
  then show ?thesis using that [of P' j T] P'(2-6) T(2) by (simp add: stmt_frame_def)
qed

lemma declaration_leads:
  assumes r: "reading toks i (w # x # q # ts @ b # us) P" and w: "tok_type w = TOKEN_VAR"
    and x: "tok_type x = TOKEN_IDENTIFIER" "tok_value x = V_string name"
    and q: "tok_type q = TOKEN_ASS" and ph: "phrase (var_in V) 0 ts e" "ex_type e = T_integer" and b: "ends_expression b"
    and V: "outermost V P" and new: "name \<notin> names (p_heap P) (st_items (global_symtab P))" and half: "2 * st_count (global_symtab P) < st_size (global_symtab P)"
    and name: "plain name" "name \<noteq> ''_''" and line: "first_stmt P \<or> preceding_eol w"
    and v: "v = var_text gf_name name (sh_unique_id (p_heap P))"
  obtains P' j where "rule_stmt body P = Some (ERR_NO_ERR, P')" "reading toks j (b # us) P'" "outermost (V(name \<mapsto> v)) P'"
    "cg_out (p_cg P') = cg_out (p_cg P) @ all_text (code_events e @ declare_events v)"
    "cond_uid P' = cond_uid P" "loop_uid P' = loop_uid P"
    "names (p_heap P') (st_items (global_symtab P')) \<subseteq> insert name (names (p_heap P) (st_items (global_symtab P)))"
    "st_size (global_symtab P) \<le> st_size (global_symtab P')" "st_count (global_symtab P') \<le> Suc (st_count (global_symtab P))"
    "sh_unique_id (p_heap P') = sh_unique_id (p_heap P) + 1" "labelled (p_heap P) \<longrightarrow> labelled (p_heap P')"
proof -
  let ?H = "p_heap P" and ?a = "sh_fresh (p_heap P)"
  have inv: "table_inv ?H (global_symtab P)" using V by (simp add: outermost_def)
  have r1: "reading toks (Suc i) (x # q # ts @ b # us) (advance P)" by (rule reading_advance(2) [OF r])
  have V1: "outermost V (advance P)" using V ready_upd(6) by (simp add: outermost_def)
  obtain P1 j T where P1: "rule_define (advance P) = Some (ERR_NO_ERR, P1)" "reading toks j (b # us) P1"
    and T: "symtable_insert (Some (global_symtab P)) name ?H = Some (Some T, after_insert name ?H, SYMTAB_OK)"
    and f: "stmt_frame ((advance P)\<lparr>global_symtab := T, lhs_id := Some ?a, p_heap := upd_item ?a typed_int (after_insert name ?H)\<rparr>) P1"
    and out: "writes (code_events e @ declare_events v) (p_cg P) (p_cg P1)" "cond_uid P1 = cond_uid P" "loop_uid P1 = loop_uid P"
    by (rule define_leads [OF r1 x q ph b V1 _ _ name]) (use new half v in simp_all)
  obtain T' where T': "symtable_insert (Some (global_symtab P)) name ?H = Some (Some T', after_insert name ?H, SYMTAB_OK)"
    "table_inv (after_insert name ?H) T'"
    "\<forall>k a. entry (after_insert name ?H) (st_items T') k a \<longleftrightarrow> entry ?H (st_items (global_symtab P)) k a \<or> k = name \<and> a = ?a"
    "names (after_insert name ?H) (st_items T') \<subseteq> insert name (names ?H (st_items (global_symtab P)))"
    "st_size (global_symtab P) \<le> st_size T'" "st_count T' \<le> Suc (st_count (global_symtab P))"
    by (rule insert_absent [OF inv new half])
  then have T_eq: "T' = T" using T by simp
  note d = declared_facts [OF T'(2) [unfolded T_eq]]
  let ?P' = "P1\<lparr>p_heap := declared name ?H, lhs_id := None\<rparr>"
  have "change_item (lhs_id P1) (\<lambda>it. it\<lparr>it_is_mutable := True\<rparr>) P1 = Some (P1\<lparr>p_heap := declared name ?H\<rparr>)"
    using f change_item_upd [of "lhs_id P1" ?a P1 "typed_int (new_item name (sh_unique_id ?H))"]
    by (simp add: stmt_frame_def upd_item_item upd_item_twice declared_def)
  then have run: "rule_stmt body P = Some (ERR_NO_ERR, ?P')"
    using w reading_curr [OF r] CHECK_NEWLINE_ok [of P] line reading_advance(1) [OF r] P1(1)
    by (simp add: rule_stmt_def declaration_statement_def NEXT_RULE_def success_def ERR_NO_ERR_def EXIT_SUCCESS_def)
  have P': "global_symtab ?P' = T" "p_heap ?P' = declared name ?H" "p_stack ?P' = []" "lhs_id ?P' = None" "expr_err ?P' = EXIT_SUCCESS"
      "in_cond ?P' = 0" "in_loop ?P' = 0" "\<not> in_func_body ?P'" "cg_wf (p_cg ?P')" "for_open (p_cg ?P') = 0"
    using f V out(1) by (simp_all add: stmt_frame_def outermost_def ready_for_def writes_def)
  have ent: "entry (declared name ?H) (st_items T) k a \<longleftrightarrow> entry ?H (st_items (global_symtab P)) k a \<or> k = name \<and> a = ?a" for k a
    using T'(3) d(3) by (simp add: T_eq)
  have g: "globals V P" using V by (simp add: outermost_def ready_for_def)
  have "globals V ?P'"
  proof (rule globals_grow [OF g P'(3) inv])
    show "sh_items (p_heap ?P') b = Some it" if "sh_items ?H b = Some it" for b it
      using that heap_fresh [OF _ that] inv d(1) by (simp add: table_inv_def)
  qed (use P'(1,2) d(2) ent in simp_all)
  moreover have "global_int ?P' name v"
    using P'(1-3) ent [of name ?a] d(1,2) name v
    by (auto simp: global_int_def search_entry int_item_def typed_int_def new_item_def)
  ultimately have "outermost (V(name \<mapsto> v)) ?P'"
    using P' d(2) globals_add [of V ?P' name v] by (simp add: outermost_def ready_for_def table_inv_def)
  then show ?thesis
    using that [OF run, of j] P1(2) out T'(4-6) d(4,5) P'(1,2) V labelled_declared [OF T'(2)]
    by (simp add: T_eq writes_def outermost_def reading_def at_token_def)
qed

section \<open>Programs\<close>

definition eof_text :: string where
  "eof_text = nl ''LABEL $$EOF''"

lemma eof_prints:
  assumes "cg_wf G" "for_open G = 0"
  obtains G' where "code_generator_eof G = Some G'" "cg_out G' = cg_out G @ eof_text"
proof -
  have p: "plain (nl ''LABEL $$EOF'')" by simp
  obtain G1 where G1: "BUFFER_PRINT (nl ''LABEL $$EOF'') G = Some G1" "writes [Buffered (nl ''LABEL $$EOF'')] G G1"
    by (rule printsE [OF prints_BUFFER_PRINT [OF p, of UNIV 0] assms(1)]) (use assms(2) in simp_all)
  have "ds_wf (print_buffer G1)" using G1(2) by (simp add: writes_def cg_wf_def)
  then obtain c where "dstring_clear (print_buffer G1) = Some c" by (rule dstring_clear_wf)
  then obtain d where d: "dstring_free (print_buffer G1) = Some d" by (simp add: dstring_free_def)
  have "cg_out G1 = cg_out G @ eof_text" using G1(2) assms(2) by (simp add: writes_def eof_text_def all_text_simps)
  then show ?thesis
    using that [of "G1\<lparr>print_buffer := d\<rparr>"] G1(1) d by (simp add: code_generator_eof_def)
qed

text \<open>
  A program: declarations of variables and statements, each on a line of its own. \<open>V\<close> are the
  variables so far, \<open>n\<close> is the number of the next declaration, and \<open>N\<close> holds the names that may
  not be declared.
\<close>

datatype prog = Finished | Declare string ex prog | Run stmt prog

inductive program_phrase ::
  "(string \<Rightarrow> string option) \<Rightarrow> 32 word \<Rightarrow> string set \<Rightarrow> bool \<Rightarrow> token list \<Rightarrow> prog \<Rightarrow> bool" where
  finished: "program_phrase V n N first [] Finished"
| declaring: "tok_type w = TOKEN_VAR \<Longrightarrow> first \<or> preceding_eol w \<Longrightarrow> tok_type x = TOKEN_IDENTIFIER \<Longrightarrow> tok_value x = V_string name \<Longrightarrow>
    name \<notin> N \<Longrightarrow> plain name \<Longrightarrow> name \<noteq> ''_'' \<Longrightarrow> tok_type q = TOKEN_ASS \<Longrightarrow> phrase (var_in V) 0 ts e \<Longrightarrow> ex_type e = T_integer \<Longrightarrow>
    v = var_text gf_name name n \<Longrightarrow> program_phrase (V(name \<mapsto> v)) (n + 1) (insert name N) False us p \<Longrightarrow>
    program_phrase V n N first (w # x # q # ts @ us) (Declare v e p)"
| run: "stmt_phrase V ts s \<Longrightarrow> first \<or> preceding_eol (hd ts) \<Longrightarrow> program_phrase V n N False us p \<Longrightarrow>
    program_phrase V n N first (ts @ us) (Run s p)"

fun prog_code :: "prog \<Rightarrow> uids \<Rightarrow> string" where
  "prog_code Finished u = eof_text"
| "prog_code (Declare v e p) u = all_text (code_events e @ declare_events v) @ prog_code p u"
| "prog_code (Run s p) u = (case stmt_code s u of (es, u) \<Rightarrow> all_text es @ prog_code p u)"

text \<open>How many names a program declares, and how deep it nests loops.\<close>

fun declarations :: "prog \<Rightarrow> nat" where
  "declarations Finished = 0"
| "declarations (Declare v e p) = Suc (declarations p)"
| "declarations (Run s p) = declarations p"

fun prog_depth :: "prog \<Rightarrow> nat" where
  "prog_depth Finished = 0"
| "prog_depth (Declare v e p) = prog_depth p"
| "prog_depth (Run s p) = max (stmt_depth s) (prog_depth p)"

lemma program_phrase_ends:
  assumes "program_phrase V n N False us p" "tok_type r = TOKEN_EOF"
  shows "ends_expression (hd (us @ [r]))"
  using assms(1)
proof cases
  case (run ts s us' p')
  then show ?thesis using stmt_phrase_ends [of V ts s] stmt_phrase_first [of V ts s] by (auto simp: hd_append)
qed (use assms(2) in \<open>simp_all add: ends_expression_def convert_token_to_index_def\<close>)

text \<open>
  The second pass over a program ends without error at the end of the input, and prints the
  code of the program.
\<close>

definition prog_room :: "prog \<Rightarrow> symtab \<Rightarrow> bool" where
  "prog_room p T \<longleftrightarrow> 2 * (st_count T + declarations p) \<le> st_size T + 1 \<and> prog_depth p < 2 ^ 32"

lemma program_runs:
  assumes "program_phrase V n N first us p" "tok_type r = TOKEN_EOF" "reading toks i (us @ [r]) P" "outermost V P"
    "first \<longrightarrow> first_stmt P" "n = sh_unique_id (p_heap P)" "names (p_heap P) (st_items (global_symtab P)) \<subseteq> N" "prog_room p (global_symtab P)"
  shows "\<exists>P' j. rule_prog P = Some (ERR_NO_ERR, P') \<and> cg_out (p_cg P') = cg_out (p_cg P) @ prog_code p (cond_uid P, loop_uid P) \<and>
    reading toks j [r] P' \<and> p_stack P' = [] \<and> table_inv (p_heap P') (global_symtab P') \<and> (labelled (p_heap P) \<longrightarrow> labelled (p_heap P'))"
  using assms
proof (induction arbitrary: i P rule: program_phrase.induct)
  case (finished V n N first)
  have c: "tok_type (curr_tok P) = TOKEN_EOF" using finished by (simp add: reading_def)
  have g: "cg_wf (p_cg P)" "for_open (p_cg P) = 0" using finished(3) by (simp_all add: outermost_def ready_for_def)
  obtain G where "code_generator_eof (p_cg P) = Some G" "cg_out G = cg_out (p_cg P) @ eof_text"
    by (rule eof_prints [OF g])
  then show ?case
    using c finished(2,3) by (auto simp: rule_prog.simps [of P] generate_def success_def ERR_NO_ERR_def EXIT_SUCCESS_def outermost_def)
next
  case (declaring w first x name N q V ts e v n us p)
  have r: "reading toks i (w # x # q # ts @ us @ [r]) P" using declaring.prems(2) by simp
  obtain y ys where y: "us @ [r] = y # ys" by (cases us) auto
  have b: "ends_expression y" using program_phrase_ends [OF declaring.hyps(12) declaring.prems(1)] y by simp
  have rm: "2 * st_count (global_symtab P) < st_size (global_symtab P)" using declaring.prems(7) by (simp add: prog_room_def)
  obtain P1 j where P1: "rule_stmt rule_block_body P = Some (ERR_NO_ERR, P1)" "reading toks j (y # ys) P1" "outermost (V(name \<mapsto> v)) P1"
    "cg_out (p_cg P1) = cg_out (p_cg P) @ all_text (code_events e @ declare_events v)"
    "cond_uid P1 = cond_uid P" "loop_uid P1 = loop_uid P"
    "names (p_heap P1) (st_items (global_symtab P1)) \<subseteq> insert name (names (p_heap P) (st_items (global_symtab P)))"
    "st_size (global_symtab P) \<le> st_size (global_symtab P1)" "st_count (global_symtab P1) \<le> Suc (st_count (global_symtab P))"
    "sh_unique_id (p_heap P1) = sh_unique_id (p_heap P) + 1" "labelled (p_heap P) \<longrightarrow> labelled (p_heap P1)"
    by (rule declaration_leads [of toks i w x q ts y ys P name V e v]) (use declaring r y b rm in auto)
  let ?P1 = "P1\<lparr>first_stmt := False\<rparr>"
  have "\<exists>P' j. rule_prog ?P1 = Some (ERR_NO_ERR, P') \<and> cg_out (p_cg P') = cg_out (p_cg ?P1) @ prog_code p (cond_uid ?P1, loop_uid ?P1) \<and>
      reading toks j [r] P' \<and> p_stack P' = [] \<and> table_inv (p_heap P') (global_symtab P') \<and> (labelled (p_heap ?P1) \<longrightarrow> labelled (p_heap P'))"
    by (rule declaring.IH [OF declaring.prems(1)])
      (use P1 y declaring.prems outermost_next [OF P1(3)] in \<open>auto simp: prog_room_def simp del: fun_upd_apply\<close>)
  then show ?case
    using P1(1,4-6,11) reading_curr [OF r] declaring.hyps(1)
    by (auto simp: rule_prog.simps [of P] NEXT_RULE_def success_def ERR_NO_ERR_def EXIT_SUCCESS_def)
next
  case (run V ts s first n N us p)
  obtain y ys where y: "us @ [r] = y # ys" by (cases us) auto
  have r: "reading toks i (ts @ y # ys) P" using run.prems(2) y by simp
  have b: "ends_expression y" using program_phrase_ends [OF run.hyps(3) run.prems(1)] y by simp
  have c: "curr_tok P = hd ts" using r stmt_phrase_first [OF run.hyps(1)] by (cases ts) (auto simp: reading_def)
  have V: "ready_for V P" and top: "for_open (p_cg P) = 0" using run.prems(3) by (simp_all add: outermost_def)
  have "leads toks (y # ys) (stmt_code s (cond_uid P, loop_uid P)) P (rule_stmt rule_block_body P)"
    by (rule stmt_okD [OF statements_ok(1) [OF run.hyps(1)] r b V])
      (use run.hyps(2) run.prems(4,7) top in \<open>auto simp: room_for_def prog_room_def\<close>)
  then obtain P1 j where P1: "rule_stmt rule_block_body P = Some (ERR_NO_ERR, P1)" "reading toks j (y # ys) P1" "stmt_frame P P1"
      "writes (fst (stmt_code s (cond_uid P, loop_uid P))) (p_cg P) (p_cg P1)"
      "(cond_uid P1, loop_uid P1) = snd (stmt_code s (cond_uid P, loop_uid P))"
    by (rule leadsE)
  let ?P1 = "P1\<lparr>first_stmt := False\<rparr>"
  have V1: "ready_for V P1" by (rule ready_frame [OF V P1(3)]) (use P1(4) in \<open>simp add: writes_def\<close>)
  have "\<exists>P' j. rule_prog ?P1 = Some (ERR_NO_ERR, P') \<and> cg_out (p_cg P') = cg_out (p_cg ?P1) @ prog_code p (cond_uid ?P1, loop_uid ?P1) \<and>
      reading toks j [r] P' \<and> p_stack P' = [] \<and> table_inv (p_heap P') (global_symtab P') \<and> (labelled (p_heap ?P1) \<longrightarrow> labelled (p_heap P'))"
    by (rule run.IH [OF run.prems(1)])
      (use P1(2-4) y run.prems ready_upd(5) [OF V1] in \<open>auto simp: prog_room_def outermost_def stmt_frame_def writes_def\<close>)
  then show ?case
    using P1(1,3,4,5) top c stmt_phrase_first [OF run.hyps(1)]
    by (auto simp: rule_prog.simps [of P] NEXT_RULE_def success_def ERR_NO_ERR_def EXIT_SUCCESS_def writes_def stmt_frame_def
        split: prod.split)
qed

end
