(* ===== verification/Builtins.thy ===== *)
theory Builtins
  imports Program_Code
begin

text \<open>
  The built-in functions of \<open>src/parser.c\<close>: \<open>add_builtins\<close> on an empty global table succeeds and
  leaves the ten functions with their parameters in a table less than half full.
\<close>

section \<open>The table of the built-in functions\<close>

text \<open>The table holds the names \<open>ns\<close>, and every label of a parameter is set.\<close>

definition tabled :: "string list \<Rightarrow> symtab \<Rightarrow> symheap \<Rightarrow> bool" where
  "tabled ns T H \<longleftrightarrow> table_inv H T \<and> names H (st_items T) \<subseteq> set ns \<and> sh_unique_id H = of_nat (length ns) \<and>
     labelled H"

text \<open>
  A signature: the type of the result and whether it may be nil, whether the function is
  variadic, and the label, the name and the type of each parameter. A defined function of the
  signature is found in the table; what \<open>keeps\<close> describes touches no other function.
\<close>

type_synonym signature = "ty \<times> bool \<times> bool \<times> (string \<times> string \<times> ty) list"

fun has_signature :: "symtab_item \<Rightarrow> signature \<Rightarrow> bool" where
  "has_signature it (rt, nil, variadic, ps) \<longleftrightarrow>
     it_type it = T_function \<and> it_is_func_defined it \<and> it_return_type it = rt \<and> it_is_nillable it = nil \<and>
     it_variadic_param it = variadic \<and>
     map (\<lambda>p. (p_label p, p_name p, p_type p, p_is_nillable p)) (it_parameters it) =
       map (\<lambda>(l, n, t). (Some l, n, t, Some False)) ps"

definition is_fun :: "string \<Rightarrow> signature \<Rightarrow> symtab \<Rightarrow> symheap \<Rightarrow> bool" where
  "is_fun key sg T H \<longleftrightarrow> (\<exists>a it. entry H (st_items T) key a \<and> sh_items H a = Some it \<and> has_signature it sg)"

definition keeps :: "string \<Rightarrow> symtab \<Rightarrow> symheap \<Rightarrow> symtab \<Rightarrow> symheap \<Rightarrow> bool" where
  "keeps key T H T' H' \<longleftrightarrow> (\<forall>k sg. k \<noteq> key \<longrightarrow> is_fun k sg T H \<longrightarrow> is_fun k sg T' H')"

lemma keeps_trans: "keeps key T H T1 H1 \<Longrightarrow> keeps key T1 H1 T2 H2 \<Longrightarrow> keeps key T H T2 H2"
  by (simp add: keeps_def)

lemma parameter_names:
  "map (\<lambda>p. (p_label p, p_name p, p_type p, p_is_nillable p)) qs = map (\<lambda>(l, n, t). (Some l, n, t, Some False)) ps \<Longrightarrow>
    map p_name qs = map (fst \<circ> snd) ps"
proof (induction qs arbitrary: ps)
  case (Cons q qs)
  then show ?case by (cases ps) auto
qed simp

lemma keeps_upd:
  assumes a: "entry H (st_items T) key a" and k: "keeps_identity f"
  shows "keeps key T H T (upd_item a f H)"
  unfolding keeps_def is_fun_def
proof (intro allI impI, elim exE conjE)
  fix j sg b it
  assume j: "j \<noteq> key" and b: "entry H (st_items T) j b" "sh_items H b = Some it" and sg: "has_signature it sg"
  obtain it' where it': "sh_items H a = Some it'" "it_name it' = key" using a by (auto simp: entry_def)
  have "it_name it = j" using b by (simp add: entry_def)
  then have "b \<noteq> a" using b(2) it' j by auto
  then have "sh_items (upd_item a f H) b = Some it" using b(2) by (simp add: upd_item_def)
  then show "\<exists>a' it. entry (upd_item a f H) (st_items T) j a' \<and> sh_items (upd_item a f H) a' = Some it \<and> has_signature it sg"
    using b(1) sg entry_upd [OF it'(1) k] by blast
qed

lemma keeps_insert:
  assumes ent: "\<forall>k a. entry (after_insert key H) (st_items T') k a \<longleftrightarrow> entry H (st_items T) k a \<or> k = key \<and> a = sh_fresh H"
  shows "keeps key T H T' (after_insert key H)"
  unfolding keeps_def is_fun_def
proof (intro allI impI, elim exE conjE)
  fix j sg b it
  assume j: "j \<noteq> key" and b: "entry H (st_items T) j b" "sh_items H b = Some it" and sg: "has_signature it sg"
  have e: "entry (after_insert key H) (st_items T') j b" using ent b(1) by blast
  then have "b \<noteq> sh_fresh H" using j by (auto simp: entry_def new_item_def)
  then have "sh_items (after_insert key H) b = Some it" using b(2) by simp
  then show "\<exists>a it. entry (after_insert key H) (st_items T') j a \<and> sh_items (after_insert key H) a = Some it \<and> has_signature it sg"
    using e sg by blast
qed

text \<open>Calls on the table turn it from \<open>T\<close>, \<open>H\<close> into \<open>T'\<close>, \<open>H'\<close>, without an error.\<close>

definition calls :: "table_call list \<Rightarrow> symtab \<Rightarrow> symheap \<Rightarrow> symtab \<Rightarrow> symheap \<Rightarrow> bool" where
  "calls fs T H T' H' \<longleftrightarrow> (\<forall>P e. global_symtab P = T \<and> p_heap P = H \<longrightarrow>
     table_calls fs e P = Some (SYMTAB_OK, P\<lparr>global_symtab := T', p_heap := H'\<rparr>))"

lemma table_calls_append:
  "table_calls (fs @ gs) e P = do { (e, P) \<leftarrow> table_calls fs e P; table_calls gs e P }"
proof (induction fs arbitrary: e P)
  case (Cons f fs)
  then show ?case by (cases "f P") auto
qed simp

lemma calls_append: "calls fs T H T1 H1 \<Longrightarrow> calls gs T1 H1 T2 H2 \<Longrightarrow> calls (fs @ gs) T H T2 H2"
  by (simp add: calls_def table_calls_append)

lemma call_then: "calls [f] T H T1 H1 \<Longrightarrow> calls fs T1 H1 T2 H2 \<Longrightarrow> calls (f # fs) T H T2 H2"
  using calls_append [of "[f]"] by simp

lemma on_global_calls: "f (Some T) H = Some (H', SYMTAB_OK) \<Longrightarrow> calls [on_global f] T H T H'"
  by (auto simp: calls_def on_global_def)

lemma insert_calls: "symtable_insert (Some T) key H = Some (Some T', H', SYMTAB_OK) \<Longrightarrow> calls [insert_global key] T H T' H'"
  by (auto simp: calls_def insert_global_def)

text \<open>An update of an item that keeps its name and the labels of its parameters.\<close>

lemma tabled_upd:
  assumes "tabled ns T H" "sh_items H a = Some it" "keeps_identity f" "\<forall>p\<in>set (it_parameters (f it)). p_label p \<noteq> None"
  shows "tabled ns T (upd_item a f H)"
proof -
  have "sh_unique_id (upd_item a f H) = sh_unique_id H" by (simp add: upd_item_def)
  then show ?thesis
    using assms table_inv_upd [OF _ assms(2,3), of T] names_upd [OF assms(2,3)]
    by (auto simp: tabled_def labelled_def upd_item_def split: if_splits)
qed

lemma is_funI:
  "entry H (st_items T) key a \<Longrightarrow> sh_items H a = Some it \<Longrightarrow> has_signature it sg \<Longrightarrow> is_fun key sg T H"
  by (auto simp: is_fun_def)

text \<open>A built-in function: the item is inserted, and its attributes are set.\<close>

definition builtin_item :: "ty \<Rightarrow> bool \<Rightarrow> symtab_item \<Rightarrow> symtab_item" where
  "builtin_item rt nil = (\<lambda>it. it\<lparr>it_type := T_function, it_return_type := rt, it_is_nillable := nil, it_is_func_defined := True\<rparr>)"

lemma set_builtin:
  assumes tab: "tabled ns T H" and ins: "symtable_insert (Some T) key H = Some (Some T', after_insert key H, SYMTAB_OK)"
    and inv: "table_inv (after_insert key H) T'"
    and ents: "\<forall>k a. entry (after_insert key H) (st_items T') k a \<longleftrightarrow> entry H (st_items T) k a \<or> k = key \<and> a = sh_fresh H"
    and names: "names (after_insert key H) (st_items T') \<subseteq> insert key (names H (st_items T))"
  obtains H' where "calls (SET_BUILTIN key rt nil) T H T' H'" "tabled (key # ns) T' H'" "is_fun key (rt, nil, False, []) T' H'"
    "keeps key T H T' H'"
proof -
  let ?a = "sh_fresh H" let ?H = "after_insert key H" let ?it = "new_item key (sh_unique_id H)"
  have tab1: "tabled (key # ns) T' ?H"
    using tab inv names by (auto simp: tabled_def labelled_def new_item_def)
  have ent: "entry ?H (st_items T') key ?a" using ents by simp
  have i: "sh_items ?H ?a = Some ?it" by simp
  have k: "keeps_identity (builtin_item rt nil)" by (simp add: keeps_identity_def builtin_item_def)
  have acc: "with_item (Some T') key (upd_item ?a f ?H) fail g = g ?a (f ?it) SYMTAB_OK" if "keeps_identity f" for f fail and g :: "nat \<Rightarrow> symtab_item \<Rightarrow> nat \<Rightarrow> 'z c"
    using get_after_set(1) [OF _ ent i that] inv by (simp add: table_inv_def)
  let ?f1 = "\<lambda>it. it\<lparr>it_type := T_function\<rparr>" let ?f2 = "\<lambda>it. it\<lparr>it_type := T_function, it_return_type := rt\<rparr>"
  let ?f3 = "\<lambda>it. it\<lparr>it_type := T_function, it_return_type := rt, it_is_nillable := nil\<rparr>"
  have ki: "keeps_identity ?f1" "keeps_identity ?f2" "keeps_identity ?f3" by (simp_all add: keeps_identity_def)
  have it: "sh_items (upd_item ?a f ?H) ?a = Some (f ?it)" for f by (simp add: upd_item_def)
  have c2: "calls [on_global (\<lambda>T. set_type T key T_function)] T' ?H T' (upd_item ?a ?f1 ?H)"
    by (rule on_global_calls) (use inv in \<open>simp add: set_type_def with_item_entry [OF _ ent i] table_inv_def set_item_upd\<close>)
  have c3: "calls [on_global (\<lambda>T. set_return_type T key rt)] T' (upd_item ?a ?f1 ?H) T' (upd_item ?a ?f2 ?H)"
    by (rule on_global_calls) (simp add: set_return_type_def with_function_def acc [OF ki(1)] set_item_upd [OF it] upd_item_twice)
  have c4: "calls [on_global (\<lambda>T. set_nillable T key nil)] T' (upd_item ?a ?f2 ?H) T' (upd_item ?a ?f3 ?H)"
    by (rule on_global_calls) (simp add: set_nillable_def acc [OF ki(2)] set_item_upd [OF it] upd_item_twice)
  have c5: "calls [on_global (\<lambda>T. set_func_definition T key True)] T' (upd_item ?a ?f3 ?H) T' (upd_item ?a (builtin_item rt nil) ?H)"
    by (rule on_global_calls)
      (simp add: set_func_definition_def with_function_def acc [OF ki(3)] set_item_upd [OF it] upd_item_twice builtin_item_def)
  have "calls (SET_BUILTIN key rt nil) T H T' (upd_item ?a (builtin_item rt nil) ?H)"
    unfolding SET_BUILTIN_def
    by (rule call_then [OF insert_calls [OF ins] call_then [OF c2 call_then [OF c3 call_then [OF c4 c5]]]])
  moreover have "tabled (key # ns) T' (upd_item ?a (builtin_item rt nil) ?H)"
    by (rule tabled_upd [OF tab1 i k]) (simp add: builtin_item_def new_item_def)
  moreover have "keeps key T H T' (upd_item ?a (builtin_item rt nil) ?H)"
    by (rule keeps_trans [OF keeps_insert [OF ents] keeps_upd [OF ent k]])
  moreover have "is_fun key (rt, nil, False, []) T' (upd_item ?a (builtin_item rt nil) ?H)"
    by (rule is_funI [OF _ it]) (use ent in \<open>simp_all only: entry_upd [OF i k]\<close>, simp_all add: builtin_item_def new_item_def)
  ultimately show ?thesis using that by blast
qed

text \<open>A parameter of a built-in function.\<close>

lemma add_builtin_param:
  assumes tab: "tabled ns T H" and f: "is_fun key (rt, rn, variadic, ps) T H" and new: "name \<notin> set (map (fst \<circ> snd) ps)"
  obtains H' where "calls (ADD_BUILTIN_PARAM key label name ty False) T H T H'" "tabled ns T H'"
    "is_fun key (rt, rn, variadic, ps @ [(label, name, ty)]) T H'" "keeps key T H T H'"
proof -
  let ?nil = False
  obtain a it where a: "entry H (st_items T) key a" "sh_items H a = Some it" "it_type it = T_function" "map p_name (it_parameters it) = map (fst \<circ> snd) ps"
    and sg: "has_signature it (rt, rn, variadic, ps)"
    using f parameter_names by (auto simp: is_fun_def)
  have w: "st_wf H T" "sh_budget H = None" using tab by (simp_all add: tabled_def table_inv_def)
  let ?qs = "it_parameters it"
  define g where "g l sz t n = (\<lambda>it' :: symtab_item. it'\<lparr>it_parameters := ?qs @ [\<lparr>p_name = name, p_label = Some l, p_label_size = sz, p_type = t, p_is_nillable = n\<rparr>]\<rparr>)"
    for l sz t n
  have k: "keeps_identity (g l sz t n)" for l sz t n by (simp add: keeps_identity_def g_def)
  have acc: "with_item (Some T) key (upd_item a (g l sz t n) H) fail h = h a (g l sz t n it) SYMTAB_OK"
    for l sz t n fail and h :: "nat \<Rightarrow> symtab_item \<Rightarrow> nat \<Rightarrow> 'z c"
    by (rule get_after_set(1) [OF w(1) a(1,2) k])
  have it: "sh_items (upd_item a (g l sz t n) H) a = Some (g l sz t n it)" for l sz t n using a(2) by (simp add: upd_item_def)
  have fresh: "name \<notin> p_name ` set ?qs" using new unfolding a(4) [symmetric] by simp
  have s: "search_param (?qs @ [q]) name SYMTAB_OK = (Some (length ?qs), SYMTAB_OK)" if "p_name q = name" for q
    using search_param_from_name [of ?qs 0 name] fresh that
    by (auto simp: search_param_def search_param_from_append strcmp_eq_0)
  have b: "sh_budget (upd_item a f H) = None" for f using w(2) by (simp add: upd_item_def)
  obtain p where p: "add_param (Some T) key name H = Some (upd_item a (\<lambda>it. it\<lparr>it_parameters := it_parameters it @ [p]\<rparr>) H, SYMTAB_OK)"
    "p_name p = name" "p_type p = T_undefined" "p_label p = Some []" "p_is_nillable p = None"
    by (rule add_param_entry [OF w(1) a(1,2,3) w(2), of name]) blast
  let ?g0 = "g [] (p_label_size p) T_undefined None"
  have "p = \<lparr>p_name = name, p_label = Some [], p_label_size = p_label_size p, p_type = T_undefined, p_is_nillable = None\<rparr>"
    using p(2-5) by (cases p) simp
  then have "upd_item a (\<lambda>it. it\<lparr>it_parameters := it_parameters it @ [p]\<rparr>) H = upd_item a ?g0 H"
    using a(2) by (simp add: upd_item_def g_def)
  then have c1: "calls [on_global (\<lambda>T. add_param T key name)] T H T (upd_item a ?g0 H)"
    using p(1) by (intro on_global_calls) simp
  have "\<exists>sz. str_copy label (p_label_size p) (upd_item a ?g0 H) = (True, sz, upd_item a ?g0 H)"
    by (simp add: str_copy_def alloc_None [OF b])
  then obtain sz where sz: "str_copy label (p_label_size p) (upd_item a ?g0 H) = (True, sz, upd_item a ?g0 H)" ..
  have gp: "it_parameters (g l z t n it) = ?qs @ [\<lparr>p_name = name, p_label = Some l, p_label_size = z, p_type = t, p_is_nillable = n\<rparr>]"
    "it_type (g l z t n it) = T_function" for l z t n
    by (simp_all add: g_def a(3))
  have gup: "upd_item a (\<lambda>it'. it'\<lparr>it_parameters := ?qs @ [\<lparr>p_name = name, p_label = Some l, p_label_size = z, p_type = t, p_is_nillable = n\<rparr>]\<rparr>)
      (upd_item a (g l' z' t' n') H) = upd_item a (g l z t n) H" for l z t n l' z' t' n'
    by (simp add: upd_item_twice g_def)
  have par: "with_param (Some T) key name (upd_item a (g l z t n) H) fail h = h a (it_parameters (g l z t n it)) (length ?qs) SYMTAB_OK"
    for l z t n fail and h :: "nat \<Rightarrow> param list \<Rightarrow> nat \<Rightarrow> nat \<Rightarrow> 'z c"
    by (simp add: with_param_def with_function_def acc gp s)
  have c2: "calls [on_global (\<lambda>T. set_param_label T key name label)] T (upd_item a ?g0 H) T (upd_item a (g label sz T_undefined None) H)"
    by (rule on_global_calls) (simp add: set_param_label_def par gp sz c_assert_def set_item_upd [OF it] gup)
  have c3: "calls [on_global (\<lambda>T. set_param_type T key name ty)] T (upd_item a (g label sz T_undefined None) H) T (upd_item a (g label sz ty None) H)"
    by (rule on_global_calls) (simp add: set_param_type_def par gp set_item_upd [OF it] gup)
  have c4: "calls [on_global (\<lambda>T. set_param_nil T key name ?nil)] T (upd_item a (g label sz ty None) H) T (upd_item a (g label sz ty (Some ?nil)) H)"
    by (rule on_global_calls) (simp add: set_param_nil_def par gp set_item_upd [OF it] gup)
  have "calls (ADD_BUILTIN_PARAM key label name ty ?nil) T H T (upd_item a (g label sz ty (Some ?nil)) H)"
    unfolding ADD_BUILTIN_PARAM_def by (rule call_then [OF c1 call_then [OF c2 call_then [OF c3 c4]]])
  moreover have "tabled ns T (upd_item a (g label sz ty (Some ?nil)) H)"
    by (rule tabled_upd [OF tab a(2) k]) (use tab a(2) in \<open>auto simp: tabled_def labelled_def g_def\<close>)
  moreover have "is_fun key (rt, rn, variadic, ps @ [(label, name, ty)]) T (upd_item a (g label sz ty (Some ?nil)) H)"
    by (rule is_funI [OF _ it]) (use a sg in \<open>simp_all add: entry_upd [OF a(2) k]\<close>, simp_all add: g_def)
  moreover have "keeps key T H T (upd_item a (g label sz ty (Some ?nil)) H)" by (rule keeps_upd [OF a(1) k])
  ultimately show ?thesis using that by blast
qed

section \<open>Insertion of the built-in names\<close>

text \<open>
  The hash function puts the first eight built-in names into different slots of the first
  table; the eighth name makes it grow, and the larger table stays less than half full.
\<close>

lemma builtin_homes:
  "home ''readString'' 11 = 7" "home ''readInt'' 11 = 3" "home ''readDouble'' 11 = 1" "home ''write'' 11 = 10"
  "home ''Int2Double'' 11 = 9" "home ''Double2Int'' 11 = 4" "home ''length'' 11 = 8" "home ''substring'' 11 = 5"
  by (simp_all add: home_def)

definition homes :: "nat set \<Rightarrow> nat \<Rightarrow> symtab \<Rightarrow> bool" where
  "homes S n T \<longleftrightarrow> st_size T = 11 \<and> st_count T = n \<and> (\<forall>j<11. st_items T ! j = None \<longleftrightarrow> j \<notin> S)"

definition grown :: "nat \<Rightarrow> symtab \<Rightarrow> bool" where
  "grown n T \<longleftrightarrow> 23 \<le> st_size T \<and> st_count T \<le> n"

lemma set_builtin_home:
  assumes tab: "tabled ns T H" and S: "homes S (length ns) T" and h: "home key 11 \<notin> S" and new: "key \<notin> set ns" and n: "length ns < 7"
  obtains T' H' where "calls (SET_BUILTIN key rt nil) T H T' H'" "tabled (key # ns) T' H'" "is_fun key (rt, nil, False, []) T' H'"
    "keeps key T H T' H'" "homes (insert (home key 11) S) (length (key # ns)) T'"
proof -
  have inv: "table_inv H T" and names: "key \<notin> names H (st_items T)" using tab new by (auto simp: tabled_def)
  have T: "st_size T = 11" "length (st_items T) = 11" "st_count T = length ns" "\<forall>j<11. st_items T ! j = None \<longleftrightarrow> j \<notin> S"
    using S inv by (simp_all add: homes_def table_inv_def st_wf_def)
  have less: "home key 11 < 11" by (simp add: home_def)
  have free: "st_items T ! home key (st_size T) = None" using T(1,4) h less by simp
  then have ends: "probe_ends H (st_items T) key"
    using T(1,2) unfolding probe_ends_def by (auto simp: path_0 intro!: exI [of _ 0])
  have room: "st_count T < 16398" using T n by simp
  obtain T' where T': "symtable_insert (Some T) key H = Some (Some T', after_insert key H, SYMTAB_OK)" "table_inv (after_insert key H) T'"
    "\<forall>k a. entry (after_insert key H) (st_items T') k a \<longleftrightarrow> entry H (st_items T) k a \<or> k = key \<and> a = sh_fresh H"
    "names (after_insert key H) (st_items T') \<subseteq> insert key (names H (st_items T))"
    by (rule insert_ends [OF inv names ends room])
  have "T' = T\<lparr>st_items := (st_items T)[home key 11 := Some (sh_fresh H)], st_count := st_count T + 1\<rparr>"
    using insert_home [OF free] T(1-3) inv n T'(1) by (simp add: table_inv_def)
  then have "homes (insert (home key 11) S) (length (key # ns)) T'"
    using T less by (auto simp: homes_def nth_list_update)
  with set_builtin [OF tab T'(1-4)] that show ?thesis by metis
qed

lemma prime_sizes: "n \<in> set primes \<Longrightarrow> 11 < n \<Longrightarrow> 23 \<le> n"
  by (auto simp: primes_def)

lemma set_builtin_grow:
  assumes tab: "tabled ns T H" and S: "homes S (length ns) T" and h: "home key 11 \<notin> S" and new: "key \<notin> set ns" and n: "length ns = 7"
  obtains T' H' where "calls (SET_BUILTIN key rt nil) T H T' H'" "tabled (key # ns) T' H'" "is_fun key (rt, nil, False, []) T' H'"
    "keeps key T H T' H'" "grown (length (key # ns)) T'"
proof -
  have inv: "table_inv H T" and names: "key \<notin> names H (st_items T)" using tab new by (auto simp: tabled_def)
  have T: "st_size T = 11" "length (st_items T) = 11" "st_count T = length ns" "\<forall>j<11. st_items T ! j = None \<longleftrightarrow> j \<notin> S"
    using S inv by (simp_all add: homes_def table_inv_def st_wf_def)
  have "home key 11 < 11" by (simp add: home_def)
  then have "st_items T ! path key 11 0 = None" using T(4) h by (simp add: path_0)
  then have ends: "probe_ends H (st_items T) key" unfolding probe_ends_def T(2) by blast
  have room: "st_count T < 16398" using T n by simp
  obtain T' where T': "symtable_insert (Some T) key H = Some (Some T', after_insert key H, SYMTAB_OK)" "table_inv (after_insert key H) T'"
    "\<forall>k a. entry (after_insert key H) (st_items T') k a \<longleftrightarrow> entry H (st_items T) k a \<or> k = key \<and> a = sh_fresh H"
    "names (after_insert key H) (st_items T') \<subseteq> insert key (names H (st_items T))"
    "st_count T' \<le> Suc (st_count T)" "13 * st_size T < 20 * Suc (st_count T) \<longrightarrow> st_size T < st_size T'"
    by (rule insert_ends [OF inv names ends room])
  have "st_size T' \<in> set primes" using T'(2) by (simp add: table_inv_def st_wf_def)
  then have "grown (length (key # ns)) T'" using T'(5,6) T n prime_sizes by (simp add: grown_def)
  with set_builtin [OF tab T'(1-4)] that show ?thesis by metis
qed

lemma set_builtin_late:
  assumes tab: "tabled ns T H" and S: "grown (length ns) T" and new: "key \<notin> set ns" and n: "length ns < 12"
  obtains T' H' where "calls (SET_BUILTIN key rt nil) T H T' H'" "tabled (key # ns) T' H'" "is_fun key (rt, nil, False, []) T' H'"
    "keeps key T H T' H'" "grown (length (key # ns)) T'"
proof -
  have inv: "table_inv H T" and names: "key \<notin> names H (st_items T)" using tab new by (auto simp: tabled_def)
  have half: "2 * st_count T < st_size T" and room: "st_count T < 16398" using S n by (simp_all add: grown_def)
  have ends: "probe_ends H (st_items T) key" by (rule half_ends [OF _ half]) (use inv in \<open>simp add: table_inv_def\<close>)
  obtain T' where T': "symtable_insert (Some T) key H = Some (Some T', after_insert key H, SYMTAB_OK)" "table_inv (after_insert key H) T'"
    "\<forall>k a. entry (after_insert key H) (st_items T') k a \<longleftrightarrow> entry H (st_items T) k a \<or> k = key \<and> a = sh_fresh H"
    "names (after_insert key H) (st_items T') \<subseteq> insert key (names H (st_items T))"
    "st_size T \<le> st_size T'" "st_count T' \<le> Suc (st_count T)"
    by (rule insert_ends [OF inv names ends room])
  have "grown (length (key # ns)) T'" using T'(5,6) S by (simp add: grown_def)
  with set_builtin [OF tab T'(1-4)] that show ?thesis by metis
qed

lemma make_variadic_calls:
  assumes tab: "tabled ns T H" and f: "is_fun key (rt, nil, False, ps) T H"
  obtains H' where "calls [make_variadic key] T H T H'" "tabled ns T H'" "is_fun key (rt, nil, True, ps) T H'" "keeps key T H T H'"
proof -
  obtain a it where a: "entry H (st_items T) key a" "sh_items H a = Some it" "has_signature it (rt, nil, False, ps)"
    using f by (auto simp: is_fun_def)
  let ?f = "\<lambda>it. it\<lparr>it_variadic_param := True\<rparr>"
  have k: "keeps_identity ?f" by (simp add: keeps_identity_def)
  have "symtable_search (Some T) key H = Some (Some a, SYMTAB_OK)" using tab a(1) search_entry by (auto simp: tabled_def)
  then have "calls [make_variadic key] T H T (upd_item a ?f H)"
    using a(2) by (auto simp: calls_def make_variadic_def change_item_upd)
  moreover have "tabled ns T (upd_item a ?f H)" by (rule tabled_upd [OF tab a(2) k]) (use tab a(2) in \<open>auto simp: tabled_def labelled_def\<close>)
  moreover have "keeps key T H T (upd_item a ?f H)" by (rule keeps_upd [OF a(1) k])
  moreover have "is_fun key (rt, nil, True, ps) T (upd_item a ?f H)"
    by (rule is_funI [of _ _ _ a "?f it"]) (use a in \<open>simp_all add: entry_upd [OF a(2) k] upd_item_item [OF a(2)]\<close>)
  ultimately show ?thesis using that by blast
qed

section \<open>All built-in functions\<close>

text \<open>
  A table that holds functions of given names and signatures, and calls that take such a table
  with \<open>Q\<close> to another one with \<open>Q'\<close>.
\<close>

definition filled :: "(string \<times> signature) list \<Rightarrow> symtab \<Rightarrow> symheap \<Rightarrow> bool" where
  "filled fs T H \<longleftrightarrow> tabled (map fst fs) T H \<and> (\<forall>(key, sg)\<in>set fs. is_fun key sg T H)"

definition fills :: "table_call list \<Rightarrow> (string \<times> signature) list \<Rightarrow> (symtab \<Rightarrow> bool) \<Rightarrow> (string \<times> signature) list \<Rightarrow> (symtab \<Rightarrow> bool) \<Rightarrow> bool" where
  "fills cs fs Q fs' Q' \<longleftrightarrow> (\<forall>T H. filled fs T H \<and> Q T \<longrightarrow> (\<exists>T' H'. calls cs T H T' H' \<and> filled fs' T' H' \<and> Q' T'))"

lemma filled_Cons:
  assumes "filled fs T H" "key \<notin> fst ` set fs" "tabled (key # map fst fs) T' H'" "is_fun key sg T' H'" "keeps key T H T' H'"
  shows "filled ((key, sg) # fs) T' H'"
proof -
  have "is_fun k g T' H'" if "(k, g) \<in> set fs" for k g
  proof -
    have "k \<noteq> key" using that assms(2) by force
    moreover have "is_fun k g T H" using that assms(1) by (auto simp: filled_def)
    ultimately show ?thesis using assms(5) unfolding keeps_def by blast
  qed
  with assms(3,4) show ?thesis by (auto simp: filled_def)
qed

definition adds :: "string \<Rightarrow> string list \<Rightarrow> (symtab \<Rightarrow> bool) \<Rightarrow> (symtab \<Rightarrow> bool) \<Rightarrow> bool" where
  "adds key ns Q Q' \<longleftrightarrow> (\<forall>rt nil T H. tabled ns T H \<and> Q T \<longrightarrow>
     (\<exists>T' H'. calls (SET_BUILTIN key rt nil) T H T' H' \<and> tabled (key # ns) T' H' \<and> is_fun key (rt, nil, False, []) T' H' \<and>
        keeps key T H T' H' \<and> Q' T'))"

lemma fills_append: "fills fs ns Q ns1 Q1 \<Longrightarrow> fills gs ns1 Q1 ns2 Q2 \<Longrightarrow> fills (fs @ gs) ns Q ns2 Q2"
  unfolding fills_def using calls_append by metis

lemma adds_home:
  assumes "home key 11 \<notin> S" "key \<notin> set ns" "length ns < 7"
  shows "adds key ns (homes S (length ns)) (homes (insert (home key 11) S) (length (key # ns)))"
  unfolding adds_def
proof (intro allI impI, elim conjE)
  fix rt nil T H
  assume t: "tabled ns T H" "homes S (length ns) T"
  show "\<exists>T' H'. calls (SET_BUILTIN key rt nil) T H T' H' \<and> tabled (key # ns) T' H' \<and> is_fun key (rt, nil, False, []) T' H' \<and> keeps key T H T' H' \<and>
      homes (insert (home key 11) S) (length (key # ns)) T'"
    by (rule set_builtin_home [OF t assms]) blast
qed

lemma adds_grow:
  assumes "home key 11 \<notin> S" "key \<notin> set ns" "length ns = 7"
  shows "adds key ns (homes S (length ns)) (grown (length (key # ns)))"
  unfolding adds_def
proof (intro allI impI, elim conjE)
  fix rt nil T H
  assume t: "tabled ns T H" "homes S (length ns) T"
  show "\<exists>T' H'. calls (SET_BUILTIN key rt nil) T H T' H' \<and> tabled (key # ns) T' H' \<and> is_fun key (rt, nil, False, []) T' H' \<and> keeps key T H T' H' \<and>
      grown (length (key # ns)) T'"
    by (rule set_builtin_grow [OF t assms]) blast
qed

lemma adds_late:
  assumes "key \<notin> set ns" "length ns < 12"
  shows "adds key ns (grown (length ns)) (grown (length (key # ns)))"
  unfolding adds_def
proof (intro allI impI, elim conjE)
  fix rt nil T H
  assume t: "tabled ns T H" "grown (length ns) T"
  show "\<exists>T' H'. calls (SET_BUILTIN key rt nil) T H T' H' \<and> tabled (key # ns) T' H' \<and> is_fun key (rt, nil, False, []) T' H' \<and> keeps key T H T' H' \<and>
      grown (length (key # ns)) T'"
    by (rule set_builtin_late [OF t assms]) blast
qed

text \<open>A function with its parameters, and the variadic function.\<close>

fun params_calls :: "string \<Rightarrow> (string \<times> string \<times> ty) list \<Rightarrow> table_call list" where
  "params_calls key [] = []"
| "params_calls key ((label, name, ty) # ps) = ADD_BUILTIN_PARAM key label name ty False @ params_calls key ps"

lemma params_calls_fun:
  assumes "calls fs T0 H0 T H" "tabled ns T H" "is_fun key (rt, nil, variadic, qs) T H" "distinct (map (fst \<circ> snd) (qs @ ps))"
  shows "\<exists>H'. calls (fs @ params_calls key ps) T0 H0 T H' \<and> tabled ns T H' \<and> is_fun key (rt, nil, variadic, qs @ ps) T H' \<and>
    keeps key T H T H'"
  using assms
proof (induction ps arbitrary: fs qs H)
  case Nil
  then show ?case by (auto simp: keeps_def)
next
  case (Cons p ps)
  obtain label name ty where p: "p = (label, name, ty)" by (cases p)
  obtain H1 where H1: "calls (ADD_BUILTIN_PARAM key label name ty False) T H T H1" "tabled ns T H1"
    "is_fun key (rt, nil, variadic, qs @ [p]) T H1" "keeps key T H T H1"
    unfolding p by (rule add_builtin_param [OF Cons.prems(2,3)]) (use Cons.prems(4) p in auto)
  have "\<exists>H'. calls ((fs @ ADD_BUILTIN_PARAM key label name ty False) @ params_calls key ps) T0 H0 T H' \<and> tabled ns T H' \<and>
      is_fun key (rt, nil, variadic, (qs @ [p]) @ ps) T H' \<and> keeps key T H1 T H'"
    by (rule Cons.IH [OF calls_append [OF Cons.prems(1) H1(1)] H1(2,3)]) (use Cons.prems(4) p in auto)
  with H1(4) show ?case using keeps_trans by (auto simp: p)
qed

lemma fills_fun:
  assumes "adds key (map fst fs) Q Q'" "key \<notin> fst ` set fs" "distinct (map (fst \<circ> snd) ps)"
  shows "fills (SET_BUILTIN key rt nil @ params_calls key ps) fs Q ((key, rt, nil, False, ps) # fs) Q'"
  unfolding fills_def
proof (intro allI impI)
  fix T H
  assume fl: "filled fs T H \<and> Q T"
  then obtain T' H' where T': "calls (SET_BUILTIN key rt nil) T H T' H'" "tabled (key # map fst fs) T' H'"
    "is_fun key (rt, nil, False, []) T' H'" "keeps key T H T' H'" "Q' T'"
    using assms(1) unfolding adds_def filled_def by blast
  obtain H2 where "calls (SET_BUILTIN key rt nil @ params_calls key ps) T H T' H2" "tabled (key # map fst fs) T' H2"
    "is_fun key (rt, nil, False, ps) T' H2" "keeps key T' H' T' H2"
    using params_calls_fun [OF T'(1-3), of ps] assms(3) by auto
  then show "\<exists>T' H'. calls (SET_BUILTIN key rt nil @ params_calls key ps) T H T' H' \<and>
      filled ((key, rt, nil, False, ps) # fs) T' H' \<and> Q' T'"
    using filled_Cons [of fs T H] fl assms(2) keeps_trans [OF T'(4)] T'(5) by blast
qed

lemma fills_variadic:
  assumes "adds key (map fst fs) Q Q'" "key \<notin> fst ` set fs" "distinct (map (fst \<circ> snd) ps)"
  shows "fills (SET_BUILTIN key rt nil @ [make_variadic key] @ params_calls key ps) fs Q ((key, rt, nil, True, ps) # fs) Q'"
  unfolding fills_def
proof (intro allI impI)
  fix T H
  assume fl: "filled fs T H \<and> Q T"
  then obtain T' H' where T': "calls (SET_BUILTIN key rt nil) T H T' H'" "tabled (key # map fst fs) T' H'"
    "is_fun key (rt, nil, False, []) T' H'" "keeps key T H T' H'" "Q' T'"
    using assms(1) unfolding adds_def filled_def by blast
  obtain H1 where H1: "calls [make_variadic key] T' H' T' H1" "tabled (key # map fst fs) T' H1"
    "is_fun key (rt, nil, True, []) T' H1" "keeps key T' H' T' H1"
    by (rule make_variadic_calls [OF T'(2,3)])
  obtain H2 where "calls ((SET_BUILTIN key rt nil @ [make_variadic key]) @ params_calls key ps) T H T' H2"
    "tabled (key # map fst fs) T' H2" "is_fun key (rt, nil, True, ps) T' H2" "keeps key T' H1 T' H2"
    using params_calls_fun [OF calls_append [OF T'(1) H1(1)] H1(2,3), of ps] assms(3) by auto
  then show "\<exists>T' H'. calls (SET_BUILTIN key rt nil @ [make_variadic key] @ params_calls key ps) T H T' H' \<and>
      filled ((key, rt, nil, True, ps) # fs) T' H' \<and> Q' T'"
    using filled_Cons [of fs T H] fl assms(2) keeps_trans [OF T'(4) keeps_trans [OF H1(4)]] T'(5)
    by (simp del: append.append_Cons append.append_Nil) blast
qed

text \<open>The signatures of the built-in functions, the last one first.\<close>

definition builtin_functions :: "(string \<times> signature) list" where
  "builtin_functions =
     [(''chr'', T_string, False, False, [(''_'', ''i'', T_integer)]),
      (''ord'', T_integer, False, False, [(''_'', ''c'', T_string)]),
      (''substring'', T_string, True, False,
        [(''of'', ''s'', T_string), (''startingAt'', ''i'', T_integer), (''endingBefore'', ''j'', T_integer)]),
      (''length'', T_integer, False, False, [(''_'', ''s'', T_string)]),
      (''Double2Int'', T_integer, False, False, [(''_'', ''term'', T_double)]),
      (''Int2Double'', T_double, False, False, [(''_'', ''term'', T_integer)]),
      (''write'', T_nil, False, True, [(''_'', ''_'', T_undefined)]),
      (''readDouble'', T_double, True, False, []),
      (''readInt'', T_integer, True, False, []),
      (''readString'', T_string, True, False, [])]"

definition builtin_names :: "string list" where
  "builtin_names = [''chr'', ''ord'', ''substring'', ''length'', ''Double2Int'', ''Int2Double'', ''write'', ''readDouble'',
     ''readInt'', ''readString'']"

lemma builtin_functions_names: "map fst builtin_functions = builtin_names"
  by (simp add: builtin_functions_def builtin_names_def)

lemma builtin_calls_params:
  "builtin_calls =
     (SET_BUILTIN ''readString'' T_string True @ params_calls ''readString'' []) @
     (SET_BUILTIN ''readInt'' T_integer True @ params_calls ''readInt'' []) @
     (SET_BUILTIN ''readDouble'' T_double True @ params_calls ''readDouble'' []) @
     (SET_BUILTIN ''write'' T_nil False @ [make_variadic ''write''] @ params_calls ''write'' [(''_'', ''_'', T_undefined)]) @
     (SET_BUILTIN ''Int2Double'' T_double False @ params_calls ''Int2Double'' [(''_'', ''term'', T_integer)]) @
     (SET_BUILTIN ''Double2Int'' T_integer False @ params_calls ''Double2Int'' [(''_'', ''term'', T_double)]) @
     (SET_BUILTIN ''length'' T_integer False @ params_calls ''length'' [(''_'', ''s'', T_string)]) @
     (SET_BUILTIN ''substring'' T_string True @ params_calls ''substring''
        [(''of'', ''s'', T_string), (''startingAt'', ''i'', T_integer), (''endingBefore'', ''j'', T_integer)]) @
     (SET_BUILTIN ''ord'' T_integer False @ params_calls ''ord'' [(''_'', ''c'', T_string)]) @
     (SET_BUILTIN ''chr'' T_string False @ params_calls ''chr'' [(''_'', ''i'', T_integer)])"
  by (simp add: builtin_calls_def)

lemma adds_next:
  assumes "home key 11 = h" "h \<notin> S" "key \<notin> set ns" "length ns = n"
  shows "n < 7 \<Longrightarrow> adds key ns (homes S n) (homes (insert h S) (Suc n))" "n = 7 \<Longrightarrow> adds key ns (homes S n) (grown (Suc n))"
  using adds_home [of key S ns] adds_grow [of key S ns] assms by simp_all

lemma adds_more: "key \<notin> set ns \<Longrightarrow> length ns = n \<Longrightarrow> n < 12 \<Longrightarrow> adds key ns (grown n) (grown (Suc n))"
  using adds_late [of key ns] by simp

lemma builtins_fill: "fills builtin_calls [] (homes {} 0) builtin_functions (grown 10)"
proof -
  note at_home = fills_append [OF fills_fun [OF adds_next(1) [OF builtin_homes(1)]]] fills_append [OF fills_fun [OF adds_next(1) [OF builtin_homes(2)]]]
    fills_append [OF fills_fun [OF adds_next(1) [OF builtin_homes(3)]]] fills_append [OF fills_variadic [OF adds_next(1) [OF builtin_homes(4)]]]
    fills_append [OF fills_fun [OF adds_next(1) [OF builtin_homes(5)]]] fills_append [OF fills_fun [OF adds_next(1) [OF builtin_homes(6)]]]
    fills_append [OF fills_fun [OF adds_next(1) [OF builtin_homes(7)]]] fills_append [OF fills_fun [OF adds_next(2) [OF builtin_homes(8)]]]
  note last = fills_append [OF fills_fun [OF adds_more] fills_fun [OF adds_more]]
  note all = at_home(8) [OF _ _ _ _ _ _ last]
  have "fills builtin_calls [] (homes {} 0) builtin_functions (grown (Suc (Suc (Suc (Suc (Suc (Suc (Suc (Suc (Suc (Suc 0)))))))))))"
    unfolding builtin_calls_params builtin_functions_def
    by (rule at_home(1) [OF _ _ _ _ _ _ at_home(2) [OF _ _ _ _ _ _ at_home(3) [OF _ _ _ _ _ _ at_home(4) [OF _ _ _ _ _ _
          at_home(5) [OF _ _ _ _ _ _ at_home(6) [OF _ _ _ _ _ _ at_home(7) [OF _ _ _ _ _ _ all]]]]]]])
      simp_all
  then show ?thesis by (simp add: eval_nat_numeral)
qed

lemma add_builtins_ok:
  assumes "global_symtab P = fresh_table" "p_heap P = fresh_heap"
  obtains T H where "add_builtins P = Some (True, P\<lparr>global_symtab := T, p_heap := H\<rparr>)" "filled builtin_functions T H"
    "tabled builtin_names T H" "grown 10 T"
proof -
  have "filled [] fresh_table fresh_heap"
    using fresh_wf by (simp add: filled_def tabled_def table_inv_def fresh_id labelled_def) (simp add: fresh_heap_def symheap_init_def)
  moreover have "homes {} 0 fresh_table" by (simp add: homes_def fresh_table_def nth_replicate del: replicate_Suc)
  ultimately obtain T H where T: "calls builtin_calls fresh_table fresh_heap T H" "filled builtin_functions T H" "grown 10 T"
    using builtins_fill unfolding fills_def by blast
  moreover have "tabled builtin_names T H" using T(2) by (simp add: filled_def builtin_functions_names)
  ultimately show ?thesis using that [of H T] assms by (simp add: add_builtins_def calls_def)
qed

end
