(* ===== verification/Lexer_Safety.thy ===== *)
theory Lexer_Safety
  imports Lexer
begin

text \<open>
  With enough memory no state function of the automaton ever does anything undefined: the
  invariant \<open>lex_wf\<close> says what each state may rely on, every step establishes it for the
  next state, and so \<open>get_token\<close> returns on every input.
\<close>

section \<open>Character classes\<close>

lemma is_number_dec: "is_number ch = is_dec ch"
proof -
  have "\<forall>ch. is_number ch = is_dec ch" by code_simp
  then show ?thesis ..
qed

lemma is_dec_not: "is_dec ch \<Longrightarrow> ch \<noteq> CHR ''.'' \<and> ch \<noteq> CHR ''e'' \<and> ch \<noteq> CHR ''E'' \<and>
    ch \<noteq> CHR ''+'' \<and> ch \<noteq> CHR ''-'' \<and> ch \<noteq> NUL"
  by (auto simp: is_dec_def)

section \<open>The string operations without memory limits\<close>

lemma wp_when_ok [wp_simps]:
  "wp P (when_ok r f) = wp (\<lambda>(ok, L). (ok \<longrightarrow> wp P (f L)) \<and> (\<not> ok \<longrightarrow> P L)) r"
  by (cases r) (auto simp: when_ok_def wp_def)

definition mem_ok :: "lexer \<Rightarrow> bool" where
  "mem_ok L \<longleftrightarrow> lex_budget L = None \<and> \<not> malloc_error L \<and> ds_wf (tmp_string L)"

lemma wp_append_read:
  assumes "mem_ok L" "ds_wf (read_string L)"
    and "\<And>L1. same_io L L1 \<Longrightarrow> mem_ok L1 \<Longrightarrow> tmp_string L1 = tmp_string L \<Longrightarrow>
      ds_wf (read_string L1) \<Longrightarrow> ds_abs (read_string L1) = ds_abs (read_string L) @ [ch] \<Longrightarrow>
      P (True, L1)"
  shows "wp P (append_read ch L)"
proof -
  from assms(1) have b: "lex_budget L = None" by (simp add: mem_ok_def)
  obtain d where d: "dstring_append (read_string L) ch None = Some (True, d, None)" "ds_wf d"
    "ds_abs d = ds_abs (read_string L) @ [ch]"
    by (rule ds.app_None [OF assms(2)])
  have "P (True, L\<lparr>read_string := d, lex_budget := None\<rparr>)"
    by (rule assms(3)) (use assms(1) d in \<open>simp_all add: same_io_def mem_ok_def\<close>)
  then show ?thesis by (simp add: append_read_def wp_simps b d(1))
qed

lemma wp_append_tmp:
  assumes "mem_ok L"
    and "\<And>L1. same_io L L1 \<Longrightarrow> mem_ok L1 \<Longrightarrow> read_string L1 = read_string L \<Longrightarrow>
      ds_abs (tmp_string L1) = ds_abs (tmp_string L) @ [ch] \<Longrightarrow> P (True, L1)"
  shows "wp P (append_tmp ch L)"
proof -
  from assms(1) have b: "lex_budget L = None" and t: "ds_wf (tmp_string L)"
    by (simp_all add: mem_ok_def)
  obtain d where d: "dstring_append (tmp_string L) ch None = Some (True, d, None)" "ds_wf d"
    "ds_abs d = ds_abs (tmp_string L) @ [ch]"
    by (rule ds.app_None [OF t])
  have "P (True, L\<lparr>tmp_string := d, lex_budget := None\<rparr>)"
    by (rule assms(2)) (use assms(1) d in \<open>simp_all add: same_io_def mem_ok_def\<close>)
  then show ?thesis by (simp add: append_tmp_def wp_simps b d(1))
qed

lemma wp_retract:
  assumes "ds_wf d" "1 \<le> length (ds_abs d)"
    and "\<And>d'. ds_wf d' \<Longrightarrow> ds_abs d' = butlast (ds_abs d) \<Longrightarrow> P d'"
  shows "wp P (dstring_retract d 1)"
proof -
  have l: "ds_length d = length (ds_abs d)" using assms(1) by (elim ds_wfE) simp
  with assms(2) have "1 \<le> ds_length d" by simp
  from dstring_retract_wf [OF assms(1) this] obtain d' where
    "dstring_retract d (int 1) = Some d'" "ds_wf d'" "ds_abs d' = take (ds_length d - 1) (ds_abs d)" .
  then show ?thesis using assms(3) [of d'] l by (simp add: wp_simps butlast_conv_take)
qed

lemma wp_clear:
  "ds_wf d \<Longrightarrow> (\<And>d'. ds_wf d' \<Longrightarrow> ds_abs d' = [] \<Longrightarrow> P d') \<Longrightarrow> wp P (dstring_clear d)"
  by (metis dstring_clear_wf wp_control(1))

lemma wp_c_string_wf: "ds_wf d \<Longrightarrow> P (cstr (ds_abs d)) \<Longrightarrow> wp P (c_string (ds_str d))"
  by (simp add: ds_wf_c_string wp_simps)

lemma dstring_free_wf: "ds_wf d \<Longrightarrow> \<exists>d'. dstring_free d = Some d'"
  by (metis bind.bind_lunit dstring_clear_wf dstring_free_def)

lemma wp_keyword_loop: "ds_wf d \<Longrightarrow> (\<And>ty. P ty) \<Longrightarrow> wp P (keyword_loop ks d ty)"
  by (induction ks d ty rule: keyword_loop.induct)
    (simp_all add: wp_simps dstring_cmp_const_str_wf)

lemma wp_data_type_loop: "ds_wf d \<Longrightarrow> (\<And>ty. P ty) \<Longrightarrow> wp P (data_type_loop ks d)"
  by (induction ks d rule: data_type_loop.induct)
    (simp_all add: wp_simps dstring_cmp_const_str_wf)

section \<open>Hexadecimal escapes\<close>

lemma ds_load: "ds_wf d \<Longrightarrow> i < ds_length d \<Longrightarrow> load (ds_str d) i = Some (ds_abs d ! i)"
  by (elim ds_wfE) (simp add: load_def nth_append)

lemma hexa_loop_defined:
  "ds_wf d \<Longrightarrow> \<forall>i\<in>set js. i < ds_length d \<Longrightarrow> \<exists>w. hexa_loop (ds_str d) js tmp = Some w"
  by (induction js arbitrary: tmp) (simp_all add: ds_load Let_def)

lemma wp_hexa_to_dec:
  assumes "ds_wf d" "\<And>ch. P ch"
  shows "wp P (hexa_to_dec d)"
proof -
  let ?js = "[(if ds_length d > 1 then ds_length d - 2 else 0)..<ds_length d]"
  obtain w where "hexa_loop (ds_str d) ?js 0 = Some w"
    using hexa_loop_defined [OF assms(1), of ?js 0] by auto
  then show ?thesis by (simp add: hexa_to_dec_def dstring_to_str_def wp_simps assms(2) Let_def)
qed

section \<open>Indentation\<close>

lemma indent_collect_defined:
  assumes "ds_wf rs" "i \<le> ds_length rs" "ds_wf indent"
  shows "\<exists>d. indent_collect (ds_str rs) i indent None = Some (True, d, None) \<and> ds_wf d"
  using assms(2,3)
proof (induction i arbitrary: indent)
  case 0
  then show ?case by simp
next
  case (Suc i)
  obtain d where "dstring_append indent (ds_abs rs ! i) None = Some (True, d, None)" "ds_wf d"
    by (rule ds.app_None [OF Suc.prems(2)])
  then show ?case using Suc.IH [of d] Suc.prems by (simp add: ds_load [OF assms(1)])
qed

lemma indent_for_iter_defined:
  assumes "ds_wf rs"
  shows "\<exists>n. indent_for_iter rs indent = Some n \<and> n \<le> ds_length rs"
proof (cases "ds_length rs \<ge> ds_length indent + 4")
  case True
  then show ?thesis using ds_load [OF assms] by (auto simp: indent_for_iter_def Let_def)
qed (simp add: indent_for_iter_def)

lemma indent_copy_defined:
  assumes "ds_wf rs" "ds_wf indent" "\<forall>i\<in>set js. i < ds_length rs" "ds_wf result"
  shows "\<exists>status d. indent_copy (ds_str rs) js pos indent result None = Some (status, d, None) \<and>
           ds_wf d \<and> status \<noteq> indentation_memory_fail"
  using assms(3,4)
proof (induction js arbitrary: pos result)
  case Nil
  then show ?case by simp
next
  case (Cons i js)
  obtain d where "dstring_append result (ds_abs rs ! i) None = Some (True, d, None)" "ds_wf d"
    by (rule ds.app_None [OF Cons.prems(2)])
  then show ?case
    using Cons.IH [of d] Cons.IH [of result] Cons.prems
    by (auto simp: ds_load [OF assms(1)] ds_load [OF assms(2)])
qed

text \<open>Without the restriction to NUL-free sources, a copy is at least a C string again.\<close>

lemma length_cstr_le: "length (cstr s) \<le> length s"
  by (simp add: cstr_def length_takeWhile_le)

lemma dstring_copy_defined:
  assumes "ds_wf src" "ds_wf dst"
  shows "\<exists>d. dstring_copy src dst None = Some (True, d, None) \<and>
           c_string (ds_str d) = Some (cstr (ds_abs src))"
proof -
  have l: "length (cstr (ds_abs src)) \<le> ds_length src"
    using assms(1) length_cstr_le by (elim ds_wfE) simp
  let ?d = "if ds_length src \<ge> ds_alloc_size dst then ds_grow (ds_length src + 1) dst else dst"
  have len: "length (ds_str ?d) = ds_alloc_size ?d" "ds_length src < ds_alloc_size ?d"
    using assms(2) by (auto simp: ds_grow_def ds_wf_def)
  let ?s = "map Some (cstr (ds_abs src)) @ Some NUL # drop (Suc (length (cstr (ds_abs src)))) (ds_str ?d)"
  have "c_strcpy (ds_str ?d) (cstr (ds_abs src)) = Some ?s"
    unfolding c_strcpy_def by (subst store_all_ok) (use l len in simp_all)
  moreover have "c_string ?s = Some (cstr (ds_abs src))"
    using c_string_written [OF refl] by simp
  ultimately show ?thesis
    using ds_wf_c_string [OF assms(1)] by (auto simp: dstring_copy_def ds_grow_def Let_def)
qed

lemma wp_indentation_perform:
  assumes "ds_wf rs" "3 \<le> ds_length rs"
    and "\<And>d t. c_string (ds_str d) = Some t \<Longrightarrow> P (indentation_ok, d, None)"
    and "P (indentation_fail, rs, None)"
  shows "wp P (indentation_perform rs None)"
proof -
  obtain e where e: "dstring_init no_dstring None = Some (True, e, None)" "ds_wf e"
    by (rule ds.init_None)
  have z: "to_size_t (int (ds_length rs) - 3) = ds_length rs - 3"
    using to_size_t_diff [OF assms(2)] by simp
  obtain d where d: "indent_collect (ds_str rs) (ds_length rs - 3) e None = Some (True, d, None)" "ds_wf d"
    using indent_collect_defined [OF assms(1) _ e(2), of "ds_length rs - 3"] by auto
  obtain n where n: "indent_for_iter rs d = Some n" "n \<le> ds_length rs"
    using indent_for_iter_defined [OF assms(1)] by blast
  obtain st res where c: "indent_copy (ds_str rs) [0..<n] 0 d e None = Some (st, res, None)"
    and res: "ds_wf res" "st \<noteq> indentation_memory_fail"
    using indent_copy_defined [OF assms(1) d(2) _ e(2), of "[0..<n]" 0] n(2) by auto
  obtain f1 f2 where f: "dstring_free d = Some f1" "dstring_free res = Some f2"
    using dstring_free_wf d(2) res(1) by blast
  obtain rc where rc: "dstring_clear rs = Some rc" "ds_wf rc"
    using dstring_clear_wf [OF assms(1)] by blast
  obtain cp where cp: "dstring_copy res rc None = Some (True, cp, None)"
    "c_string (ds_str cp) = Some (cstr (ds_abs res))"
    using dstring_copy_defined [OF res(1) rc(2)] by blast
  show ?thesis
    using assms(3) [OF cp(2)] assms(4) res(2)
    by (cases st) (simp_all add: indentation_perform_def e(1) z d(1) n(1) c f rc(1) cp(1) wp_simps)
qed

section \<open>Number literals\<close>

text \<open>
  What the number states have read: digits, a mantissa (digits with an optional fraction),
  a mantissa with the letter of an exponent, its sign, its digits.
\<close>

definition digits :: "string \<Rightarrow> bool" where
  "digits s \<longleftrightarrow> s \<noteq> [] \<and> (\<forall>ch\<in>set s. is_dec ch)"

definition mantissa :: "string \<Rightarrow> string \<Rightarrow> bool" where
  "mantissa ip fp \<longleftrightarrow> digits ip \<and> (fp = [] \<or> (\<exists>ds. fp = CHR ''.'' # ds \<and> digits ds))"

definition exp_prefix :: "string \<Rightarrow> string \<Rightarrow> bool" where
  "exp_prefix s r \<longleftrightarrow> (\<exists>ip fp e. mantissa ip fp \<and> (e = CHR ''e'' \<or> e = CHR ''E'') \<and> s = ip @ fp @ e # r)"

definition exp_sign :: "string \<Rightarrow> bool" where
  "exp_sign g \<longleftrightarrow> g = [] \<or> g = ''+'' \<or> g = ''-''"

lemma takeWhile_digits:
  "\<forall>ch\<in>set s. is_dec ch \<Longrightarrow> t = [] \<or> \<not> is_dec (hd t) \<Longrightarrow>
   takeWhile is_dec (s @ t) = s \<and> dropWhile is_dec (s @ t) = t"
  by (cases t) (auto simp: takeWhile_append dropWhile_append)

lemma digits_ne: "digits s \<Longrightarrow> s \<noteq> [] \<and> is_dec (hd s)"
  by (cases s) (simp_all add: digits_def)

lemma strtod_exponent_rest:
  assumes "e = CHR ''e'' \<or> e = CHR ''E''" "exp_sign g" "digits ds" "t = [] \<or> \<not> is_dec (hd t)"
  shows "snd (strtod_exponent (e # g @ ds @ t)) = t"
proof -
  have tw: "takeWhile is_dec (ds @ t) = ds" "dropWhile is_dec (ds @ t) = t"
    using takeWhile_digits [of ds t] assms(3,4) by (simp_all add: digits_def)
  obtain d ds' where ds: "ds = d # ds'" "is_dec d"
    using digits_ne [OF assms(3)] by (cases ds) auto
  have n: "d \<noteq> CHR ''+''" "d \<noteq> CHR ''-''" using is_dec_not [OF ds(2)] by simp_all
  have ne: "ds \<noteq> []" using ds(1) by simp
  from assms(2) consider "g = []" | "g = ''+''" | "g = ''-''" by (auto simp: exp_sign_def)
  then show ?thesis
    using assms(1) tw ne n ds(1)
    by cases (auto simp: strtod_exponent_def Let_def)
qed

lemma strtod_rest:
  assumes "exp_prefix s (g @ ds)" "exp_sign g" "digits ds" "t = [] \<or> \<not> is_dec (hd t)"
  shows "snd (strtod (s @ t)) = t"
proof -
  obtain ip fp e where m: "mantissa ip fp" and e: "e = CHR ''e'' \<or> e = CHR ''E''"
    and s: "s = ip @ fp @ e # g @ ds" using assms(1) by (auto simp: exp_prefix_def)
  note r = strtod_exponent_rest [OF e assms(2-4)]
  have ip: "\<forall>ch\<in>set ip. is_dec ch" "ip \<noteq> []" using m by (simp_all add: mantissa_def digits_def)
  have en: "\<not> is_dec e" "e \<noteq> CHR ''.''" using e by (auto simp: is_dec_def)
  show ?thesis
  proof (cases fp)
    case Nil
    have "takeWhile is_dec (ip @ (e # g @ ds @ t)) = ip \<and>
        dropWhile is_dec (ip @ (e # g @ ds @ t)) = e # g @ ds @ t"
      by (rule takeWhile_digits) (use ip en in auto)
    then show ?thesis
      using r ip en by (cases "strtod_exponent (e # g @ ds @ t)") (simp add: strtod_def s Nil Let_def)
  next
    case (Cons c fs)
    then have c: "c = CHR ''.''" and fs: "\<forall>ch\<in>set fs. is_dec ch"
      using m by (auto simp: mantissa_def digits_def)
    have "takeWhile is_dec (ip @ (c # fs @ e # g @ ds @ t)) = ip \<and>
        dropWhile is_dec (ip @ (c # fs @ e # g @ ds @ t)) = c # fs @ e # g @ ds @ t"
      by (rule takeWhile_digits) (use ip c in \<open>auto simp: is_dec_def\<close>)
    moreover have "takeWhile is_dec (fs @ (e # g @ ds @ t)) = fs \<and>
        dropWhile is_dec (fs @ (e # g @ ds @ t)) = e # g @ ds @ t"
      by (rule takeWhile_digits) (use fs en in auto)
    ultimately show ?thesis
      using r ip c
      by (cases "strtod_exponent (e # g @ ds @ t)") (simp add: strtod_def s Cons Let_def)
  qed
qed

lemma digits_NUL: "digits s \<Longrightarrow> NUL \<notin> set s"
  using is_dec_not by (auto simp: digits_def)

lemma mantissa_NUL: "mantissa ip fp \<Longrightarrow> NUL \<notin> set (ip @ fp)"
  using digits_NUL by (auto simp: mantissa_def)

lemma exp_prefix_NUL:
  assumes "exp_prefix s (g @ ds)" "exp_sign g" "digits ds"
  shows "NUL \<notin> set s"
proof -
  have "NUL \<notin> set (g @ ds)" using assms(2) digits_NUL [OF assms(3)] by (auto simp: exp_sign_def)
  then show ?thesis using assms(1) mantissa_NUL by (fastforce simp: exp_prefix_def)
qed

lemma atof_Nil: "atof [] = Fin 0 0"
  by (simp add: atof_def strtod_def strtod_exponent_def)

text \<open>
  Reading the exponent twice is harmless: what \<open>strtod\<close> leaves is only the character that
  ended the literal, and behind it the string ends.
\<close>

lemma exp_value_defined:
  assumes "ds_wf d" "ds_abs d = s @ [ch]" "\<not> is_dec ch"
    "exp_prefix s (g @ ds)" "exp_sign g" "digits ds"
  shows "exp_value (ds_str d) = Some (fst (strtod (if ch = NUL then s else s @ [ch])))"
proof -
  from assms(1) obtain r where r: "ds_str d = map Some (s @ [ch]) @ Some NUL # r"
    by (elim ds_wfE) (simp add: assms(2))
  have nul: "NUL \<notin> set s" by (rule exp_prefix_NUL [OF assms(4-6)])
  define t where "t = (if ch = NUL then [] else [ch])"
  have cs: "c_string (ds_str d) = Some (s @ t)"
    using ds_wf_c_string [OF assms(1)] nul by (simp add: assms(2) cstr_def t_def takeWhile_append)
  have "snd (strtod (s @ t)) = t"
    by (rule strtod_rest [OF assms(4-6)]) (simp add: assms(3) t_def)
  then obtain v where v: "strtod (s @ t) = (v, t)"
    by (cases "strtod (s @ t)") simp
  have "drop (Suc (length s)) (ds_str d) = Some NUL # r" by (simp add: r)
  then have "exp_value (ds_str d) = Some v"
    by (simp add: exp_value_def cs v atof_Nil dbl_is_zero_def)
  moreover have "(if ch = NUL then s else s @ [ch]) = s @ t" by (simp add: t_def)
  ultimately show ?thesis by (simp only: v fst_conv)
qed

section \<open>The invariant of the automaton\<close>

fun state_inv :: "lstate \<Rightarrow> string \<Rightarrow> bool" where
  "state_inv S_start s = (s = [])"
| "state_inv S_div s = (s = [])"
| "state_inv S_line_c s = (s = [])"
| "state_inv S_block_c s = (s = [])"
| "state_inv S_block_c_end_q s = (s = [])"
| "state_inv S_block_c_start_q s = (s = [])"
| "state_inv S_int s = digits s"
| "state_inv S_dbl_s s = (\<exists>ip. digits ip \<and> s = ip @ ''.'')"
| "state_inv S_dbl s = (\<exists>ip fp. mantissa ip fp \<and> fp \<noteq> [] \<and> s = ip @ fp)"
| "state_inv S_exp_s s = exp_prefix s []"
| "state_inv S_exp_sign s = (\<exists>g. exp_sign g \<and> exp_prefix s g)"
| "state_inv S_exp s = (\<exists>g ds. exp_sign g \<and> digits ds \<and> exp_prefix s (g @ ds))"
| "state_inv S_m_string_hexa_q s = (s \<noteq> [])"
| "state_inv S_m_string_hexa s = (s \<noteq> [])"
| "state_inv S_string_hexa_q s = (s \<noteq> [])"
| "state_inv S_string_hexa s = (s \<noteq> [])"
| "state_inv S_m_string_end1 s = (s \<noteq> [])"
| "state_inv S_m_string_end2 s = (2 \<le> length s)"
| "state_inv _ s = True"

text \<open>
  After indentation a string with an embedded NUL is only a C string, no longer a
  well-formed dynamic string; \<open>string_end\<close>, which alone follows, needs no more.
\<close>

definition read_inv :: "lstate \<Rightarrow> lexer \<Rightarrow> bool" where
  "read_inv S L \<longleftrightarrow>
     (if S = S_string_end then \<exists>t. c_string (ds_str (read_string L)) = Some t
      else ds_wf (read_string L) \<and> state_inv S (ds_abs (read_string L)))"

definition step_post :: "char \<Rightarrow> lexer \<Rightarrow> bool" where
  "step_post ch L \<longleftrightarrow> mem_ok L \<and>
     (case actual_state L of
        None \<Rightarrow> tok_type (actual_token L) = TOKEN_STRING \<or> ds_wf (read_string L)
      | Some S \<Rightarrow> read_inv S L \<and> (ch = EOF \<longrightarrow> S \<noteq> S_string_end))"

lemma digits_snoc: "digits s \<Longrightarrow> is_dec ch \<Longrightarrow> digits (s @ [ch])"
  by (auto simp: digits_def)

lemma mantissa_snoc: "mantissa ip fp \<Longrightarrow> fp \<noteq> [] \<Longrightarrow> is_dec ch \<Longrightarrow> mantissa ip (fp @ [ch])"
  by (auto simp: mantissa_def digits_snoc)

lemma exp_prefix_snoc: "exp_prefix s r \<Longrightarrow> exp_prefix (s @ [ch]) (r @ [ch])"
  by (auto simp: exp_prefix_def)

lemma mem_ok_upd [simp]:
  "mem_ok (L\<lparr>actual_state := a\<rparr>) = mem_ok L"
  "mem_ok (L\<lparr>is_final := b\<rparr>) = mem_ok L"
  "mem_ok (L\<lparr>set_eol := b\<rparr>) = mem_ok L"
  "mem_ok (L\<lparr>unread := u\<rparr>) = mem_ok L"
  "mem_ok (L\<lparr>actual_token := t\<rparr>) = mem_ok L"
  "mem_ok (L\<lparr>open_comments := n\<rparr>) = mem_ok L"
  "mem_ok (L\<lparr>hexa_string := n\<rparr>) = mem_ok L"
  "mem_ok (L\<lparr>read_string := d\<rparr>) = mem_ok L"
  by (simp_all add: mem_ok_def)

definition simple_state :: "lstate \<Rightarrow> bool" where
  "simple_state S \<longleftrightarrow> S \<in> set [S_start, S_und_scr, S_comma, S_lt, S_leq, S_gt, S_geq, S_not_nil,
     S_neq, S_qm, S_nil_check, S_ass, S_eq, S_col, S_semicol, S_r_bkt, S_l_bkt, S_r_par, S_l_par,
     S_add, S_sub, S_ret_val, S_mul, S_div, S_data_type, S_line_c, S_block_c, S_block_c_end_q,
     S_block_c_start_q, S_string_start, S_empty_string, S_eol_start_q, S_m_string_inner,
     S_m_string_escape, S_m_string_hexa_q, S_eol_end_q, S_m_string_end1, 
     S_string_inner, S_string_escape, S_string_hexa_q]"

lemma step_simple:
  assumes "simple_state S" "mem_ok L" "ds_wf (read_string L)" "state_inv S (ds_abs (read_string L))"
  shows "wp (step_post ch) (lex_step S ch L)"
  using assms
  by (cases S; simp add: simple_state_def;
      simp add: lex_defs lex_helpers wp_simps Let_def step_post_def [abs_def] read_inv_def;
      (intro conjI impI allI wp_append_read;
       (simp add: is_number_dec digits_def wp_simps ds_wf_c_string Suc_le_eq)?)+)

lemma ds_length_abs: "ds_wf d \<Longrightarrow> ds_length d = length (ds_abs d)"
  by (elim ds_wfE) simp

lemma step_text:
  assumes "S \<in> {S_identifier, S_m_string_hexa, S_string_hexa, S_m_string_end2}"
    "mem_ok L" "ds_wf (read_string L)" "state_inv S (ds_abs (read_string L))"
  shows "wp (step_post ch) (lex_step S ch L)"
  using assms
  by (cases S; simp;
      simp add: lex_defs lex_helpers wp_simps Let_def step_post_def [abs_def] read_inv_def;
      (intro conjI impI allI wp_append_read wp_append_tmp wp_retract wp_hexa_to_dec wp_clear
         wp_keyword_loop wp_data_type_loop wp_c_string_wf wp_indentation_perform;
       (simp add: wp_simps ds_wf_c_string Suc_le_eq mem_ok_def ds_length_abs
         split: option.split)?)+)

text \<open>The transitions between the number states, read as a grammar of literals.\<close>

lemma number_text:
  assumes "is_dec ch"
  shows "state_inv S_dbl_s s \<Longrightarrow> state_inv S_dbl (s @ [ch])"
    and "state_inv S_dbl s \<Longrightarrow> state_inv S_dbl (s @ [ch])"
    and "state_inv S_exp_s s \<Longrightarrow> state_inv S_exp (s @ [ch])"
    and "state_inv S_exp_sign s \<Longrightarrow> state_inv S_exp (s @ [ch])"
    and "state_inv S_exp s \<Longrightarrow> state_inv S_exp (s @ [ch])"
proof -
  have d: "digits [ch]" using assms by (simp add: digits_def)
  show "state_inv S_dbl (s @ [ch])" if "state_inv S_dbl_s s"
  proof -
    from that obtain ip where "digits ip" "s = ip @ ''.''" by auto
    then have "mantissa ip (CHR ''.'' # [ch])" "s @ [ch] = ip @ CHR ''.'' # [ch]"
      using d by (simp_all add: mantissa_def)
    then show ?thesis by auto
  qed
  show "state_inv S_dbl (s @ [ch])" if "state_inv S_dbl s"
  proof -
    from that obtain ip fp where "mantissa ip fp" "fp \<noteq> []" "s = ip @ fp" by auto
    then have "mantissa ip (fp @ [ch])" "s @ [ch] = ip @ fp @ [ch]"
      using mantissa_snoc assms by simp_all
    then show ?thesis by auto
  qed
  show "state_inv S_exp (s @ [ch])" if "state_inv S_exp_s s"
  proof -
    have "exp_prefix (s @ [ch]) ([] @ [ch])" "exp_sign []"
      using that exp_prefix_snoc [of s "[]" ch] by (auto simp: exp_sign_def)
    with d show ?thesis unfolding state_inv.simps by blast
  qed
  show "state_inv S_exp (s @ [ch])" if "state_inv S_exp_sign s"
    using that d exp_prefix_snoc unfolding state_inv.simps by blast
  show "state_inv S_exp (s @ [ch])" if "state_inv S_exp s"
  proof -
    from that obtain g ds where "exp_sign g" "digits ds" "exp_prefix s (g @ ds)" by auto
    then have "exp_sign g" "digits (ds @ [ch])" "exp_prefix (s @ [ch]) (g @ ds @ [ch])"
      using digits_snoc [OF _ assms] exp_prefix_snoc [of s "g @ ds"] by simp_all
    then show ?thesis unfolding state_inv.simps by blast
  qed
qed

lemma exponent_text:
  "digits s \<Longrightarrow> state_inv S_dbl_s (s @ ''.'')"
  "digits s \<Longrightarrow> state_inv S_exp_s (s @ ''e'')" "digits s \<Longrightarrow> state_inv S_exp_s (s @ ''E'')"
  "state_inv S_dbl s \<Longrightarrow> state_inv S_exp_s (s @ ''e'')"
  "state_inv S_dbl s \<Longrightarrow> state_inv S_exp_s (s @ ''E'')"
  "state_inv S_exp_s s \<Longrightarrow> state_inv S_exp_sign (s @ ''+'')"
  "state_inv S_exp_s s \<Longrightarrow> state_inv S_exp_sign (s @ ''-'')"
proof -
  have m: "mantissa ip fp \<Longrightarrow> s = ip @ fp \<Longrightarrow> exp_prefix (s @ ''e'') []"
    "mantissa ip fp \<Longrightarrow> s = ip @ fp \<Longrightarrow> exp_prefix (s @ ''E'') []" for ip fp
    by (auto simp: exp_prefix_def)
  show "digits s \<Longrightarrow> state_inv S_exp_s (s @ ''e'')" "digits s \<Longrightarrow> state_inv S_exp_s (s @ ''E'')"
    using m [of s "[]"] by (simp_all add: mantissa_def)
  show "state_inv S_dbl s \<Longrightarrow> state_inv S_exp_s (s @ ''e'')"
    "state_inv S_dbl s \<Longrightarrow> state_inv S_exp_s (s @ ''E'')"
    using m by auto
  show "state_inv S_exp_s s \<Longrightarrow> state_inv S_exp_sign (s @ ''+'')"
    "state_inv S_exp_s s \<Longrightarrow> state_inv S_exp_sign (s @ ''-'')"
    using exp_prefix_snoc [of s "[]"] by (auto simp: exp_sign_def)
qed (simp)

lemma wp_exp_value:
  assumes "ds_wf d" "ds_abs d = s @ [ch]" "\<not> is_dec ch" "state_inv S_exp s" "\<And>v. P v"
  shows "wp P (exp_value (ds_str d))"
  using assms(4) exp_value_defined [OF assms(1-3)] assms(5) by (auto simp: wp_simps)

lemma step_number:
  assumes "S \<in> {S_int, S_dbl_s, S_dbl, S_exp_s, S_exp_sign, S_exp}"
    "mem_ok L" "ds_wf (read_string L)" "state_inv S (ds_abs (read_string L))"
  shows "wp (step_post ch) (lex_step S ch L)"
  using assms
  by (cases S; simp del: state_inv.simps(7-12);
      simp add: lex_defs lex_helpers wp_simps Let_def step_post_def [abs_def] read_inv_def dstring_to_str_def
        del: state_inv.simps(7-12);
      (intro conjI impI allI wp_append_read wp_c_string_wf wp_exp_value;
       (simp add: is_number_dec digits_snoc number_text exponent_text wp_simps del: state_inv.simps(8-12))?)+)

lemma step_string_end:
  assumes "c_string (ds_str (read_string L)) = Some t" "mem_ok L"
  shows "wp (step_post ch) (lex_step S_string_end ch L)"
  using assms by (simp add: lex_defs lex_helpers wp_simps step_post_def [abs_def])

lemma lex_step_safe:
  assumes "mem_ok L" "read_inv S L"
  shows "wp (step_post ch) (lex_step S ch L)"
proof (cases "S = S_string_end")
  case True
  then show ?thesis using assms step_string_end by (auto simp: read_inv_def)
next
  case False
  then have i: "ds_wf (read_string L)" "state_inv S (ds_abs (read_string L))"
    using assms(2) by (simp_all add: read_inv_def)
  have "simple_state S \<or> S \<in> {S_identifier, S_m_string_hexa, S_string_hexa, S_m_string_end2} \<or>
      S \<in> {S_int, S_dbl_s, S_dbl, S_exp_s, S_exp_sign, S_exp}"
    using False by (cases S) (simp_all add: simple_state_def)
  then show ?thesis
    using step_simple [OF _ assms(1) i] step_text [OF _ assms(1) i] step_number [OF _ assms(1) i]
    by blast
qed

section \<open>The whole scanner\<close>

lemma lex_read_same:
  assumes "lex_read L = (read, L1)"
  shows "read_string L1 = read_string L" "mem_ok L1 = mem_ok L"
  using assms by (auto simp: lex_read_def mem_ok_def Let_def split: if_splits list.splits)

definition scan_post :: "lexer \<Rightarrow> bool" where
  "scan_post L \<longleftrightarrow> mem_ok L \<and> (tok_type (actual_token L) = TOKEN_STRING \<or> ds_wf (read_string L))"

lemma lex_loop_safe:
  "actual_state L = Some S \<Longrightarrow> mem_ok L \<Longrightarrow> read_inv S L \<Longrightarrow>
   wp (\<lambda>(out_of_memory, L'). \<not> out_of_memory \<and> scan_post L') (lex_loop L)"
proof (induction L arbitrary: S rule: lex_loop.induct)
  case (1 L)
  obtain read L1 where r: "lex_read L = (read, L1)" by fastforce
  have "mem_ok L1" "read_inv S L1"
    using 1(3,4) lex_read_same [OF r] by (simp_all add: read_inv_def)
  from wpD [OF lex_step_safe [OF this]] obtain L2
    where s: "lex_step S read L1 = Some L2" and p: "step_post read L2" by blast
  then have m: "mem_ok L2" "\<not> malloc_error L2" by (simp_all add: step_post_def mem_ok_def)
  show ?case
  proof (cases "actual_state L2")
    case None
    then show ?thesis
      using p m by (subst lex_loop.simps) (simp add: 1(2) r s wp_simps scan_post_def step_post_def)
  next
    case (Some S')
    then have i: "read_inv S' L2" and e: "read = EOF \<Longrightarrow> S' \<noteq> S_string_end"
      using p by (simp_all add: step_post_def)
    show ?thesis
    proof (cases "read = EOF")
      case True
      then have "scan_post L2" using i e m by (simp add: scan_post_def read_inv_def)
      then show ?thesis
        using Some m unfolding lex_loop.simps [of L]
        by (simp add: 1(2) r [unfolded True] s [unfolded True] wp_simps)
    next
      case False
      have "wp (\<lambda>(out_of_memory, L'). \<not> out_of_memory \<and> scan_post L') (lex_loop L2)"
        by (rule "1.IH" [OF 1(2) r [symmetric] s]) (use False Some m i r in simp_all)
      then show ?thesis
        using False Some m by (subst lex_loop.simps) (simp add: 1(2) r s)
    qed
  qed
qed

definition lexer_ready :: "lexer \<Rightarrow> bool" where
  "lexer_ready L \<longleftrightarrow> lex_budget L = None \<and> \<not> malloc_error L"

lemma get_token_safe:
  assumes "lexer_ready L"
  shows "\<exists>err tok' L'. get_token tok L = Some (err, tok', L') \<and>
    (err = ERR_NO_ERR \<or> err = ERR_LEXICAL) \<and> lexer_ready L'"
proof -
  have b: "lex_budget L = None" "\<not> malloc_error L" using assms by (simp_all add: lexer_ready_def)
  obtain d where d: "dstring_init (read_string L) None = Some (True, d, None)" "ds_wf d" "ds_abs d = []"
    by (rule ds.init_None)
  obtain e where e: "dstring_init (tmp_string L) None = Some (True, e, None)" "ds_wf e"
    by (rule ds.init_None)
  let ?L = "L\<lparr>actual_token := (actual_token L)\<lparr>tok_type := TOKEN_UNDEFINED, preceding_eol := False\<rparr>,
               set_eol := False, is_final := False, actual_state := Some S_start,
               read_string := d, tmp_string := e, lex_budget := None\<rparr>"
  have "wp (\<lambda>(out_of_memory, L'). \<not> out_of_memory \<and> scan_post L') (lex_loop ?L)"
    by (rule lex_loop_safe [of _ S_start]) (use b d e in \<open>simp_all add: mem_ok_def read_inv_def\<close>)
  then obtain L' where l: "lex_loop ?L = Some (False, L')" and p: "scan_post L'"
    by (auto simp: wp_def)
  from p have t: "ds_wf (tmp_string L')" "lexer_ready L'"
    by (simp_all add: scan_post_def mem_ok_def lexer_ready_def)
  obtain f where f: "dstring_free (tmp_string L') = Some f" using dstring_free_wf [OF t(1)] ..
  show ?thesis
  proof (cases "tok_type (actual_token L') = TOKEN_STRING \<or> tok_type (actual_token L') = TOKEN_IDENTIFIER")
    case True
    then show ?thesis
      using t(2) by (auto simp: get_token_def b d(1) e(1) l f lexer_ready_def Let_def)
  next
    case False
    then have "ds_wf (read_string L')" using p by (simp add: scan_post_def)
    then obtain g where "dstring_free (read_string L') = Some g" using dstring_free_wf by blast
    then show ?thesis
      using t(2) False by (auto simp: get_token_def b d(1) e(1) l f lexer_ready_def Let_def)
  qed
qed

end
