(* ===== verification/Scanning.thy ===== *)
theory Scanning
  imports Lexer_Safety Program
begin

text \<open>
  The scanning phase: the scanner makes progress with every token, so filling the token
  buffer ends, and the buffer then holds the tokens of the input.
\<close>

section \<open>Progress of the scanner\<close>

text \<open>
  The characters that are still to be read: the rest of the input and a character pushed
  back. The end of the input pushed back does not count.
\<close>

definition pending :: "lexer \<Rightarrow> nat" where
  "pending L = length (stdin L) + (if unread L = NUL \<or> unread L = EOF then 0 else 1)"

definition unread_frame :: "char \<Rightarrow> lexer \<Rightarrow> lexer \<Rightarrow> bool" where
  "unread_frame ch L L' \<longleftrightarrow> stdin L' = stdin L \<and>
     (\<not> malloc_error L' \<longrightarrow> unread L' = unread L \<or> unread L' = ch)"

lemma lex_step_unread: "wlp (unread_frame ch L) (lex_step S ch L)"
  by (cases S;
      simp add: lex_defs lex_helpers wlp_simps Let_def unread_frame_def [abs_def];
      (intro conjI impI allI wlp_append_read wlp_append_tmp wlp_opaque;
       (simp add: same_io_def wlp_simps split: option.split prod.split)?)+)

text \<open>The first state pushes nothing back, and at the end of the input it gives the last token.\<close>

definition start_post :: "char \<Rightarrow> lexer \<Rightarrow> lexer \<Rightarrow> bool" where
  "start_post ch L L' \<longleftrightarrow> stdin L' = stdin L \<and>
     (\<not> malloc_error L' \<longrightarrow> unread L' = unread L \<and> (ch = EOF \<longrightarrow> tok_type (actual_token L') = TOKEN_EOF))"

lemma EOF_classes: "\<not> is_whitespace EOF" "\<not> is_number EOF" "\<not> is_alfa EOF"
  by (simp_all add: is_whitespace_def is_number_def is_alfa_def schar_def)

lemma lex_start_post: "wlp (start_post ch L) (lex_start ch L)"
  by (simp add: lex_defs lex_helpers wlp_simps Let_def start_post_def [abs_def];
      (intro conjI impI allI wlp_append_read wlp_append_tmp wlp_opaque;
       (simp add: same_io_def wlp_simps EOF_classes split: option.split prod.split)?)+)

lemma lex_read_pending:
  assumes "lex_read L = (read, L1)"
  shows "unread L1 = NUL" "pending L1 + (if read = EOF then 0 else 1) \<le> pending L"
  using assms by (auto simp: lex_read_def pending_def Let_def split: if_splits list.splits)

lemma lex_loop_pending:
  "lex_loop L = Some (False, L') \<Longrightarrow> pending L' \<le> pending L"
proof (induction L rule: lex_loop.induct)
  case (1 L)
  obtain S read L1 where S: "actual_state L = Some S" and rd: "lex_read L = (read, L1)"
    using "1.prems" by (cases "actual_state L"; cases "lex_read L") (auto simp: lex_loop.simps [of L])
  obtain L2 where s: "lex_step S read L1 = Some L2" and m: "\<not> malloc_error L2"
    and l: "L' = L2 \<or> actual_state L2 \<noteq> None \<and> read \<noteq> EOF \<and> lex_loop L2 = Some (False, L')"
    using "1.prems" S rd by (auto simp: lex_loop.simps [of L] bind_Some_iff split: if_splits)
  have "unread_frame read L1 L2" using wlpD [OF lex_step_unread s] .
  then have p: "pending L2 \<le> pending L"
    using m lex_read_pending [OF rd] by (auto simp: unread_frame_def pending_def split: if_splits)
  show ?case using l "1.IH" [OF S rd [symmetric] s m] p by auto
qed

lemma lex_loop_progress:
  assumes S: "actual_state L = Some S_start" and l: "lex_loop L = Some (False, L')" and t: "tok_type (actual_token L') \<noteq> TOKEN_EOF"
  shows "pending L' < pending L"
proof -
  obtain read L1 where rd: "lex_read L = (read, L1)" by fastforce
  obtain L2 where s: "lex_step S_start read L1 = Some L2" and m: "\<not> malloc_error L2"
    and l2: "L' = L2 \<or> actual_state L2 \<noteq> None \<and> read \<noteq> EOF \<and> lex_loop L2 = Some (False, L')"
    using l S rd by (auto simp: lex_loop.simps [of L] bind_Some_iff split: if_splits)
  have p: "start_post read L1 L2" using s wlpD [OF lex_start_post] by (simp add: lex_step_def)
  have e: "read \<noteq> EOF" using l2 p m t by (auto simp: start_post_def)
  then have "pending L2 < pending L"
    using lex_read_pending(2) [OF rd] p m by (simp add: start_post_def pending_def)
  then show ?thesis using l2 lex_loop_pending [of L2 L'] by auto
qed

lemma get_token_progress:
  assumes "get_token tok L = Some (ERR_NO_ERR, t, L')" "tok_type t \<noteq> TOKEN_EOF"
  shows "pending L' < pending L"
proof -
  let ?L = "L\<lparr>actual_token := (actual_token L)\<lparr>tok_type := TOKEN_UNDEFINED, preceding_eol := False\<rparr>,
               set_eol := False, is_final := False, actual_state := Some S_start\<rparr>"
  note g = assms(1) [unfolded get_token_def Let_def]
  obtain d m where d: "dstring_init (read_string L) (lex_budget L) = Some (True, d, m)"
    using g by (cases "dstring_init (read_string L) (lex_budget L)") (auto simp: error_codes split: if_splits)
  obtain e k where e: "dstring_init (tmp_string L) m = Some (True, e, k)"
    using g d by (cases "dstring_init (tmp_string L) m") (auto simp: error_codes split: if_splits)
  let ?L1 = "?L\<lparr>read_string := d, lex_budget := m, tmp_string := e, lex_budget := k\<rparr>"
  obtain L2 where l: "lex_loop ?L1 = Some (False, L2)"
    using g d e by (cases "lex_loop ?L1") (auto simp: error_codes split: if_splits)
  obtain f where f: "dstring_free (tmp_string L2) = Some f"
    using g d e l by (cases "dstring_free (tmp_string L2)") auto
  have "t = actual_token L2 \<and> stdin L' = stdin L2 \<and> unread L' = unread L2"
    using g d e l f by (auto simp: error_codes bind_Some_iff split: if_splits)
  then show ?thesis
    using lex_loop_progress [OF _ l] assms(2) by (simp add: pending_def)
qed

section \<open>Strings the tokens own\<close>

text \<open>
  A string or an identifier always carries its text, which the buffer releases with the token.
\<close>

definition owning :: "lexer \<Rightarrow> bool" where
  "owning L \<longleftrightarrow> malloc_error L \<or> string_token_ok (actual_token L) \<and>
     (actual_state L \<noteq> None \<longrightarrow> tok_type (actual_token L) \<notin> {TOKEN_STRING, TOKEN_IDENTIFIER})"

lemma wlp_data_type_loop:
  assumes "\<And>r. (\<forall>ty. r = Some ty \<longrightarrow> ty \<in> snd ` set ks) \<Longrightarrow> P r"
  shows "wlp P (data_type_loop ks d)"
  using assms
proof (induction ks)
  case (Cons k ks)
  then show ?case by (cases k) (auto simp: wlp_def bind_Some_iff split: if_splits)
qed (simp add: wlp_def)

lemma data_type_kinds: "snd ` set (zip data_types data_types_tokens) = {TOKEN_DT_DOUBLE, TOKEN_DT_INT, TOKEN_DT_STRING}"
  by (simp add: data_types_def data_types_tokens_def)

lemma lex_step_owning:
  assumes "tok_type (actual_token L) \<notin> {TOKEN_STRING, TOKEN_IDENTIFIER}" "S \<noteq> S_identifier"
  shows "wlp owning (lex_step S ch L)"
  using assms
  by (cases S;
      simp add: lex_defs lex_helpers wlp_simps Let_def owning_def [abs_def] string_token_ok_def;
      (intro conjI impI allI wlp_append_read wlp_append_tmp wlp_opaque;
       (simp add: same_io_def wlp_simps split: option.split prod.split)?)+)

lemma lex_identifier_owning:
  assumes "tok_type (actual_token L) \<notin> {TOKEN_STRING, TOKEN_IDENTIFIER}"
  shows "wlp owning (lex_identifier ch L)"
  unfolding lex_identifier_def when_ok_def
  using assms
  by (simp add: lex_helpers wlp_simps Let_def owning_def [abs_def] string_token_ok_def)
   (rule wlp_append_read;
    clarsimp simp: wlp_simps same_io_def;
    (rule conjI impI allI wlp_data_type_loop | rule wlp_opaque)+;
    auto simp: data_type_kinds split: option.split)
lemma lex_loop_owning:
  "tok_type (actual_token L) \<notin> {TOKEN_STRING, TOKEN_IDENTIFIER} \<Longrightarrow> lex_loop L = Some (False, L') \<Longrightarrow>
    string_token_ok (actual_token L')"
proof (induction L rule: lex_loop.induct)
  case (1 L)
  obtain S read L1 where S: "actual_state L = Some S" and rd: "lex_read L = (read, L1)"
    using "1.prems"(2) by (cases "actual_state L"; cases "lex_read L") (auto simp: lex_loop.simps [of L])
  obtain L2 where s: "lex_step S read L1 = Some L2" and m: "\<not> malloc_error L2"
    and l: "L' = L2 \<or> actual_state L2 \<noteq> None \<and> read \<noteq> EOF \<and> lex_loop L2 = Some (False, L')"
    using "1.prems"(2) S rd by (auto simp: lex_loop.simps [of L] bind_Some_iff split: if_splits)
  have "actual_token L1 = actual_token L" using rd by (auto simp: lex_read_def Let_def split: if_splits list.splits)
  with "1.prems"(1) have u: "tok_type (actual_token L1) \<notin> {TOKEN_STRING, TOKEN_IDENTIFIER}" by simp
  have "wlp owning (lex_step S read L1)"
  proof (cases "S = S_identifier")
    case True
    with lex_identifier_owning [OF u] show ?thesis by (simp add: lex_step_def)
  qed (rule lex_step_owning [OF u])
  from wlpD [OF this s] have "owning L2" .
  then have o: "string_token_ok (actual_token L2)"
    "actual_state L2 \<noteq> None \<Longrightarrow> tok_type (actual_token L2) \<notin> {TOKEN_STRING, TOKEN_IDENTIFIER}"
    using m by (auto simp: owning_def)
  from l show ?case
  proof
    assume "actual_state L2 \<noteq> None \<and> read \<noteq> EOF \<and> lex_loop L2 = Some (False, L')"
    then show ?thesis using "1.IH" [OF S rd [symmetric] s m] o(2) by blast
  qed (simp add: o(1))
qed

lemma get_token_owned:
  assumes "get_token tok L = Some (ERR_NO_ERR, t, L')"
  shows "string_token_ok t"
proof -
  note g = assms [unfolded get_token_def Let_def]
  let ?L = "L\<lparr>actual_token := (actual_token L)\<lparr>tok_type := TOKEN_UNDEFINED, preceding_eol := False\<rparr>,
               set_eol := False, is_final := False, actual_state := Some S_start\<rparr>"
  obtain d m where d: "dstring_init (read_string L) (lex_budget L) = Some (True, d, m)"
    using g by (cases "dstring_init (read_string L) (lex_budget L)") (auto simp: error_codes split: if_splits)
  obtain e k where e: "dstring_init (tmp_string L) m = Some (True, e, k)"
    using g d by (cases "dstring_init (tmp_string L) m") (auto simp: error_codes split: if_splits)
  let ?L1 = "?L\<lparr>read_string := d, lex_budget := m, tmp_string := e, lex_budget := k\<rparr>"
  obtain L2 where l: "lex_loop ?L1 = Some (False, L2)"
    using g d e by (cases "lex_loop ?L1") (auto simp: error_codes split: if_splits)
  obtain f where f: "dstring_free (tmp_string L2) = Some f"
    using g d e l by (cases "dstring_free (tmp_string L2)") auto
  have "t = actual_token L2"
    using g d e l f by (auto simp: error_codes bind_Some_iff split: if_splits)
  then show ?thesis using lex_loop_owning [OF _ l] by simp
qed

section \<open>Filling the buffer\<close>

text \<open>The tokens of an input: those \<open>get_token\<close> delivers up to and including the end.\<close>

inductive scans :: "lexer \<Rightarrow> token list \<Rightarrow> lexer \<Rightarrow> bool" where
  last: "get_token tok L = Some (ERR_NO_ERR, t, L') \<Longrightarrow> tok_type t = TOKEN_EOF \<Longrightarrow> scans L [t] L'"
| more: "get_token tok L = Some (ERR_NO_ERR, t, L1) \<Longrightarrow> tok_type t \<noteq> TOKEN_EOF \<Longrightarrow> scans L1 ts L' \<Longrightarrow>
    scans L (t # ts) L'"

lemma scans_shape: "scans L ts L' \<Longrightarrow> ts \<noteq> [] \<and> tok_type (List.last ts) = TOKEN_EOF \<and> (\<forall>t\<in>set (butlast ts). tok_type t \<noteq> TOKEN_EOF)"
  by (induction rule: scans.induct) auto

lemma scans_owned: "scans L ts L' \<Longrightarrow> \<forall>t\<in>set ts. string_token_ok t"
  by (induction rule: scans.induct) (auto dest: get_token_owned)

text \<open>The token the caller passes decides neither the result nor the token of a success.\<close>

lemma get_token_code:
  assumes "get_token tok L = Some (err, t, L')"
  shows "\<exists>t'. get_token tok' L = Some (err, t', L') \<and> (err = ERR_NO_ERR \<longrightarrow> t' = t)"
proof -
  let ?L = "L\<lparr>actual_token := (actual_token L)\<lparr>tok_type := TOKEN_UNDEFINED, preceding_eol := False\<rparr>,
               set_eol := False, is_final := False, actual_state := Some S_start\<rparr>"
  note g = assms [unfolded get_token_def Let_def]
  obtain b d m where d: "dstring_init (read_string L) (lex_budget L) = Some (b, d, m)"
    using g by (cases "dstring_init (read_string L) (lex_budget L)") auto
  show ?thesis
  proof (cases b)
    case False
    then show ?thesis using g d by (auto simp: get_token_def Let_def error_codes)
  next
    case b: True
    obtain b' e k where e: "dstring_init (tmp_string L) m = Some (b', e, k)"
      using g d b by (cases "dstring_init (tmp_string L) m") auto
    show ?thesis
    proof (cases b')
      case False
      then show ?thesis using g d b e by (auto simp: get_token_def Let_def error_codes)
    next
      case b': True
      let ?L1 = "?L\<lparr>read_string := d, lex_budget := m, tmp_string := e, lex_budget := k\<rparr>"
      obtain o' L2 where l: "lex_loop ?L1 = Some (o', L2)"
        using g d b e b' by (cases "lex_loop ?L1") auto
      show ?thesis
        using g d b e b' l by (auto simp: get_token_def Let_def error_codes bind_Some_iff split: if_splits)
    qed
  qed
qed

lemma get_token_any: "get_token tok L = Some (ERR_NO_ERR, t, L') \<Longrightarrow> get_token tok' L = Some (ERR_NO_ERR, t, L')"
  using get_token_code [of tok L ERR_NO_ERR t L' tok'] by blast

text \<open>
  The other outcome: \<open>get_token\<close> delivers the tokens \<open>ts\<close>, none of them the end of the input, and
  then reports a lexical error.
\<close>

inductive scan_fails :: "lexer \<Rightarrow> token list \<Rightarrow> bool" where
  now: "get_token tok L = Some (ERR_LEXICAL, t, L') \<Longrightarrow> scan_fails L []"
| later: "get_token tok L = Some (ERR_NO_ERR, t, L1) \<Longrightarrow> tok_type t \<noteq> TOKEN_EOF \<Longrightarrow> scan_fails L1 ts \<Longrightarrow>
    scan_fails L (t # ts)"

lemma scan_fails_owned: "scan_fails L ts \<Longrightarrow> \<forall>t\<in>set ts. string_token_ok t"
  by (induction rule: scan_fails.induct) (auto dest: get_token_owned)

lemma get_token_same:
  assumes "get_token tok L = Some (err, t, L')" "get_token tok' L = Some (err', t', L'')"
  shows "err' = err \<and> L'' = L' \<and> (err = ERR_NO_ERR \<longrightarrow> t' = t)"
  using get_token_code [OF assms(1), of tok'] assms(2) by auto

lemma scans_not_fails: "scans L ts L' \<Longrightarrow> scan_fails L us \<Longrightarrow> False"
proof (induction arbitrary: us rule: scans.induct)
  case (last tok L t L')
  from last(3) show ?case
    by (cases rule: scan_fails.cases) (use get_token_same [OF last(1)] last(2) in \<open>fastforce simp: error_codes\<close>)+
next
  case (more tok L t L1 ts L')
  from more(5) show ?case
    by (cases rule: scan_fails.cases) (use get_token_same [OF more(1)] more.IH in \<open>fastforce simp: error_codes\<close>)+
qed

text \<open>The same as a function, which stops after \<open>n\<close> tokens.\<close>

primrec scan_tokens :: "nat \<Rightarrow> lexer \<Rightarrow> (token list \<times> lexer) c" where
  "scan_tokens 0 L = None"
| "scan_tokens (Suc n) L = do {
     (res, t, L) \<leftarrow> get_token no_token L;
     if res \<noteq> ERR_NO_ERR then None
     else if tok_type t = TOKEN_EOF then Some ([t], L)
     else do { (ts, L) \<leftarrow> scan_tokens n L; Some (t # ts, L) }
   }"

lemma scan_tokens_scans: "scan_tokens n L = Some (ts, L') \<Longrightarrow> scans L ts L'"
proof (induction n arbitrary: L ts)
  case (Suc n)
  then show ?case by (auto simp: bind_Some_iff split: if_splits intro: scans.last scans.more)
qed simp

lemma tb_rewind: "tb_repr B toks i \<Longrightarrow> tb_repr (B\<lparr>tb_runner := tb_head B\<rparr>) toks 0"
proof -
  assume "tb_repr B toks i"
  then obtain ps where ps: "tb_list B ps" "toks = map snd ps" by (auto simp: tb_repr_def)
  then have h: "tb_list (B\<lparr>tb_runner := tb_head B\<rparr>) ps" "tb_head B = first_of ps None" by (simp_all add: tb_list_def)
  have "if ps = [] then tb_head B = None else tb_head B = Some (fst (ps ! 0))"
    using h(2) by (cases ps) simp_all
  then show ?thesis
    unfolding tb_repr_def using h(1) ps(2) by (intro exI [of _ ps]) (simp split: if_splits)
qed

lemma lex_of_update: "p_lex (P\<lparr>curr_tok := t, p_lex := L, p_buffer := B\<rparr>) = L"
  by simp

text \<open>
  The outcome on every input: all of its tokens, or a lexical error behind the tokens in the
  buffer.
\<close>

lemma fill_loop_outcome:
  assumes "lexer_ready (p_lex P)" "p_budget P = None" "tb_repr (p_buffer P) toks i"
  shows "\<exists>res t L B ts. fill_loop P = Some (res, P\<lparr>curr_tok := t, p_lex := L, p_buffer := B\<rparr>) \<and>
    (res = ERR_LEXICAL \<and> scan_fails (p_lex P) ts \<and> tb_repr B (toks @ ts) i \<or>
     res = ERR_NO_ERR \<and> scans (p_lex P) ts L \<and> tb_repr B (toks @ ts) 0)"
  using assms
proof (induction "pending (p_lex P)" arbitrary: P toks rule: less_induct)
  case less
  obtain err t L where g: "get_token (curr_tok P) (p_lex P) = Some (err, t, L)" "err = ERR_NO_ERR \<or> err = ERR_LEXICAL" "lexer_ready L"
    using get_token_safe [OF less.prems(1)] by blast
  obtain B where B: "tb_push t (p_buffer P) None = Some (EXIT_SUCCESS, B, None)" "tb_repr B (toks @ [t]) i"
    using tb_push_repr [OF less.prems(3)] by blast
  let ?P = "P\<lparr>curr_tok := t, p_lex := L, p_buffer := B\<rparr>"
  consider "err = ERR_LEXICAL" | "err = ERR_NO_ERR" "tok_type t = TOKEN_EOF" | "err = ERR_NO_ERR" "tok_type t \<noteq> TOKEN_EOF"
    using g(2) by blast
  then show ?case
  proof cases
    case 1
    then have "fill_loop P = Some (ERR_LEXICAL, P\<lparr>curr_tok := t, p_lex := L, p_buffer := p_buffer P\<rparr>)"
      using g(1) by (subst fill_loop.simps) (simp add: error_codes)
    moreover have "tb_repr (p_buffer P) (toks @ []) i" using less.prems(3) by simp
    moreover have "scan_fails (p_lex P) []" using g(1) 1 by (auto intro: scan_fails.now)
    ultimately show ?thesis by blast
  next
    case 2
    have "fill_loop P = Some (ERR_NO_ERR, P\<lparr>curr_tok := t, p_lex := L, p_buffer := B\<lparr>tb_runner := tb_head B\<rparr>\<rparr>)"
      using g(1) B(1) 2 less.prems(2) by (subst fill_loop.simps) (cases P; simp)
    with scans.last [of _ "p_lex P" t L] g(1) 2 tb_rewind [OF B(2)] show ?thesis by fast
  next
    case 3
    have step: "fill_loop P = fill_loop ?P"
      using g(1) B(1) 3 less.prems(2) by (subst fill_loop.simps) (cases P; simp)
    have "pending (p_lex ?P) < pending (p_lex P)"
      using get_token_progress [of "curr_tok P" "p_lex P" t L] g(1) 3 by simp
    moreover have "lexer_ready (p_lex ?P)" "p_budget ?P = None" "tb_repr (p_buffer ?P) (toks @ [t]) i"
      using g(3) B(2) less.prems(2) by simp_all
    ultimately obtain res t' L' B' ts where
      r: "fill_loop ?P = Some (res, ?P\<lparr>curr_tok := t', p_lex := L', p_buffer := B'\<rparr>)"
      and o: "res = ERR_LEXICAL \<and> scan_fails L ts \<and> tb_repr B' ((toks @ [t]) @ ts) i \<or>
        res = ERR_NO_ERR \<and> scans L ts L' \<and> tb_repr B' ((toks @ [t]) @ ts) 0"
      using less.hyps [of ?P "toks @ [t]"] by (simp only: lex_of_update) blast
    have "res = ERR_LEXICAL \<and> scan_fails (p_lex P) (t # ts) \<and> tb_repr B' (toks @ t # ts) i \<or>
        res = ERR_NO_ERR \<and> scans (p_lex P) (t # ts) L' \<and> tb_repr B' (toks @ t # ts) 0"
      using o g(1) 3 by (auto intro: scans.more scan_fails.later)
    then show ?thesis using r step by force
  qed
qed

lemma fill_loop_total:
  assumes "lexer_ready (p_lex P)" "p_budget P = None" "tb_repr (p_buffer P) toks i"
  shows "\<exists>res P' ts. fill_loop P = Some (res, P') \<and>
    (res = ERR_NO_ERR \<and> scans (p_lex P) ts (p_lex P') \<and> tb_repr (p_buffer P') (toks @ ts) 0 \<or>
     res = ERR_LEXICAL \<and> scan_fails (p_lex P) ts \<and> tb_repr (p_buffer P') (toks @ ts) i)"
  using fill_loop_outcome [OF assms] by fastforce

end
