(* ===== verification/Compile.thy ===== *)
theory Compile
  imports Builtins Scanning
begin

text \<open>
  The whole of \<open>parse\<close> for programs without functions: set-up, built-in functions, scanning,
  the first and the second pass, and the release of all memory.
\<close>

section \<open>The tokens of a program\<close>

definition body_token :: "token \<Rightarrow> bool" where
  "body_token t \<longleftrightarrow> tok_type t \<notin> {TOKEN_FUNC, TOKEN_EOF, TOKEN_UNDEFINED} \<and> string_token_ok t"

lemma body_tokenI: "tok_type t \<notin> {TOKEN_FUNC, TOKEN_EOF, TOKEN_UNDEFINED, TOKEN_STRING, TOKEN_IDENTIFIER} \<Longrightarrow> body_token t"
  by (simp add: body_token_def string_token_ok_def)

lemma phrase_tokens: "phrase V n ts e \<Longrightarrow> (\<And>t v. V t v \<Longrightarrow> body_token t) \<Longrightarrow> \<forall>t\<in>set ts. body_token t"
proof (induction rule: phrase.induct)
  case (sum ts e t us f)
  then have "body_token t" by (intro body_tokenI) auto
  with sum show ?case by auto
next
  case (comparison ts e t us f)
  then have "body_token t" by (intro body_tokenI) (auto simp: relations_def)
  with comparison show ?case by auto
qed (auto simp: int_token_of_def intro: body_tokenI)

lemma var_in_token: "var_in V t v \<Longrightarrow> body_token t"
  by (auto simp: var_in_def body_token_def string_token_ok_def)

lemma value_tokens: "phrase (var_in V) n ts e \<Longrightarrow> \<forall>t\<in>set ts. body_token t"
  using phrase_tokens [of "var_in V"] var_in_token by blast

lemma statement_tokens:
  "stmt_phrase V ts s \<Longrightarrow> \<forall>t\<in>set ts. body_token t" "block_phrase V first us b \<Longrightarrow> \<forall>t\<in>set us. body_token t"
  by (induction rule: stmt_phrase_block_phrase.inducts)
    (auto intro: body_tokenI dest!: value_tokens var_in_token)

lemma program_tokens: "program_phrase V n N first ts p \<Longrightarrow> \<forall>t\<in>set ts. body_token t"
proof (induction rule: program_phrase.induct)
  case (declaring w first x name N q V ts e v n us p)
  have "body_token x" using declaring.hyps(3,4) by (simp add: body_token_def string_token_ok_def)
  with value_tokens [OF declaring.hyps(9)] declaring.hyps(1,8) declaring.IH
  show ?case by (auto intro: body_tokenI)
qed (auto dest: statement_tokens)

section \<open>The token buffer and the first pass\<close>

lemma scans_fill:
  assumes "scans L ts L'" "p_lex P = L" "p_budget P = None" "tb_repr (p_buffer P) toks i"
  shows "\<exists>B. fill_loop P = Some (ERR_NO_ERR, P\<lparr>curr_tok := last ts, p_lex := L', p_buffer := B\<rparr>) \<and> tb_repr B (toks @ ts) 0"
  using assms
proof (induction arbitrary: P toks rule: scans.induct)
  case (last tok L t L')
  obtain B where B: "tb_push t (p_buffer P) None = Some (EXIT_SUCCESS, B, None)" "tb_repr B (toks @ [t]) i"
    using tb_push_repr [OF last(5)] by blast
  show ?case
    using get_token_any [OF last(1)] last B(1) tb_rewind [OF B(2)]
    by (subst fill_loop.simps) (cases P; auto)
next
  case (more tok L t L1 ts L')
  obtain B where B: "tb_push t (p_buffer P) None = Some (EXIT_SUCCESS, B, None)" "tb_repr B (toks @ [t]) i"
    using tb_push_repr [OF more(7)] by blast
  let ?P = "P\<lparr>curr_tok := t, p_lex := L1, p_buffer := B, p_budget := None\<rparr>"
  have "fill_loop P = fill_loop ?P"
    using get_token_any [OF more(1)] more B(1) by (subst fill_loop.simps) simp
  moreover obtain B' where "fill_loop ?P = Some (ERR_NO_ERR, ?P\<lparr>curr_tok := last ts, p_lex := L', p_buffer := B'\<rparr>)"
      "tb_repr B' ((toks @ [t]) @ ts) 0"
    using more.IH [of ?P "toks @ [t]"] B(2) by auto
  ultimately show ?case using more(6) scans_shape [OF more(3)] by (cases P) auto
qed

text \<open>The first pass goes over a program without functions and changes nothing.\<close>

lemma skip_all:
  assumes "reading toks i (us @ [r]) P" "\<forall>t\<in>set us. body_token t" "tok_type r = TOKEN_EOF"
  shows "\<exists>B j. rule_skip P = Some (ERR_NO_ERR, P\<lparr>p_buffer := B, curr_tok := r\<rparr>) \<and> tb_repr B toks j"
  using assms
proof (induction us arbitrary: i P)
  case Nil
  then have "P\<lparr>p_buffer := p_buffer P, curr_tok := r\<rparr> = P" by (cases P) (simp add: reading_def)
  then show ?case
    using Nil by (intro exI [of _ "p_buffer P"] exI [of _ i])
      (simp add: rule_skip.simps [of P] reading_def at_token_def success_def ERR_NO_ERR_def EXIT_SUCCESS_def)
next
  case (Cons t us)
  obtain y ys where y: "us @ [r] = y # ys" by (cases us) auto
  have r1: "GET_TOKEN k P = k (advance P)" "reading toks (Suc i) (us @ [r]) (advance P)" for k
    using reading_advance [of toks i t y ys P] Cons.prems(1) y by simp_all
  obtain B j where B: "rule_skip (advance P) = Some (ERR_NO_ERR, (advance P)\<lparr>p_buffer := B, curr_tok := r\<rparr>)" "tb_repr B toks j"
    using Cons.IH [OF r1(2)] Cons.prems(2,3) by auto
  have "(advance P)\<lparr>p_buffer := B, curr_tok := r\<rparr> = P\<lparr>p_buffer := B, curr_tok := r\<rparr>" by (simp add: advance_def Let_def)
  then show ?case
    using B r1(1) Cons.prems(1,2) reading_curr [of toks i t "us @ [r]" P]
    by (auto simp: rule_skip.simps [of P] NEXT_RULE_def body_token_def success_def ERR_NO_ERR_def EXIT_SUCCESS_def)
qed

section \<open>From the input to the code\<close>

text \<open>The prologue, as the generator prints it at the start.\<close>

definition prolog_text :: string where
  "prolog_text = (case code_generator_prolog (codegen_init None) of Some G \<Rightarrow> cg_out G | None \<Rightarrow> [])"

lemma prolog_ok:
  obtains G where "code_generator_prolog (codegen_init None) = Some G" "cg_wf G" "for_open G = 0" "cg_out G = prolog_text"
proof -
  have "case code_generator_prolog (codegen_init None) of None \<Rightarrow> False
    | Some G \<Rightarrow> cg_budget G = None \<and> for_open G = 0 \<and> print_buffer G = print_buffer ready_codegen"
    by code_simp
  then obtain G where G: "code_generator_prolog (codegen_init None) = Some G" "cg_budget G = None" "for_open G = 0"
      "print_buffer G = print_buffer ready_codegen"
    by (auto split: option.splits)
  moreover have "cg_wf G" using G(2-4) ready_wf(1,2) by (simp add: cg_wf_def)
  ultimately show ?thesis using that [of G] by (simp add: prolog_text_def)
qed

text \<open>What the disposal of the parser releases.\<close>

definition released :: "parser \<Rightarrow> bool" where
  "released P \<longleftrightarrow> tb_nodes (p_buffer P) = Map.empty \<and> tb_head (p_buffer P) = None \<and> st_items (global_symtab P) = [] \<and> p_stack P = []"

lemma dispose_released:
  assumes "p_stack P = []" "table_inv (p_heap P) (global_symtab P)" "labelled (p_heap P)" "tb_repr (p_buffer P) toks j"
    "\<forall>t\<in>set toks. string_token_ok t"
  obtains P' where "parser_dispose P = Some P'" "p_cg P' = p_cg P" "released P'"
proof -
  have "symtable_dispose (global_symtab P) (p_heap P) = Some ((global_symtab P)\<lparr>st_items := []\<rparr>,
      (p_heap P)\<lparr>sh_items := (\<lambda>a. if Some a \<in> set (st_items (global_symtab P)) then None else sh_items (p_heap P) a)\<rparr>)"
    by (rule dispose_wf) (use assms(2,3) in \<open>auto simp: table_inv_def labelled_def\<close>)
  moreover obtain B where "tb_dispose (p_buffer P) = Some B" "tb_nodes B = Map.empty" "tb_head B = None"
    using tb_dispose_repr [OF assms(4,5)] by blast
  ultimately show ?thesis using that assms(1) by (simp add: parser_dispose_def released_def)
qed

text \<open>
  The set-up of \<open>parse\<close>: the parser that is handed to the scanning phase, and what remains to be
  done after that phase.
\<close>

definition after_scanning :: rule where
  "after_scanning = phase parser_get_func_decls (\<lambda>P. do {
     P \<leftarrow> reload_token (P\<lparr>p_buffer := (p_buffer P)\<lparr>tb_runner := tb_head (p_buffer P)\<rparr>\<rparr>);
     if tok_type (curr_tok P) = TOKEN_UNDEFINED \<and> int_val_is_0 P (curr_tok P) then fail ERR_INTERNAL P
     else phase rule_prog (\<lambda>P. do { P \<leftarrow> parser_dispose P; success P }) P
   })"

definition set_up :: "string \<Rightarrow> parser \<Rightarrow> bool" where
  "set_up inp P \<longleftrightarrow> p_stack P = [] \<and> p_buffer P = tb_init tb_empty_heap \<and> lhs_id P = None \<and> in_cond P = 0 \<and>
     in_loop P = 0 \<and> \<not> in_func_body P \<and> first_stmt P \<and> cond_uid P = 0 \<and> loop_uid P = 0 \<and>
     p_lex P = lexer_init None inp \<and> p_budget P = None \<and> \<not> is_multiline_expr P \<and> expr_err P = EXIT_SUCCESS \<and>
     cg_wf (p_cg P) \<and> for_open (p_cg P) = 0 \<and> cg_out (p_cg P) = prolog_text \<and>
     tabled builtin_names (global_symtab P) (p_heap P) \<and> grown 10 (global_symtab P)"

lemma parse_set_up:
  obtains P' where "set_up inp P'" "parse (program_start None inp P) = phase parser_fill_buffer after_scanning P'"
proof -
  let ?P0 = "program_start None inp P"
  obtain P1 where P1: "parser_init ?P0 = Some (True, P1)" "global_symtab P1 = fresh_table" "p_heap P1 = fresh_heap" "p_stack P1 = []"
    "p_buffer P1 = tb_init tb_empty_heap" "lhs_id P1 = None" "in_cond P1 = 0" "in_loop P1 = 0" "\<not> in_func_body P1" "first_stmt P1"
    "cond_uid P1 = 0" "loop_uid P1 = 0" "p_lex P1 = lexer_init None inp" "p_cg P1 = codegen_init None" "p_budget P1 = None"
    "\<not> is_multiline_expr P1" "expr_err P1 = EXIT_SUCCESS"
    using fresh_init by (simp add: parser_init_def program_start_def fresh_heap_def init_scope_def EXIT_SUCCESS_def)
  obtain G where G: "code_generator_prolog (codegen_init None) = Some G" "cg_wf G" "for_open G = 0" "cg_out G = prolog_text"
    by (rule prolog_ok)
  let ?P2 = "P1\<lparr>p_cg := G\<rparr>"
  have g: "generate (\<lambda>_. code_generator_prolog) P1 = Some ?P2" using G(1) P1(14) by (simp add: generate_def)
  obtain T H where T: "add_builtins ?P2 = Some (True, ?P2\<lparr>global_symtab := T, p_heap := H\<rparr>)" "filled builtin_functions T H"
    "tabled builtin_names T H" "grown 10 T"
    by (rule add_builtins_ok [of ?P2]) (use P1(2,3) in simp_all)
  let ?P3 = "?P2\<lparr>global_symtab := T, p_heap := H\<rparr>"
  have "parse ?P0 = phase parser_fill_buffer after_scanning ?P3"
    using P1(1) g T(1) by (simp add: parse_def after_scanning_def)
  moreover have "set_up inp ?P3" using P1 G(2-4) T(3,4) by (simp add: set_up_def)
  ultimately show ?thesis using that by blast
qed

lemma compile_runs:
  assumes s: "scans (lexer_init None inp) (us @ [r]) L" and r: "tok_type r = TOKEN_EOF"
    and ph: "program_phrase Map.empty 10 (set builtin_names) True us p" and p: "declarations p \<le> 2" "prog_depth p < 2 ^ 32"
  shows "\<exists>P'. parse (program_start None inp P) = Some (ERR_NO_ERR, P') \<and> cg_out (p_cg P') = prolog_text @ prog_code p (0, 0) \<and>
    released P'"
proof -
  let ?toks = "us @ [r]"
  obtain P3 where P3: "set_up inp P3" "parse (program_start None inp P) = phase parser_fill_buffer after_scanning P3"
    by (rule parse_set_up)
  note set = P3(1) [unfolded set_up_def]
  obtain B where B: "fill_loop P3 = Some (ERR_NO_ERR, P3\<lparr>curr_tok := r, p_lex := L, p_buffer := B\<rparr>)" "tb_repr B ?toks 0"
    using scans_fill [OF s, of P3 "[]" 0] set tb_init_repr by auto
  have ne: "?toks \<noteq> []" "\<forall>t\<in>set ?toks. tok_type t \<noteq> TOKEN_UNDEFINED" using program_tokens [OF ph] r by (auto simp: body_token_def)
  have at_start: "reading ?toks 0 ?toks (Q\<lparr>curr_tok := hd ?toks\<rparr>)" "reload_token Q = Some (Q\<lparr>curr_tok := hd ?toks\<rparr>)"
    if "tb_repr (p_buffer Q) ?toks 0" "p_budget Q = None" "\<not> is_multiline_expr Q" for Q
    using that ne tb.cur_law [OF that(1)] hd_conv_nth [OF ne(1)] by (auto simp: reading_def at_token_def reload_token_def)
  let ?P4 = "P3\<lparr>curr_tok := r, p_lex := L, p_buffer := B\<rparr>"
  let ?P5 = "?P4\<lparr>curr_tok := hd ?toks\<rparr>"
  have r5: "reading ?toks 0 ?toks ?P5" "reload_token ?P4 = Some ?P5" using at_start [of ?P4] B(2) set by simp_all
  obtain B6 j where B6: "rule_skip ?P5 = Some (ERR_NO_ERR, ?P5\<lparr>p_buffer := B6, curr_tok := r\<rparr>)" "tb_repr B6 ?toks j"
    using skip_all [OF r5(1) program_tokens [OF ph] r] by blast
  let ?B7 = "B6\<lparr>tb_runner := tb_head B6\<rparr>" let ?P6 = "?P5\<lparr>curr_tok := r, p_buffer := ?B7\<rparr>" let ?P7 = "?P6\<lparr>curr_tok := hd ?toks\<rparr>"
  have r7: "reading ?toks 0 ?toks ?P7" "reload_token ?P6 = Some ?P7"
    using at_start [of ?P6] tb_rewind [OF B6(2)] set by simp_all
  have h: "tok_type (hd ?toks) \<noteq> TOKEN_UNDEFINED" using ne hd_in_set [OF ne(1)] by blast
  have o: "outermost Map.empty ?P7" "10 = sh_unique_id (p_heap ?P7)" "names (p_heap ?P7) (st_items (global_symtab ?P7)) \<subseteq> set builtin_names"
    "prog_room p (global_symtab ?P7)"
    using set p by (simp_all add: outermost_def ready_for_def globals_def tabled_def table_inv_def grown_def prog_room_def builtin_names_def)
  have first: "first_stmt ?P7 = True" using set by simp
  obtain P8 k where P8: "rule_prog ?P7 = Some (ERR_NO_ERR, P8)" "cg_out (p_cg P8) = cg_out (p_cg ?P7) @ prog_code p (cond_uid ?P7, loop_uid ?P7)"
    "reading ?toks k [r] P8" "p_stack P8 = []" "table_inv (p_heap P8) (global_symtab P8)" "labelled (p_heap P8)"
    using program_runs [OF ph r r7(1) o(1) _ o(2-4)] first set by (auto simp: tabled_def)
  obtain P9 where P9: "parser_dispose P8 = Some P9" "p_cg P9 = p_cg P8" "released P9"
    by (rule dispose_released [OF P8(4-6), of ?toks k])
      (use P8(3) program_tokens [OF ph] r in \<open>auto simp: reading_def at_token_def body_token_def string_token_ok_def\<close>)
  have fill: "parser_fill_buffer P3 = Some (ERR_NO_ERR, ?P4)" using B(1) by (simp add: parser_fill_buffer_def)
  have decls: "parser_get_func_decls ?P4 = Some (ERR_NO_ERR, ?P5\<lparr>p_buffer := B6, curr_tok := r\<rparr>)"
    using r5(2) h B6(1) by (simp add: parser_get_func_decls_def NEXT_RULE_def success_def ERR_NO_ERR_def EXIT_SUCCESS_def)
  have "phase parser_fill_buffer after_scanning P3 = phase rule_prog (\<lambda>P. do { P \<leftarrow> parser_dispose P; success P }) ?P7"
    using r7(2) h by (simp add: after_scanning_def phase_def [of parser_fill_buffer] phase_def [of parser_get_func_decls] fill decls)
  also have "\<dots> = Some (ERR_NO_ERR, P9)"
    using P8(1) P9(1) by (simp add: phase_def success_def ERR_NO_ERR_def EXIT_SUCCESS_def)
  finally have "parse (program_start None inp P) = Some (ERR_NO_ERR, P9)" using P3(2) by simp
  moreover have "cg_out (p_cg P9) = prolog_text @ prog_code p (0, 0)"
    using P9(2) P8(2) set by simp
  ultimately show ?thesis using P9(3) by blast
qed

section \<open>Lexical errors\<close>

text \<open>
  An input the scanner rejects: \<open>parse\<close> returns the code of the error. Only the prologue has been
  printed, and the buffer and the table are released.
\<close>

lemma scanning_decides:
  "(\<exists>ts L. scans (lexer_init None inp) ts L) \<or>
   (\<exists>P'. parse (program_start None inp P) = Some (ERR_LEXICAL, P') \<and> cg_out (p_cg P') = prolog_text \<and> released P')"
proof -
  obtain P3 where P3: "set_up inp P3" "parse (program_start None inp P) = phase parser_fill_buffer after_scanning P3"
    by (rule parse_set_up)
  note set = P3(1) [unfolded set_up_def]
  have "lexer_ready (p_lex P3)" "p_budget P3 = None" "tb_repr (p_buffer P3) [] 0"
    using set tb_init_repr by (simp_all add: lexer_init_def lexer_ready_def)
  from fill_loop_outcome [OF this] obtain res t L B ts where
    f: "fill_loop P3 = Some (res, P3\<lparr>curr_tok := t, p_lex := L, p_buffer := B\<rparr>)"
    and o: "res = ERR_LEXICAL \<and> scan_fails (p_lex P3) ts \<and> tb_repr B ([] @ ts) 0 \<or>
      res = ERR_NO_ERR \<and> scans (p_lex P3) ts L \<and> tb_repr B ([] @ ts) 0"
    by blast
  from o show ?thesis
  proof
    assume "res = ERR_LEXICAL \<and> scan_fails (p_lex P3) ts \<and> tb_repr B ([] @ ts) 0"
    then have e: "res = ERR_LEXICAL" "tb_repr B ts 0" "\<forall>t\<in>set ts. string_token_ok t"
      using scan_fails_owned by auto
    let ?P4 = "P3\<lparr>curr_tok := t, p_lex := L, p_buffer := B\<rparr>"
    obtain P' where "parser_dispose ?P4 = Some P'" "p_cg P' = p_cg ?P4" "released P'"
      by (rule dispose_released [of ?P4 ts 0]) (use set e in \<open>simp_all add: tabled_def\<close>)
    then show ?thesis
      using P3(2) f e(1) set by (simp add: phase_def parser_fill_buffer_def fail_def ERR_LEXICAL_def ERR_NO_ERR_def)
  qed (use set in auto)
qed

text \<open>An input of which one of the first tokens is rejected is not read to its end.\<close>

lemma scans_first:
  assumes "scans L ts L'"
  shows "\<exists>t L1. get_token no_token L = Some (ERR_NO_ERR, t, L1) \<and> (tok_type t = TOKEN_EOF \<or> (\<exists>us. scans L1 us L'))"
  using assms by (cases rule: scans.cases) (auto dest: get_token_any [where tok' = no_token])

primrec rejects :: "nat \<Rightarrow> lexer \<Rightarrow> bool" where
  "rejects 0 L = False"
| "rejects (Suc n) L = (case get_token no_token L of
     None \<Rightarrow> True
   | Some (res, t, L1) \<Rightarrow> res \<noteq> ERR_NO_ERR \<or> tok_type t \<noteq> TOKEN_EOF \<and> rejects n L1)"

lemma rejects_no_scan: "rejects n L \<Longrightarrow> \<not> scans L ts L'"
proof (induction n arbitrary: L ts)
  case (Suc n)
  show ?case
  proof
    assume "scans L ts L'"
    from scans_first [OF this] Suc show False by auto
  qed
qed simp

end
