(* ===== verification/Calls.thy ===== *)
theory Calls
  imports Block_Code
begin

text \<open>
  Calls of functions: the arguments in the order of the parameters, each with its label where
  the parameter has one, are accepted, and the generator is driven through exactly the calls
  that pass them.
\<close>

section \<open>What a call changes\<close>

text \<open>The position in the buffer, the pointers to the argument and the variable, and the code.\<close>

definition moved :: "codegen \<Rightarrow> parser \<Rightarrow> parser \<Rightarrow> bool" where
  "moved G P Q \<longleftrightarrow> (\<exists>B t a c. Q = P\<lparr>p_buffer := B, curr_tok := t, current_arg := a, current_id := c, p_cg := G\<rparr>)"

lemma moved_trans: "moved G P Q \<Longrightarrow> moved G' Q R \<Longrightarrow> moved G' P R"
  by (auto simp: moved_def) (metis parser.surjective parser.update_convs)

lemma moved_fields:
  assumes "moved G P Q"
  shows "p_cg Q = G" "p_stack Q = p_stack P" "global_symtab Q = global_symtab P" "p_heap Q = p_heap P"
    "last_func_id Q = last_func_id P" "rhs_id Q = rhs_id P"
  using assms by (auto simp: moved_def)

lemma moved_refl: "moved (p_cg P) P P"
  unfolding moved_def
  by (rule exI [of _ "p_buffer P"], rule exI [of _ "curr_tok P"], rule exI [of _ "current_arg P"],
      rule exI [of _ "current_id P"]) simp

lemma moved_advance: "moved (p_cg P) P (advance P)"
  unfolding moved_def advance_def Let_def
  by (rule exI [of _ "the (tb_next (p_buffer P))"], rule exI [of _ "the (tb_get_token (the (tb_next (p_buffer P))))"],
      rule exI [of _ "current_arg P"], rule exI [of _ "current_id P"]) simp

text \<open>The search for a name, in the scopes and then in the global table.\<close>

definition lookup :: "parser \<Rightarrow> string \<Rightarrow> nat option c" where
  "lookup P name = do {
     found \<leftarrow> (if peek_scope (p_stack P) then search_stack (p_stack P) name P else Some None);
     if found = None then search_global name P else Some found
   }"

lemma find_variable_lookup:
  "find_variable (p_stack P) name P = do { found \<leftarrow> lookup P name; Some (P\<lparr>current_id := found\<rparr>) }"
  by (simp add: find_variable_def lookup_def)

definition steady :: "parser \<Rightarrow> string \<Rightarrow> bool" where
  "steady P name \<longleftrightarrow> (\<forall>a. current_id P = Some a \<longrightarrow>
     (\<exists>it. sh_items (p_heap P) a = Some it \<and> (it_is_var_initialized it \<or> it_name it \<noteq> name)))"

lemma find_argument_lookup:
  "steady P name \<Longrightarrow> find_argument name P = do { found \<leftarrow> lookup P name; Some (P\<lparr>current_id := found\<rparr>) }"
  unfolding find_argument_def find_variable_lookup [symmetric]
  by (auto simp: steady_def item_at_def strcmp_eq_0)

text \<open>An environment of the variables the parser can see.\<close>

type_synonym vars = "string \<Rightarrow> symtab_item option"

definition sees :: "parser \<Rightarrow> vars \<Rightarrow> bool" where
  "sees P E \<longleftrightarrow> (\<forall>n it. E n = Some it \<longrightarrow> (\<exists>a. lookup P n = Some (Some a) \<and> sh_items (p_heap P) a = Some it))"

lemma moved_tables:
  assumes "moved G P Q"
  shows "lookup Q = lookup P" "sees Q E = sees P E" "env_of Q = env_of P" "item_at a Q = item_at a P" "param_at b Q = param_at b P"
    "param_pointer fn i Q = param_pointer fn i P"
proof -
  have "search_stack s n Q = search_stack s n P" "search_global n Q = search_global n P" for s n
    by (simp_all add: search_stack_def search_global_def moved_fields [OF assms])
  then show l: "lookup Q = lookup P"
    by (intro ext) (simp add: lookup_def moved_fields [OF assms] cong: if_cong)
  show "sees Q E = sees P E" by (simp add: sees_def l moved_fields [OF assms])
  show "env_of Q = env_of P" by (simp add: env_of_def moved_fields [OF assms])
  show "item_at a Q = item_at a P" by (simp add: item_at_def moved_fields [OF assms])
  show "param_at b Q = param_at b P" by (simp add: param_at_def moved_fields [OF assms])
  show "param_pointer fn i Q = param_pointer fn i P" by (simp add: param_pointer_def moved_fields [OF assms])
qed

section \<open>The arguments of a call\<close>

text \<open>
  A literal or a variable that fits a parameter; a variadic function takes all of them. A
  variable must have a value.
\<close>

definition literal_arg :: "bool \<Rightarrow> param \<Rightarrow> token \<Rightarrow> bool" where
  "literal_arg v p t \<longleftrightarrow>
     tok_type t = TOKEN_INT \<and> (v \<or> p_type p = T_integer) \<or>
     tok_type t = TOKEN_DBL \<and> (v \<or> p_type p = T_double) \<or>
     tok_type t = TOKEN_STRING \<and> (v \<or> p_type p = T_string) \<or>
     tok_type t = TOKEN_NIL \<and> (v \<or> p_is_nillable p = Some True)"

definition variable_arg :: "vars \<Rightarrow> bool \<Rightarrow> param \<Rightarrow> token \<Rightarrow> bool" where
  "variable_arg E v p x \<longleftrightarrow> tok_type x = TOKEN_IDENTIFIER \<and>
     (\<exists>n it. tok_value x = V_string n \<and> E n = Some it \<and> it_is_var_initialized it \<and>
        (v \<or> it_type it = p_type p \<and> p_is_nillable p = Some (it_is_nillable it)))"

inductive arg_phrase :: "vars \<Rightarrow> bool \<Rightarrow> param \<Rightarrow> token list \<Rightarrow> token \<Rightarrow> bool" for E v p where
  literal: "p_label p = Some ''_'' \<Longrightarrow> literal_arg v p t \<Longrightarrow> arg_phrase E v p [t] t"
| variable: "p_label p = Some ''_'' \<Longrightarrow> variable_arg E v p x \<Longrightarrow> arg_phrase E v p [x] x"
| named_literal: "p_label p = Some l \<Longrightarrow> l \<noteq> ''_'' \<Longrightarrow> tok_type x = TOKEN_IDENTIFIER \<Longrightarrow> tok_value x = V_string l \<Longrightarrow>
    tok_type c = TOKEN_COL \<Longrightarrow> literal_arg v p t \<Longrightarrow> arg_phrase E v p [x, c, t] t"
| named_variable: "p_label p = Some l \<Longrightarrow> l \<noteq> ''_'' \<Longrightarrow> tok_type x = TOKEN_IDENTIFIER \<Longrightarrow> tok_value x = V_string l \<Longrightarrow>
    tok_type c = TOKEN_COL \<Longrightarrow> variable_arg E False p y \<Longrightarrow> arg_phrase E v p [x, c, y] y"

text \<open>
  The arguments from the \<open>i\<close>-th parameter on, up to the closing parenthesis. A variadic function
  stays on its parameter.
\<close>

inductive args_phrase :: "vars \<Rightarrow> symtab_item \<Rightarrow> nat \<Rightarrow> token list \<Rightarrow> token list \<Rightarrow> bool" for E f where
  last_arg: "i < length (it_parameters f) \<Longrightarrow> arg_phrase E (it_variadic_param f) (it_parameters f ! i) ts t \<Longrightarrow>
    it_variadic_param f \<or> Suc i = length (it_parameters f) \<Longrightarrow> tok_type r = TOKEN_R_PAR \<Longrightarrow>
    args_phrase E f i (ts @ [r]) [t]"
| more_args: "i < length (it_parameters f) \<Longrightarrow> arg_phrase E (it_variadic_param f) (it_parameters f ! i) ts t \<Longrightarrow>
    tok_type c = TOKEN_COMMA \<Longrightarrow> args_phrase E f (if it_variadic_param f then i else Suc i) us vs \<Longrightarrow>
    args_phrase E f i (ts @ c # us) (t # vs)"

inductive call_phrase :: "vars \<Rightarrow> symtab_item \<Rightarrow> token list \<Rightarrow> token list \<Rightarrow> bool" for E f where
  no_args: "it_parameters f = [] \<or> it_variadic_param f \<Longrightarrow> tok_type r = TOKEN_R_PAR \<Longrightarrow> call_phrase E f [r] []"
| some_args: "args_phrase E f 0 ts vs \<Longrightarrow> call_phrase E f ts vs"

definition steady_for :: "parser \<Rightarrow> token list \<Rightarrow> bool" where
  "steady_for P vs \<longleftrightarrow> (\<forall>t\<in>set vs. \<forall>n. tok_value t = V_string n \<longrightarrow> steady P n)"

section \<open>One argument\<close>

lemma pass_argument_runs:
  assumes "item_at (last_func_id P) P = Some f" "code_generator_function_call_param_add (env_of P) (it_name f) (curr_tok P) (p_cg P) = Some G"
  shows "pass_argument P = Some (ERR_NO_ERR, P\<lparr>p_cg := G\<rparr>)"
  using assms by (simp add: pass_argument_def name_at_def generate_def success_def ERR_NO_ERR_def EXIT_SUCCESS_def)

text \<open>The parser on the value of an argument.\<close>

definition on_argument :: "vars \<Rightarrow> symtab_item \<Rightarrow> param \<Rightarrow> codegen \<Rightarrow> parser \<Rightarrow> bool" where
  "on_argument E f p G P \<longleftrightarrow> item_at (last_func_id P) P = Some f \<and> param_at (current_arg P) P = Some p \<and> sees P E \<and>
     code_generator_function_call_param_add (env_of P) (it_name f) (curr_tok P) (p_cg P) = Some G"

definition passed :: "codegen \<Rightarrow> parser \<Rightarrow> parser \<Rightarrow> bool" where
  "passed G P Q \<longleftrightarrow> moved G P Q \<and> p_buffer Q = p_buffer P \<and> curr_tok Q = curr_tok P \<and> current_arg Q = current_arg P \<and>
     (current_id Q = current_id P \<or> (\<forall>n. steady Q n))"

lemma literal_passed:
  assumes "on_argument E f p G P" "literal_arg (it_variadic_param f) p (curr_tok P)"
  shows "\<exists>Q. rule_literal P = Some (ERR_NO_ERR, Q) \<and> passed G P Q"
proof -
  have pass: "pass_argument P = Some (ERR_NO_ERR, P\<lparr>p_cg := G\<rparr>)"
    by (rule pass_argument_runs [of P f G]) (use assms(1) in \<open>simp_all add: on_argument_def\<close>)
  have "moved G P (P\<lparr>p_cg := G\<rparr>)" unfolding moved_def by (rule exI [of _ "p_buffer P"], rule exI [of _ "curr_tok P"],
      rule exI [of _ "current_arg P"], rule exI [of _ "current_id P"]) simp
  then have "passed G P (P\<lparr>p_cg := G\<rparr>)" by (simp add: passed_def)
  moreover have "rule_literal P = Some (ERR_NO_ERR, P\<lparr>p_cg := G\<rparr>)"
    using assms pass by (auto simp: rule_literal_def check_literal_def literal_arg_def on_argument_def)
  ultimately show ?thesis by blast
qed

lemma variable_found:
  assumes "on_argument E f p G P" "variable_arg E v p (curr_tok P)" "steady_for P [curr_tok P]"
  obtains n a it where "tok_str (curr_tok P) = Some n" "find_argument n P = Some (P\<lparr>current_id := Some a\<rparr>)"
    "sh_items (p_heap P) a = Some it" "it_is_var_initialized it" "v \<or> it_type it = p_type p \<and> p_is_nillable p = Some (it_is_nillable it)"
    "pass_argument (P\<lparr>current_id := Some a\<rparr>) = Some (ERR_NO_ERR, P\<lparr>current_id := Some a, p_cg := G\<rparr>)"
    "passed G P (P\<lparr>current_id := Some a, p_cg := G\<rparr>)"
proof -
  obtain n it where n: "tok_value (curr_tok P) = V_string n" "E n = Some it" "it_is_var_initialized it"
    "v \<or> it_type it = p_type p \<and> p_is_nillable p = Some (it_is_nillable it)"
    using assms(2) by (auto simp: variable_arg_def)
  obtain a where a: "lookup P n = Some (Some a)" "sh_items (p_heap P) a = Some it"
    using assms(1) n(2) by (auto simp: on_argument_def sees_def)
  have "steady P n" using assms(3) n(1) by (simp add: steady_for_def)
  then have find: "find_argument n P = Some (P\<lparr>current_id := Some a\<rparr>)" by (simp add: find_argument_lookup a(1))
  have e: "env_of (P\<lparr>current_id := Some a\<rparr>) = env_of P" by (simp add: env_of_def)
  have "pass_argument (P\<lparr>current_id := Some a\<rparr>) = Some (ERR_NO_ERR, (P\<lparr>current_id := Some a\<rparr>)\<lparr>p_cg := G\<rparr>)"
    by (rule pass_argument_runs [of _ f G]) (use assms(1) in \<open>simp_all add: on_argument_def item_at_def e\<close>)
  moreover have "moved G P (P\<lparr>current_id := Some a, p_cg := G\<rparr>)"
    unfolding moved_def by (rule exI [of _ "p_buffer P"], rule exI [of _ "curr_tok P"], rule exI [of _ "current_arg P"],
      rule exI [of _ "Some a"]) simp
  then have "passed G P (P\<lparr>current_id := Some a, p_cg := G\<rparr>)"
    using a(2) n(3) by (simp add: passed_def steady_def)
  moreover have "tok_str (curr_tok P) = Some n" using n(1) by (simp add: tok_str_def)
  ultimately show ?thesis using that [of n a it] find a(2) n(3,4) by simp
qed

lemma unlabelled_passed:
  assumes "on_argument E f p G P" "variable_arg E (it_variadic_param f) p (curr_tok P)" "steady_for P [curr_tok P]"
  shows "\<exists>Q. unlabelled_argument P = Some (ERR_NO_ERR, Q) \<and> passed G P Q"
proof -
  obtain n a it where v: "tok_str (curr_tok P) = Some n" "find_argument n P = Some (P\<lparr>current_id := Some a\<rparr>)"
    "sh_items (p_heap P) a = Some it" "it_is_var_initialized it"
    "it_variadic_param f \<or> it_type it = p_type p \<and> p_is_nillable p = Some (it_is_nillable it)"
    "pass_argument (P\<lparr>current_id := Some a\<rparr>) = Some (ERR_NO_ERR, P\<lparr>current_id := Some a, p_cg := G\<rparr>)"
    "passed G P (P\<lparr>current_id := Some a, p_cg := G\<rparr>)"
    by (rule variable_found [OF assms])
  have "item_at (last_func_id P) (P\<lparr>current_id := Some a\<rparr>) = Some f" "param_at (current_arg P) (P\<lparr>current_id := Some a\<rparr>) = Some p"
    using assms(1) by (simp_all add: on_argument_def item_at_def param_at_def)
  then have "unlabelled_argument P = Some (ERR_NO_ERR, P\<lparr>current_id := Some a, p_cg := G\<rparr>)"
    using v(1-6) by (auto simp: unlabelled_argument_def item_at_def)
  with v(7) show ?thesis by blast
qed

lemma term_passed:
  assumes "on_argument E f p G P" "literal_arg (it_variadic_param f) p (curr_tok P) \<or> variable_arg E False p (curr_tok P)"
    "steady_for P [curr_tok P]"
  shows "\<exists>Q. rule_term P = Some (ERR_NO_ERR, Q) \<and> passed G P Q"
  using assms(2)
proof
  assume l: "literal_arg (it_variadic_param f) p (curr_tok P)"
  then have "tok_type (curr_tok P) \<noteq> TOKEN_IDENTIFIER" by (auto simp: literal_arg_def)
  with literal_passed [OF assms(1) l] show ?thesis
    by (auto simp: rule_term_def NEXT_RULE_def success_def ERR_NO_ERR_def EXIT_SUCCESS_def)
next
  assume x: "variable_arg E False p (curr_tok P)"
  obtain n a it where v: "tok_str (curr_tok P) = Some n" "find_argument n P = Some (P\<lparr>current_id := Some a\<rparr>)"
    "sh_items (p_heap P) a = Some it" "it_is_var_initialized it"
    "False \<or> it_type it = p_type p \<and> p_is_nillable p = Some (it_is_nillable it)"
    "pass_argument (P\<lparr>current_id := Some a\<rparr>) = Some (ERR_NO_ERR, P\<lparr>current_id := Some a, p_cg := G\<rparr>)"
    "passed G P (P\<lparr>current_id := Some a, p_cg := G\<rparr>)"
    by (rule variable_found [OF assms(1) x assms(3)])
  have "param_at (current_arg P) (P\<lparr>current_id := Some a\<rparr>) = Some p"
    using assms(1) by (simp add: on_argument_def param_at_def)
  then have "rule_term P = Some (ERR_NO_ERR, P\<lparr>current_id := Some a, p_cg := G\<rparr>)"
    using v(1-6) x by (auto simp: rule_term_def item_at_def variable_arg_def)
  with v(7) show ?thesis by blast
qed


section \<open>The list of the arguments\<close>

text \<open>The parser reads an argument and stops on the token of its value.\<close>

lemma sees_steady_advance:
  "steady_for P vs \<Longrightarrow> steady_for (advance P) vs"
  by (simp add: steady_for_def steady_def advance_def Let_def)

lemma on_argument_advance:
  assumes "curr_tok (advance P) = t"
  shows "on_argument E f p G (advance P) \<longleftrightarrow> item_at (last_func_id P) P = Some f \<and> param_at (current_arg P) P = Some p \<and> sees P E \<and>
     code_generator_function_call_param_add (env_of P) (it_name f) t (p_cg P) = Some G"
proof -
  have "current_arg (advance P) = current_arg P" by (simp add: advance_def Let_def)
  then show ?thesis
    by (simp add: on_argument_def moved_tables [OF moved_advance] moved_fields [OF moved_advance] assms)
qed

definition takes :: "vars \<Rightarrow> symtab_item \<Rightarrow> param \<Rightarrow> parser \<Rightarrow> bool" where
  "takes E f p P \<longleftrightarrow> item_at (last_func_id P) P = Some f \<and> param_at (current_arg P) P = Some p \<and> current_arg P \<noteq> None \<and> sees P E"

lemma takes_on_argument:
  "takes E f p P \<Longrightarrow> code_generator_function_call_param_add (env_of P) (it_name f) (curr_tok P) (p_cg P) = Some G \<Longrightarrow> on_argument E f p G P"
  by (simp add: takes_def on_argument_def)

lemma takes_advance: "takes E f p P \<Longrightarrow> takes E f p (advance P)"
proof -
  assume t: "takes E f p P"
  have "current_arg (advance P) = current_arg P" by (simp add: advance_def Let_def)
  then show ?thesis
    using t by (simp add: takes_def moved_tables [OF moved_advance] moved_fields [OF moved_advance])
qed

lemma passed_reading:
  assumes "passed G P Q" "reading toks i ts P"
  shows "reading toks i ts Q"
proof -
  obtain B t a c where "Q = P\<lparr>p_buffer := B, curr_tok := t, current_arg := a, current_id := c, p_cg := G\<rparr>"
    using assms(1) by (auto simp: passed_def moved_def)
  with assms show ?thesis by (auto simp: passed_def reading_def at_token_def)
qed

definition arg_done :: "token list \<Rightarrow> token list \<Rightarrow> codegen \<Rightarrow> parser \<Rightarrow> parser \<Rightarrow> bool" where
  "arg_done toks us G P Q \<longleftrightarrow> (\<exists>j. reading toks j us Q) \<and> moved G P Q \<and> current_arg Q = current_arg P \<and>
     (current_id Q = current_id P \<or> (\<forall>n. steady Q n))"

lemma passed_done:
  assumes "passed G P Q" "reading toks i us P"
  shows "arg_done toks us G P Q"
  using assms passed_reading [OF assms] by (auto simp: arg_done_def passed_def)

lemma arg_done_advance:
  assumes "arg_done toks us G (advance P) Q"
  shows "arg_done toks us G P Q"
proof -
  have "current_arg (advance P) = current_arg P" "current_id (advance P) = current_id P" by (simp_all add: advance_def Let_def)
  then show ?thesis using assms moved_trans [OF moved_advance] by (auto simp: arg_done_def)
qed

lemma named_arg_runs:
  assumes "p_label p = Some l" "l \<noteq> ''_''" "tok_type x = TOKEN_IDENTIFIER" "tok_value x = V_string l" "tok_type c = TOKEN_COL"
    and fits: "literal_arg (it_variadic_param f) p t \<or> variable_arg E False p t"
    and r: "reading toks i (x # c # t # us) P" and P: "takes E f p P" "steady_for P [t]"
    "code_generator_function_call_param_add (env_of P) (it_name f) t (p_cg P) = Some G"
  shows "\<exists>Q. rule_arg P = Some (ERR_NO_ERR, Q) \<and> arg_done toks (t # us) G P Q"
proof -
  let ?Q = "advance (advance P)"
  note r1 = reading_advance [OF r]
  note r2 = reading_advance [OF r1(2)]
  have c: "curr_tok P = x" "curr_tok (advance P) = c" "curr_tok ?Q = t"
    using reading_curr [OF r] reading_curr [OF r1(2)] reading_curr [OF r2(2)] by simp_all
  have tk: "takes E f p ?Q" by (rule takes_advance [OF takes_advance [OF P(1)]])
  have "env_of ?Q = env_of P" "p_cg ?Q = p_cg P" by (simp_all add: moved_tables [OF moved_advance] moved_fields [OF moved_advance])
  then have "on_argument E f p G ?Q" unfolding c(3) by (intro takes_on_argument [OF tk]) (simp only: c(3) P(3))
  then obtain Q where Q: "rule_term ?Q = Some (ERR_NO_ERR, Q)" "passed G ?Q Q"
    using term_passed [of E f p G ?Q] fits c(3) sees_steady_advance [OF sees_steady_advance [OF P(2)]] by auto
  have "arg_done toks (t # us) G P Q"
    by (rule arg_done_advance [OF arg_done_advance [OF passed_done [OF Q(2) r2(2)]]])
  moreover have "rule_arg P = Some (ERR_NO_ERR, Q)"
    using Q(1) P(1) c assms(1-5) r1(1) r2(1)
    by (auto simp: rule_arg_def rule_opt_arg_def takes_def NEXT_RULE_def success_def ERR_NO_ERR_def EXIT_SUCCESS_def strcmp_eq_0 tok_str_def)
  ultimately show ?thesis by blast
qed

lemma arg_runs:
  assumes "arg_phrase E (it_variadic_param f) p ts t" "reading toks i (ts @ us) P" "takes E f p P" "steady_for P [t]"
    "code_generator_function_call_param_add (env_of P) (it_name f) t (p_cg P) = Some G"
  shows "\<exists>Q. rule_arg P = Some (ERR_NO_ERR, Q) \<and> arg_done toks (t # us) G P Q"
  using assms(1)
proof cases
  case literal
  have c: "curr_tok P = t" using assms(2) literal(1) reading_curr by simp
  obtain Q where "rule_literal P = Some (ERR_NO_ERR, Q)" "passed G P Q"
    using literal_passed [OF takes_on_argument [OF assms(3)], of G] assms(5) literal(3) c by auto
  moreover have "tok_type t \<noteq> TOKEN_IDENTIFIER" using literal(3) by (auto simp: literal_arg_def)
  ultimately show ?thesis
    using passed_done [of G P Q toks i "t # us"] assms(2,3) literal(1,2) c
    by (auto simp: rule_arg_def takes_def NEXT_RULE_def success_def ERR_NO_ERR_def EXIT_SUCCESS_def strcmp_eq_0)
next
  case variable
  have c: "curr_tok P = t" using assms(2) variable(1) reading_curr by simp
  obtain Q where "unlabelled_argument P = Some (ERR_NO_ERR, Q)" "passed G P Q"
    using unlabelled_passed [OF takes_on_argument [OF assms(3)], of G] assms(4,5) variable(3) c by auto
  moreover obtain n where "tok_type t = TOKEN_IDENTIFIER" "tok_str t = Some n"
    using variable(3) by (auto simp: variable_arg_def tok_str_def)
  ultimately show ?thesis
    using passed_done [of G P Q toks i "t # us"] assms(2,3) variable(1,2) c
    by (auto simp: rule_arg_def takes_def NEXT_RULE_def success_def ERR_NO_ERR_def EXIT_SUCCESS_def strcmp_eq_0)
next
  case (named_literal l x c)
  then show ?thesis using named_arg_runs [OF named_literal(2-6) _ _ assms(3-5)] assms(2) by auto
next
  case (named_variable l x c)
  then show ?thesis using named_arg_runs [OF named_variable(2-6) _ _ assms(3-5)] assms(2) by auto
qed


section \<open>All arguments\<close>

lemma arg_done_steady:
  assumes "arg_done toks us G P Q" "steady_for P vs"
  shows "steady_for Q vs"
  using assms by (auto simp: arg_done_def steady_for_def steady_def moved_fields)

definition at_param :: "vars \<Rightarrow> nat \<Rightarrow> symtab_item \<Rightarrow> nat \<Rightarrow> parser \<Rightarrow> bool" where
  "at_param E fn f i P \<longleftrightarrow> last_func_id P = Some fn \<and> sh_items (p_heap P) fn = Some f \<and> current_arg P = Some (fn, i) \<and>
     i < length (it_parameters f) \<and> sees P E"

lemma at_param_takes: "at_param E fn f i P \<Longrightarrow> takes E f (it_parameters f ! i) P"
  by (simp add: at_param_def takes_def item_at_def param_at_def)

lemma at_param_done:
  assumes "arg_done toks us G P Q" "at_param E fn f i P"
  shows "at_param E fn f i Q" "env_of Q = env_of P"
  using assms by (auto simp: arg_done_def at_param_def moved_fields moved_tables)

text \<open>The code of an argument, then the parser on the token behind it.\<close>

lemma arg_then:
  assumes "arg_phrase E (it_variadic_param f) (it_parameters f ! i) ts t" "reading toks n (ts @ s # us) P" "at_param E fn f i P"
    "steady_for P (t # vs)" "pass_params (env_of P) (it_name f) (t # vs) (p_cg P) = Some G"
  obtains Q m where "\<And>k. NEXT_RULE rule_arg (GET_TOKEN k) P = k Q" "reading toks m (s # us) Q" "at_param E fn f i Q"
    "steady_for Q vs" "pass_params (env_of Q) (it_name f) vs (p_cg Q) = Some G" "moved (p_cg Q) P Q"
proof -
  obtain G1 where G1: "code_generator_function_call_param_add (env_of P) (it_name f) t (p_cg P) = Some G1"
    "pass_params (env_of P) (it_name f) vs G1 = Some G"
    using assms(5) by (auto simp: bind_Some_iff)
  have st: "steady_for P [t]" "steady_for P vs" using assms(4) by (simp_all add: steady_for_def)
  obtain Q where Q: "rule_arg P = Some (ERR_NO_ERR, Q)" "arg_done toks (t # s # us) G1 P Q"
    using arg_runs [OF assms(1,2) at_param_takes [OF assms(3)] st(1) G1(1)] by blast
  obtain j where j: "reading toks j (t # s # us) Q" using Q(2) by (auto simp: arg_done_def)
  note r = reading_advance [OF j]
  have a: "arg_done toks (s # us) G1 P (advance Q)"
  proof -
    have "moved G1 P (advance Q)"
      using Q(2) moved_trans [of G1 P Q "p_cg Q" "advance Q"] moved_advance [of Q] by (auto simp: arg_done_def moved_fields)
    moreover have "current_arg (advance Q) = current_arg Q" "current_id (advance Q) = current_id Q" "p_heap (advance Q) = p_heap Q"
      by (simp_all add: advance_def Let_def)
    ultimately show ?thesis using Q(2) r(2) by (auto simp: arg_done_def steady_def)
  qed
  have "NEXT_RULE rule_arg (GET_TOKEN k) P = k (advance Q)" for k
    using Q(1) r(1) by (simp add: NEXT_RULE_def ERR_NO_ERR_def)
  moreover have "moved G1 P (advance Q)" using a by (simp add: arg_done_def)
  note g = this moved_fields(1) [OF this]
  moreover have "moved (p_cg (advance Q)) P (advance Q)" using g by simp
  ultimately show ?thesis
    using that [of "advance Q"] r(2) at_param_done [OF a assms(3)] arg_done_steady [OF a st(2)] G1(2) by simp
qed

lemma next_param:
  assumes "at_param E fn f i P"
  shows "item_at (last_func_id P) P = Some f"
    "param_next_pointer (current_arg P) P = Some (if Suc i < length (it_parameters f) then Some (fn, Suc i) else None)"
  using assms by (simp_all add: at_param_def item_at_def param_next_pointer_def param_at_def param_pointer_def)

text \<open>Behind a comma the next argument begins, for the next parameter.\<close>

lemma comma_then:
  assumes r: "reading toks m (c # y # ys) Q" "tok_type c = TOKEN_COMMA" and Q: "at_param E fn f i Q"
    and i: "k = (if it_variadic_param f then i else Suc i)" "k < length (it_parameters f)"
  obtains R where "rule_arg_next Q = NEXT_RULE rule_arg (GET_TOKEN (NEXT_RULE rule_arg_next success)) R"
    "reading toks (Suc m) (y # ys) R" "moved (p_cg Q) Q R" "at_param E fn f k R" "current_id R = current_id Q"
proof -
  let ?Q = "Q\<lparr>current_arg := Some (fn, k)\<rparr>"
  have mQ: "moved (p_cg Q) Q ?Q"
    unfolding moved_def by (rule exI [of _ "p_buffer Q"], rule exI [of _ "curr_tok Q"], rule exI [of _ "Some (fn, k)"],
      rule exI [of _ "current_id Q"]) simp
  have rQ: "reading toks m (c # y # ys) ?Q" using r(1) by (simp add: reading_def at_token_def)
  have mA: "moved (p_cg Q) Q (advance ?Q)" using moved_trans [OF mQ moved_advance] by simp
  have p: "at_param E fn f k (advance ?Q)"
    using Q i(2) moved_tables [OF mA] moved_fields [OF mA] by (auto simp: at_param_def advance_def Let_def)
  have c: "tok_type (curr_tok Q) = TOKEN_COMMA" using reading_curr [OF r(1)] r(2) by simp
  have "rule_arg_next Q = GET_TOKEN (NEXT_RULE rule_arg (GET_TOKEN (NEXT_RULE rule_arg_next success))) ?Q"
  proof (cases "it_variadic_param f")
    case True
    then have "?Q = Q" using Q i(1) by (cases Q) (simp add: at_param_def)
    then show ?thesis using c True next_param [OF Q] by (subst rule_arg_next.simps) simp
  next
    case False
    then show ?thesis using c i next_param [OF Q] by (subst rule_arg_next.simps) simp
  qed
  then show ?thesis
    using that [of "advance ?Q"] reading_advance [OF rQ] mA p by (simp add: advance_def Let_def)
qed

lemma args_run:
  assumes "args_phrase E f i ts vs" "reading toks n (ts @ b # us) P" "at_param E fn f i P" "steady_for P vs"
    "pass_params (env_of P) (it_name f) vs (p_cg P) = Some G"
  shows "\<exists>Q m. NEXT_RULE rule_arg (GET_TOKEN (NEXT_RULE rule_arg_next success)) P = Some (ERR_NO_ERR, Q) \<and>
    reading toks m (b # us) Q \<and> moved G P Q"
  using assms
proof (induction arbitrary: n P rule: args_phrase.induct)
  case (last_arg i ts t r)
  have r0: "reading toks n (ts @ r # b # us) P" using last_arg.prems(1) by simp
  obtain Q m where Q: "\<And>k. NEXT_RULE rule_arg (GET_TOKEN k) P = k Q" "reading toks m (r # b # us) Q" "at_param E fn f i Q"
    "pass_params (env_of Q) (it_name f) [] (p_cg Q) = Some G" "moved (p_cg Q) P Q"
    by (rule arg_then [OF last_arg.hyps(2) r0 last_arg.prems(2-4)]) blast
  note r = reading_advance [OF Q(2)]
  have "rule_arg_next Q = GET_TOKEN success Q"
    using reading_curr [OF Q(2)] last_arg.hyps(3,4) next_param [OF Q(3)]
    by (subst rule_arg_next.simps) auto
  then have "NEXT_RULE rule_arg_next success Q = Some (ERR_NO_ERR, advance Q)"
    using r(1) by (simp add: NEXT_RULE_def success_def ERR_NO_ERR_def EXIT_SUCCESS_def)
  moreover have "moved G P (advance Q)" using Q(4,5) moved_trans [OF Q(5) moved_advance] by simp
  ultimately show ?case using Q(1) r(2) by auto
next
  case (more_args i ts t c us' vs)
  have r0: "reading toks n (ts @ c # (us' @ b # us)) P" using more_args.prems(1) by simp
  obtain Q m where Q: "\<And>k. NEXT_RULE rule_arg (GET_TOKEN k) P = k Q" "reading toks m (c # us' @ b # us) Q" "at_param E fn f i Q"
    "steady_for Q vs" "pass_params (env_of Q) (it_name f) vs (p_cg Q) = Some G" "moved (p_cg Q) P Q"
    by (rule arg_then [OF more_args.hyps(2) r0 more_args.prems(2-4)]) blast
  let ?i = "if it_variadic_param f then i else Suc i"
  have i: "?i < length (it_parameters f)" using more_args.hyps(4) by (cases rule: args_phrase.cases) auto
  obtain y ys where y: "us' @ b # us = y # ys" by (cases us') auto
  obtain A where A: "rule_arg_next Q = NEXT_RULE rule_arg (GET_TOKEN (NEXT_RULE rule_arg_next success)) A"
    "reading toks (Suc m) (us' @ b # us) A" "moved (p_cg Q) Q A" "at_param E fn f ?i A" "current_id A = current_id Q"
    using comma_then [OF Q(2) [unfolded y] more_args.hyps(3) Q(3) refl i] unfolding y by metis
  have "steady_for A vs" using Q(4) A(3,5) by (simp add: steady_for_def steady_def moved_fields)
  moreover have "pass_params (env_of A) (it_name f) vs (p_cg A) = Some G"
    using Q(5) by (simp only: moved_tables(3) [OF A(3)] moved_fields(1) [OF A(3)])
  ultimately obtain R k where R: "NEXT_RULE rule_arg (GET_TOKEN (NEXT_RULE rule_arg_next success)) A = Some (ERR_NO_ERR, R)"
    "reading toks k (b # us) R" "moved G A R"
    using more_args.IH [OF A(2,4)] by blast
  have "NEXT_RULE rule_arg_next success Q = Some (ERR_NO_ERR, R)"
    using A(1) R(1) by (simp add: NEXT_RULE_def success_def ERR_NO_ERR_def EXIT_SUCCESS_def)
  then show ?case using Q(1) R(2) moved_trans [OF moved_trans [OF Q(6) A(3)] R(3)] by auto
qed

section \<open>A call\<close>

lemma rule_funccall_steps:
  assumes r: "reading toks n (x # l # t # us) P" "tok_type l = TOKEN_L_PAR" and fn: "rhs_id P = Some fn"
  obtains Q where "rule_funccall P = NEXT_RULE rule_arg_list (finish_call (last_func_id P)) Q"
    "reading toks (Suc (Suc n)) (t # us) Q" "last_func_id Q = Some fn" "Q\<lparr>last_func_id := last_func_id P\<rparr> = advance (advance P)"
    "env_of Q = env_of P" "p_cg Q = p_cg P" "p_heap Q = p_heap P" "lookup Q = lookup P" "current_id Q = current_id P"
proof -
  let ?L = "(advance P)\<lparr>last_func_id := Some fn\<rparr>"
  note r1 = reading_advance [OF r(1)]
  have rL: "reading toks (Suc n) (l # t # us) ?L" using r1(2) by (simp add: reading_def at_token_def)
  note r2 = reading_advance [OF rL]
  have L: "last_func_id (advance P) = last_func_id P" "rhs_id (advance P) = Some fn" "tok_type (curr_tok (advance P)) = TOKEN_L_PAR"
    using fn reading_curr [OF r1(2)] r(2) by (simp_all add: moved_fields [OF moved_advance])
  have e: "env_of ?L = env_of P" by (simp add: env_of_def moved_fields [OF moved_advance])
  have "lookup ?L = lookup (advance P)"
    by (intro ext) (simp add: lookup_def search_stack_def search_global_def cong: if_cong)
  then have k: "lookup ?L = lookup P" by (simp only: moved_tables(1) [OF moved_advance])
  have "rule_funccall P = NEXT_RULE rule_arg_list (finish_call (last_func_id P)) (advance ?L)"
    using r1(1) r2(1) L by (simp add: rule_funccall_def ASSERT_TOK_TYPE_def Let_def)
  moreover have "(advance ?L)\<lparr>last_func_id := last_func_id P\<rparr> = advance (advance P)"
    using L(1) by (simp add: advance_def Let_def)
  moreover have "current_id (advance ?L) = current_id P" "last_func_id (advance ?L) = Some fn" "p_cg (advance ?L) = p_cg P"
    "p_heap (advance ?L) = p_heap P"
    by (simp_all add: advance_def Let_def)
  moreover have "env_of (advance ?L) = env_of P" by (simp only: moved_tables(3) [OF moved_advance] e)
  moreover have "lookup (advance ?L) = lookup P" by (simp only: moved_tables(1) [OF moved_advance] k)
  ultimately show ?thesis using that [of "advance ?L"] r2(2) by blast
qed

lemma call_args_run:
  assumes "call_phrase E f ts vs" "reading toks n (ts @ b # us) P"
    and P: "last_func_id P = Some fn" "sh_items (p_heap P) fn = Some f" "sees P E" "steady_for P vs"
    and G: "pass_params (env_of P) (it_name f) vs (p_cg P) = Some G"
  shows "\<exists>Q m. rule_arg_list P = Some (ERR_NO_ERR, Q) \<and> reading toks m (b # us) Q \<and> moved G P Q"
proof -
  let ?a = "if 0 < length (it_parameters f) then Some (fn, 0) else None"
  let ?Q = "P\<lparr>current_arg := ?a\<rparr>"
  have l: "rule_arg_list P =
     (if tok_type (curr_tok ?Q) = TOKEN_R_PAR then
       (if \<not> it_variadic_param f \<and> ?a \<noteq> None then fail_naming (last_func_id ?Q) ERR_FUNCTION_PARAMETER ?Q else GET_TOKEN success ?Q)
     else if \<not> it_variadic_param f \<and> ?a = None then fail_naming (last_func_id ?Q) ERR_FUNCTION_PARAMETER ?Q
     else NEXT_RULE rule_arg (GET_TOKEN (NEXT_RULE rule_arg_next success)) ?Q)"
    using P(1,2) by (simp add: rule_arg_list_def item_at_def param_pointer_def Let_def)
  have rQ: "reading toks n (ts @ b # us) ?Q" using assms(2) by (simp add: reading_def at_token_def)
  have mQ: "moved (p_cg P) P ?Q"
    unfolding moved_def by (rule exI [of _ "p_buffer P"], rule exI [of _ "curr_tok P"], rule exI [of _ ?a],
      rule exI [of _ "current_id P"]) simp
  from assms(1) show ?thesis
  proof cases
    case (no_args r)
    then have rr: "reading toks n (r # b # us) ?Q" using rQ by simp
    have "rule_arg_list P = Some (ERR_NO_ERR, advance ?Q)"
      using l no_args(3,4) reading_curr [OF rr] reading_advance(1) [OF rr]
      by (auto simp: success_def ERR_NO_ERR_def EXIT_SUCCESS_def)
    moreover have "moved G P (advance ?Q)" using moved_trans [OF mQ moved_advance] G no_args(2) by simp
    ultimately show ?thesis using reading_advance(2) [OF rr] by blast
  next
    case some_args
    then have i: "0 < length (it_parameters f)" by (cases rule: args_phrase.cases) auto
    have h: "tok_type (curr_tok ?Q) \<noteq> TOKEN_R_PAR"
    proof -
      obtain ts' t s us' where "arg_phrase E (it_variadic_param f) (it_parameters f ! 0) ts' t" "ts = ts' @ s # us'"
        using some_args by (cases rule: args_phrase.cases) auto
      then obtain y ys where "ts = y # ys" "tok_type y \<noteq> TOKEN_R_PAR"
        by (cases rule: arg_phrase.cases) (auto simp: literal_arg_def variable_arg_def)
      then show ?thesis using rQ by (simp add: reading_def)
    qed
    have "at_param E fn f 0 ?Q"
      using P(1,2,3) i moved_tables(2) [OF mQ] by (simp add: at_param_def)
    moreover have "steady_for ?Q vs" using P(4) by (simp add: steady_for_def steady_def)
    moreover have "pass_params (env_of ?Q) (it_name f) vs (p_cg ?Q) = Some G"
      using G by (simp only: moved_tables(3) [OF mQ] moved_fields(1) [OF mQ])
    ultimately obtain Q m where Q: "NEXT_RULE rule_arg (GET_TOKEN (NEXT_RULE rule_arg_next success)) ?Q = Some (ERR_NO_ERR, Q)"
      "reading toks m (b # us) Q" "moved G ?Q Q"
      using args_run [OF some_args rQ] by blast
    then show ?thesis using l h i moved_trans [OF mQ Q(3)] by auto
  qed
qed

lemma call_runs:
  assumes call: "call_phrase E f ts vs" and r: "reading toks n (x # l # ts @ b # us) P" "tok_type l = TOKEN_L_PAR"
    and P: "rhs_id P = Some fn" "sh_items (p_heap P) fn = Some f" "sees P E" "steady_for P vs"
    and G: "run [pass_params (env_of P) (it_name f) vs, code_generator_function_call (it_name f)] (p_cg P) = Some G"
  shows "\<exists>Q m. rule_funccall P = Some (ERR_NO_ERR, Q) \<and> reading toks m (b # us) Q \<and> moved G P Q"
proof -
  obtain t ts' where t: "ts @ b # us = t # ts'" by (cases ts) auto
  obtain G1 where G1: "pass_params (env_of P) (it_name f) vs (p_cg P) = Some G1" "code_generator_function_call (it_name f) G1 = Some G"
    using G by (auto simp: bind_Some_iff)
  obtain Q where Q: "rule_funccall P = NEXT_RULE rule_arg_list (finish_call (last_func_id P)) Q"
    "reading toks (Suc (Suc n)) (ts @ b # us) Q" "last_func_id Q = Some fn" "Q\<lparr>last_func_id := last_func_id P\<rparr> = advance (advance P)"
    "env_of Q = env_of P" "p_cg Q = p_cg P" "p_heap Q = p_heap P" "lookup Q = lookup P" "current_id Q = current_id P"
    using rule_funccall_steps [OF r(1) [unfolded t] r(2) P(1)] unfolding t by metis
  have "sees Q E" using P(3) Q(7,8) by (simp add: sees_def)
  moreover have "steady_for Q vs" using P(4) Q(7,9) by (simp add: steady_for_def steady_def)
  moreover have "pass_params (env_of Q) (it_name f) vs (p_cg Q) = Some G1" using G1(1) by (simp only: Q(5,6))
  moreover have "sh_items (p_heap Q) fn = Some f" using P(2) Q(7) by simp
  ultimately obtain R m where R: "rule_arg_list Q = Some (ERR_NO_ERR, R)" "reading toks m (b # us) R" "moved G1 Q R"
    using call_args_run [OF call Q(2,3)] by blast
  let ?S = "R\<lparr>p_cg := G, last_func_id := last_func_id P\<rparr>"
  have "name_at (last_func_id R) R = Some (it_name f)"
    using P(2) Q(3,7) moved_fields [OF R(3)] by (simp add: name_at_def item_at_def)
  then have "rule_funccall P = Some (ERR_NO_ERR, ?S)"
    using Q(1) R(1) G1(2) moved_fields(1) [OF R(3)]
    by (simp add: NEXT_RULE_def finish_call_def generate_def success_def ERR_NO_ERR_def EXIT_SUCCESS_def)
  moreover have "reading toks m (b # us) ?S" using R(2) by (simp add: reading_def at_token_def)
  moreover have "moved G P ?S"
  proof -
    obtain B t a c where "R = Q\<lparr>p_buffer := B, curr_tok := t, current_arg := a, current_id := c, p_cg := G1\<rparr>"
      using R(3) by (auto simp: moved_def)
    then have "?S = (Q\<lparr>last_func_id := last_func_id P\<rparr>)\<lparr>p_buffer := B, curr_tok := t, current_arg := a, current_id := c, p_cg := G\<rparr>"
      by simp
    then have "moved G (advance (advance P)) ?S" unfolding Q(4) moved_def by blast
    then show ?thesis using moved_trans [OF moved_trans [OF moved_advance moved_advance]] by blast
  qed
  ultimately show ?thesis by blast
qed

text \<open>The code of a call that creates a frame for its parameters.\<close>

lemma call_writes:
  assumes call: "call_phrase E f ts vs" and r: "reading toks n (x # l # ts @ b # us) P" "tok_type l = TOKEN_L_PAR"
    and P: "rhs_id P = Some fn" "sh_items (p_heap P) fn = Some f" "sees P E" "steady_for P vs"
    and frame: "code_generator_need_function_frame (it_name f)" "plain (it_name f)" "length vs < 2 ^ 32"
    and es: "list_all2 (\<lambda>t es. \<forall>i. prints {i} k (code_generator_print_value (env_of P) t) es) vs ess"
    and G: "cg_wf (p_cg P)" "unat (for_open (p_cg P)) + k < 2 ^ 32" "func_param_id (p_cg P) = 0"
  shows "\<exists>Q m. rule_funccall P = Some (ERR_NO_ERR, Q) \<and> reading toks m (b # us) Q \<and> moved (p_cg Q) P Q \<and>
    writes (call_events (it_name f) ess) (p_cg P) (p_cg Q)"
proof -
  obtain G' where G': "run [pass_params (env_of P) (it_name f) vs, code_generator_function_call (it_name f)] (p_cg P) = Some G'"
    "writes (call_events (it_name f) ess) (p_cg P) G'"
    by (rule printsE [OF prints_call [OF frame es] G(1,2)]) (use G(3) in auto)
  from call_runs [OF call r P G'(1)] G'(2) show ?thesis using moved_fields(1) by metis
qed

section \<open>Faults in the arguments\<close>

text \<open>
  A label must be followed by a colon and a value; but without the colon \<open>opt_arg\<close> takes the
  empty alternative, and the token behind the label is skipped, whatever it is.
\<close>

lemma label_alone:
  assumes "reading toks i (x # c # us) P" "tok_type x = TOKEN_IDENTIFIER" "tok_value x = V_string l" "tok_type c \<noteq> TOKEN_COL"
    "param_at (current_arg P) P = Some p" "p_label p = Some l" "l \<noteq> ''_''"
  shows "rule_arg P = Some (ERR_NO_ERR, advance P)"
  using reading_advance [OF assms(1)] reading_curr [OF assms(1)] reading_curr [OF reading_advance(2) [OF assms(1)]] assms(2-)
  by (simp add: rule_arg_def rule_opt_arg_def NEXT_RULE_def success_def ERR_NO_ERR_def EXIT_SUCCESS_def strcmp_eq_0 tok_str_def)

lemma unat_less: "unat (w :: 32 word) + 0 < 2 ^ 32"
proof -
  have "unat w < 2 ^ LENGTH(32)" by (rule unsigned_less)
  then show ?thesis by simp
qed

lemma call_without_value:
  assumes r: "reading toks n (x # l # y # c # q # b # us) P" "tok_type l = TOKEN_L_PAR" "tok_type q = TOKEN_R_PAR"
    and y: "tok_type y = TOKEN_IDENTIFIER" "tok_value y = V_string key" "tok_type c \<noteq> TOKEN_COL"
    and P: "rhs_id P = Some fn" "sh_items (p_heap P) fn = Some f"
    and f: "it_parameters f = [p]" "p_label p = Some key" "key \<noteq> ''_''" "\<not> it_variadic_param f"
    and frame: "code_generator_need_function_frame (it_name f)" "plain (it_name f)"
    and G: "cg_wf (p_cg P)" "func_param_id (p_cg P) = 0"
  shows "\<exists>Q m. rule_funccall P = Some (ERR_NO_ERR, Q) \<and> reading toks m (b # us) Q \<and>
    writes (call_events (it_name f) []) (p_cg P) (p_cg Q)"
proof -
  obtain Q where Q: "rule_funccall P = NEXT_RULE rule_arg_list (finish_call (last_func_id P)) Q"
    "reading toks (Suc (Suc n)) (y # c # q # b # us) Q" "last_func_id Q = Some fn" "p_cg Q = p_cg P" "p_heap Q = p_heap P"
    using rule_funccall_steps [OF r(1,2) P(1)] by metis
  let ?A = "Q\<lparr>current_arg := Some (fn, 0)\<rparr>"
  have rA: "reading toks (Suc (Suc n)) (y # c # q # b # us) ?A" using Q(2) by (simp add: reading_def at_token_def)
  have pA: "param_at (current_arg ?A) ?A = Some p" using P(2) Q(5) f(1) by (simp add: param_at_def)
  let ?B = "advance (advance ?A)" let ?C = "advance ?B"
  note r1 = reading_advance [OF rA]
  note r2 = reading_advance [OF r1(2)]
  note r3 = reading_advance [OF r2(2)]
  have fields: "last_func_id ?B = Some fn" "current_arg ?B = Some (fn, 0)" "p_heap ?B = p_heap P" "p_cg ?C = p_cg P"
    "last_func_id ?C = Some fn" "p_heap ?C = p_heap P"
    using Q(3-5) by (simp_all add: advance_def Let_def)
  have "rule_arg_next ?B = Some (ERR_NO_ERR, ?C)"
    using reading_curr [OF r2(2)] r(3) r3(1) fields P(2) f
    by (subst rule_arg_next.simps)
      (simp add: item_at_def param_next_pointer_def param_at_def param_pointer_def success_def ERR_NO_ERR_def EXIT_SUCCESS_def)
  then have l: "rule_arg_list Q = Some (ERR_NO_ERR, ?C)"
    using label_alone [OF rA y pA f(2,3)] r2(1) reading_curr [OF Q(2)] y(1) P(2) Q(3,5) f(1,4)
    by (simp add: rule_arg_list_def item_at_def param_pointer_def Let_def NEXT_RULE_def success_def ERR_NO_ERR_def EXIT_SUCCESS_def)
  have k: "unat (for_open (p_cg P)) + 0 < 2 ^ 32" by (rule unat_less)
  obtain G' where G': "run [pass_params (env_of P) (it_name f) [], code_generator_function_call (it_name f)] (p_cg P) = Some G'"
    "writes (call_events (it_name f) []) (p_cg P) G'"
    by (rule printsE [OF prints_call [OF frame, of "[]" 0 "env_of P" "[]"] G(1) k]) (use G(2) in auto)
  have "code_generator_function_call (it_name f) (p_cg P) = Some G'" using G'(1) by (auto simp: bind_Some_iff)
  then have "rule_funccall P = Some (ERR_NO_ERR, ?C\<lparr>p_cg := G', last_func_id := last_func_id P\<rparr>)"
    using Q(1) l fields P(2)
    by (simp add: NEXT_RULE_def finish_call_def generate_def name_at_def item_at_def success_def ERR_NO_ERR_def EXIT_SUCCESS_def)
  moreover have "reading toks (Suc (Suc (Suc (Suc (Suc n))))) (b # us) (?C\<lparr>p_cg := G', last_func_id := last_func_id P\<rparr>)"
    using r3(2) by (simp add: reading_def at_token_def)
  ultimately show ?thesis using G'(2) by auto
qed

text \<open>A variable behind a label is not asked whether it has a value.\<close>

lemma labelled_uninitialised:
  assumes "on_argument E f p G P" "tok_type (curr_tok P) = TOKEN_IDENTIFIER" "tok_value (curr_tok P) = V_string n" "steady P n"
    "lookup P n = Some (Some a)" "sh_items (p_heap P) a = Some it" "it_type it = p_type p"
  shows "rule_term P = Some (ERR_NO_ERR, P\<lparr>current_id := Some a, p_cg := G\<rparr>)"
proof -
  have e: "env_of (P\<lparr>current_id := Some a\<rparr>) = env_of P" by (simp add: env_of_def)
  have "pass_argument (P\<lparr>current_id := Some a\<rparr>) = Some (ERR_NO_ERR, (P\<lparr>current_id := Some a\<rparr>)\<lparr>p_cg := G\<rparr>)"
    by (rule pass_argument_runs [of _ f G]) (use assms(1) in \<open>simp_all add: on_argument_def item_at_def e\<close>)
  moreover have "param_at (current_arg P) (P\<lparr>current_id := Some a\<rparr>) = Some p"
    using assms(1) by (simp add: on_argument_def param_at_def)
  ultimately show ?thesis
    using find_argument_lookup [OF assms(4)] assms(2-7) by (simp add: rule_term_def tok_str_def item_at_def)
qed

end
