(* ===== verification/Parser_Samples.thy ===== *)
theory Parser_Samples
  imports Samples Expression_Errors Compile Calls
begin

text \<open>
  The concrete states of the parser on which the properties of the root theory are
  instantiated: a parser at the first of some tokens, with the tables of \<open>Samples\<close>.
\<close>

section \<open>Tokens and symbols\<close>

definition plain_token :: "token_type \<Rightarrow> token" where
  "plain_token ty = \<lparr>preceding_eol = False, tok_type = ty, tok_value = V_unset\<rparr>"

definition sample_symbol :: symstack_data where
  "sample_symbol = \<lparr>sym_token = no_token, is_terminal = False, is_handleBegin = False, sym_is_literal = True,
     sym_is_identifier = False, sym_expr_res = \<lparr>expr_type = T_integer, nilable = False\<rparr>, symbol = ''E''\<rparr>"

section \<open>Parsers\<close>

text \<open>Its record before the start: arbitrary memory, here given by concrete values.\<close>

definition raw_parser :: parser where
  "raw_parser = \<lparr>
     in_function = False, in_func_head = False, in_func_body = False, in_param = False, return_found = False,
     first_stmt = True, in_cond = 0, in_loop = 0, param_cnt = 0, cond_uid = 0, loop_uid = 0, current_arg = None,
     curr_tok = no_token, lhs_id = None, current_id = None, last_func_id = None, rhs_id = None,
     global_symtab = fresh_table, p_stack = [], p_tmp = [], p_buffer = tb_empty_heap,
     p_expr_res = \<lparr>expr_type = T_undefined, nilable = False\<rparr>,
     p_nil = \<lparr>preceding_eol = False, tok_type = TOKEN_NIL, tok_value = V_nilable True\<rparr>,
     p_heap = fresh_heap, p_lex = lexer_init None [], p_cg = ready_codegen,
     is_multiline_expr = False, is_all_literals = True, expr_err = 0, p_budget = None,
     stale = sample_symbol, bytes_zero = False\<rparr>"

fun push_tokens :: "token list \<Rightarrow> token_buffer \<Rightarrow> token_buffer c" where
  "push_tokens [] B = Some B"
| "push_tokens (t # ts) B = do { B \<leftarrow> tb_add t B; push_tokens ts B }"

lemma push_tokens_all: "push_tokens ts B = tb.push_all ts B"
proof (induction ts arbitrary: B)
  case (Cons t ts)
  then show ?case by (cases "tb_add t B") simp_all
qed simp

definition loaded :: "token list \<Rightarrow> parser \<Rightarrow> parser" where
  "loaded toks P = P\<lparr>p_buffer := the (push_tokens toks (tb_init tb_empty_heap)), curr_tok := hd toks\<rparr>"

lemma loaded_at_token: "toks \<noteq> [] \<Longrightarrow> at_token toks 0 (loaded toks P)"
  using tb.push_all_repr [OF tb_init_repr, of toks] by (auto simp: loaded_def at_token_def push_tokens_all)

lemma loaded_reading:
  "toks \<noteq> [] \<Longrightarrow> \<forall>t\<in>set toks. tok_type t \<noteq> TOKEN_UNDEFINED \<Longrightarrow> p_budget P = None \<Longrightarrow>
    \<not> is_multiline_expr P \<Longrightarrow> reading toks 0 toks (loaded toks P)"
  using loaded_at_token [of toks P] by (simp add: reading_def loaded_def)

lemma loaded_frame [simp]:
  "p_cg (loaded toks P) = p_cg P" "p_heap (loaded toks P) = p_heap P" "global_symtab (loaded toks P) = global_symtab P"
  "p_stack (loaded toks P) = p_stack P" "p_budget (loaded toks P) = p_budget P" "expr_err (loaded toks P) = expr_err P"
  "is_multiline_expr (loaded toks P) = is_multiline_expr P" "lhs_id (loaded toks P) = lhs_id P"
  "curr_tok (loaded toks P) = hd toks" "env_of (loaded toks P) = env_of P" "first_stmt (loaded toks P) = first_stmt P"
  by (simp_all add: loaded_def env_of_def)

definition new_line :: "token \<Rightarrow> token" where
  "new_line t = t\<lparr>preceding_eol := True\<rparr>"

text \<open>The tokens of \<open>= 1 + 2 * 3 < 9\<close> with a name on the next line and the end of the program.\<close>

definition comparison_tokens :: "token list" where
  "comparison_tokens = [plain_token TOKEN_ASS, int_token 1, plain_token TOKEN_ADD, int_token 2, plain_token TOKEN_MUL,
     int_token 3, plain_token TOKEN_LT, int_token 9, new_line (name_token ''x''), plain_token TOKEN_EOF]"

definition comparison_ex :: ex where
  "comparison_ex = Cmp TOKEN_LT (Bin TOKEN_ADD (Num 1) (Bin TOKEN_MUL (Num 2) (Num 3))) (Num 9)"

lemma number_phrase: "phrase V 3 [int_token w] (Num w)"
  by (rule phrase.number) (simp add: int_token_of_def int_token_def)

lemma phrase_down: "m \<le> n \<Longrightarrow> phrase V n ts e \<Longrightarrow> phrase V m ts e"
  by (induction rule: inc_induct) (blast intro: phrase.weaken)+

lemma comparison_phrase:
  "phrase V 0 [int_token 1, plain_token TOKEN_ADD, int_token 2, plain_token TOKEN_MUL, int_token 3, plain_token TOKEN_LT, int_token 9]
     comparison_ex"
proof -
  have n: "phrase V m [int_token w] (Num w)" if "m \<le> 3" for m w by (rule phrase_down [OF that number_phrase])
  have p: "phrase V 2 ([int_token 2] @ plain_token TOKEN_MUL # [int_token 3]) (Bin TOKEN_MUL (Num 2) (Num 3))"
    by (rule phrase.product) (simp_all add: n plain_token_def)
  have s: "phrase V 1 ([int_token 1] @ plain_token TOKEN_ADD # [int_token 2] @ plain_token TOKEN_MUL # [int_token 3])
      (Bin (tok_type (plain_token TOKEN_ADD)) (Num 1) (Bin TOKEN_MUL (Num 2) (Num 3)))"
    by (rule phrase.sum) (use p in \<open>simp_all add: n plain_token_def\<close>)
  have "phrase V 0 (([int_token 1] @ plain_token TOKEN_ADD # [int_token 2] @ plain_token TOKEN_MUL # [int_token 3]) @
      plain_token TOKEN_LT # [int_token 9]) (Cmp (tok_type (plain_token TOKEN_LT))
        (Bin (tok_type (plain_token TOKEN_ADD)) (Num 1) (Bin TOKEN_MUL (Num 2) (Num 3))) (Num 9))"
    by (rule phrase.comparison) (use s in \<open>simp_all add: n plain_token_def relations_def\<close>)
  then show ?thesis by (simp add: comparison_ex_def plain_token_def)
qed

text \<open>The tokens of \<open>= 6 / (2)\<close> and the end of the program.\<close>

definition divided_tokens :: "token list" where
  "divided_tokens = [plain_token TOKEN_ASS, int_token 6, plain_token TOKEN_DIV, plain_token TOKEN_L_PAR, int_token 2,
     plain_token TOKEN_R_PAR, plain_token TOKEN_EOF]"

lemma divided_phrases:
  "phrase V 2 [int_token 6] (Num 6)"
  "phrase V 3 [plain_token TOKEN_L_PAR, int_token 2, plain_token TOKEN_R_PAR] (Num 2)"
proof -
  have n: "phrase V m [int_token w] (Num w)" if "m \<le> 3" for m w by (rule phrase_down [OF that number_phrase])
  then show "phrase V 2 [int_token 6] (Num 6)" by simp
  show "phrase V 3 [plain_token TOKEN_L_PAR, int_token 2, plain_token TOKEN_R_PAR] (Num 2)"
    using phrase.parens [OF n [of 0 2], of "plain_token TOKEN_L_PAR" "plain_token TOKEN_R_PAR"] by (simp add: plain_token_def)
qed

section \<open>Statements\<close>

text \<open>A function \<open>f\<close> with a result of type \<open>Int\<close> whose body the parser is in.\<close>

definition int_function :: symtab_item where
  "int_function = (new_item ''f'' 0)\<lparr>it_type := T_function, it_return_type := T_integer\<rparr>"

definition in_body :: "token list \<Rightarrow> parser" where
  "in_body toks = loaded toks (raw_parser\<lparr>last_func_id := Some 0, in_func_body := True,
     p_heap := fresh_heap\<lparr>sh_items := [0 \<mapsto> int_function], sh_fresh := 1\<rparr>, p_stack := [Some fresh_table]\<rparr>)"

definition condition_tokens :: "token list" where
  "condition_tokens = [int_token 1, plain_token TOKEN_LT, int_token 2, plain_token TOKEN_L_BKT]"

text \<open>\<open>if 1 < 2 { return 1 } else { return 2 } }\<close>\<close>

definition return_tokens :: "token list" where
  "return_tokens = plain_token TOKEN_IF # condition_tokens @
     [plain_token TOKEN_RETURN, int_token 1, plain_token TOKEN_R_BKT, plain_token TOKEN_ELSE, plain_token TOKEN_L_BKT,
      plain_token TOKEN_RETURN, int_token 2, plain_token TOKEN_R_BKT, plain_token TOKEN_R_BKT, plain_token TOKEN_EOF]"

text \<open>\<open>while 1 < 2 { if 1 < 2 { } else { } }\<close>\<close>

definition nested_tokens :: "token list" where
  "nested_tokens = plain_token TOKEN_WHILE # condition_tokens @ plain_token TOKEN_IF # condition_tokens @
     [plain_token TOKEN_R_BKT, plain_token TOKEN_ELSE, plain_token TOKEN_L_BKT, plain_token TOKEN_R_BKT,
      plain_token TOKEN_R_BKT, plain_token TOKEN_EOF]"

definition nested_stmt :: stmt where
  "nested_stmt = (let c = Cmp TOKEN_LT (Num 1) (Num 2) in Loop c (Then (Cond c Done Done) Done))"

lemma nested_phrase: "stmt_phrase V (butlast nested_tokens) nested_stmt"
proof -
  have n: "phrase (var_in V) m [int_token w] (Num w)" if "m \<le> 3" for m w by (rule phrase_down [OF that number_phrase])
  have "phrase (var_in V) 0 ([int_token 1] @ plain_token TOKEN_LT # [int_token 2])
      (Cmp (tok_type (plain_token TOKEN_LT)) (Num 1) (Num 2))"
    by (rule phrase.comparison) (simp_all add: n plain_token_def relations_def)
  then have c: "phrase (var_in V) 0 [int_token 1, plain_token TOKEN_LT, int_token 2] (Cmp TOKEN_LT (Num 1) (Num 2))"
    by (simp add: plain_token_def)
  note rules = stmt_phrase_block_phrase.cond stmt_phrase_block_phrase.loop stmt_phrase_block_phrase.finish
  have "stmt_phrase V (plain_token TOKEN_IF # [int_token 1, plain_token TOKEN_LT, int_token 2] @ plain_token TOKEN_L_BKT # [] @
      plain_token TOKEN_R_BKT # plain_token TOKEN_ELSE # plain_token TOKEN_L_BKT # [] @ [plain_token TOKEN_R_BKT])
      (Cond (Cmp TOKEN_LT (Num 1) (Num 2)) Done Done)"
    by (rule rules(1) [OF _ c _ _ rules(3) _ _ _ rules(3)]) (simp_all add: plain_token_def)
  from stmt_phrase_block_phrase.step [OF this _ rules(3), of True]
  have "block_phrase V True (plain_token TOKEN_IF # condition_tokens @
      [plain_token TOKEN_R_BKT, plain_token TOKEN_ELSE, plain_token TOKEN_L_BKT, plain_token TOKEN_R_BKT])
      (Then (Cond (Cmp TOKEN_LT (Num 1) (Num 2)) Done Done) Done)" by (simp add: condition_tokens_def)
  from rules(2) [OF _ c _ _ this, of "plain_token TOKEN_WHILE" "plain_token TOKEN_L_BKT" "plain_token TOKEN_R_BKT"]
  show ?thesis by (simp add: nested_tokens_def nested_stmt_def condition_tokens_def plain_token_def Let_def)
qed

section \<open>Programs\<close>

text \<open>A variable, counted up by a loop on the next lines, with the tokens the scanner delivers.\<close>

definition counting_input :: string where
  "counting_input = ''var x = 1'' @ NL # ''while x < 10 {'' @ NL # ''  x = x + 1'' @ NL # ''}'' @ [NL]"

definition scanned :: "bool \<Rightarrow> token_type \<Rightarrow> token_value \<Rightarrow> token" where
  "scanned eol ty v = \<lparr>preceding_eol = eol, tok_type = ty, tok_value = v\<rparr>"

definition counting_body :: "token list" where
  "counting_body = [scanned True TOKEN_IDENTIFIER (V_string ''x''), scanned False TOKEN_ASS (V_string ''x''),
     scanned False TOKEN_IDENTIFIER (V_string ''x''), scanned False TOKEN_ADD (V_string ''x''), scanned False TOKEN_INT (V_int 1)]"

definition counting_loop :: "token list" where
  "counting_loop = scanned True TOKEN_WHILE (V_string ''while'') # [scanned False TOKEN_IDENTIFIER (V_string ''x''),
     scanned False TOKEN_LT (V_string ''x''), scanned False TOKEN_INT (V_int 10)] @
     scanned False TOKEN_L_BKT (V_int 10) # counting_body @ [scanned True TOKEN_R_BKT (V_int 1)]"

definition counting_tokens :: "token list" where
  "counting_tokens = scanned False TOKEN_VAR (V_string ''var'') # scanned False TOKEN_IDENTIFIER (V_string ''x'') #
     scanned False TOKEN_ASS (V_string ''x'') # [scanned False TOKEN_INT (V_int 1)] @ counting_loop"

definition counting_end :: token where
  "counting_end = scanned True TOKEN_EOF (V_int 1)"

lemma counting_scans: "\<exists>L. scans (lexer_init None counting_input) (counting_tokens @ [counting_end]) L"
proof -
  have "map_option fst (scan_tokens 16 (lexer_init None counting_input)) = Some (counting_tokens @ [counting_end])"
    by code_simp
  then show ?thesis by (auto dest: scan_tokens_scans)
qed

lemma bad_input: "\<not> scans (lexer_init None ''x = $'') ts L"
proof -
  have "rejects 3 (lexer_init None ''x = $'')" by code_simp
  then show ?thesis by (rule rejects_no_scan)
qed
definition counting_stmt :: "string \<Rightarrow> stmt" where
  "counting_stmt v = Loop (Cmp TOKEN_LT (Var v) (Num 10)) (Then (Assign v (Bin TOKEN_ADD (Var v) (Num 1))) Done)"

definition counting_prog :: "string \<Rightarrow> prog" where
  "counting_prog v = Declare v (Num 1) (Run (counting_stmt v) Finished)"

lemma counting_stmt_phrase:
  assumes "V ''x'' = Some v"
  shows "stmt_phrase V counting_loop (counting_stmt v)"
proof -
  have x: "var_in V (scanned b TOKEN_IDENTIFIER (V_string ''x'')) v" for b
    using assms by (simp add: var_in_def scanned_def)
  have v: "phrase (var_in V) m [scanned b TOKEN_IDENTIFIER (V_string ''x'')] (Var v)" if "m \<le> 3" for m b
    by (rule phrase_down [OF that phrase.variable [where V = "var_in V", OF x]])
  have n: "phrase (var_in V) m [scanned b TOKEN_INT (V_int w)] (Num w)" if "m \<le> 3" for m b w
    by (rule phrase_down [OF that phrase.number]) (simp add: int_token_of_def scanned_def)
  have c: "phrase (var_in V) 0 ([scanned False TOKEN_IDENTIFIER (V_string ''x'')] @ scanned False TOKEN_LT (V_string ''x'') #
      [scanned False TOKEN_INT (V_int 10)]) (Cmp (tok_type (scanned False TOKEN_LT (V_string ''x''))) (Var v) (Num 10))"
    by (rule phrase.comparison) (use v [of 1] n [of 1] in \<open>simp_all add: scanned_def relations_def\<close>)
  have a1: "phrase (var_in V) 1 ([scanned False TOKEN_IDENTIFIER (V_string ''x'')] @ scanned False TOKEN_ADD (V_string ''x'') #
      [scanned False TOKEN_INT (V_int 1)]) (Bin (tok_type (scanned False TOKEN_ADD (V_string ''x''))) (Var v) (Num 1))"
    by (rule phrase.sum) (use v [of 1] n [of 2] in \<open>simp_all add: scanned_def\<close>)
  have "stmt_phrase V counting_body (Assign v (Bin TOKEN_ADD (Var v) (Num 1)))"
    unfolding counting_body_def
    by (rule stmt_phrase_block_phrase.assign [OF x]) (use phrase_down [OF _ a1, of 0] in \<open>simp_all add: scanned_def\<close>)
  from stmt_phrase_block_phrase.step [OF this _ stmt_phrase_block_phrase.finish, of True]
  have b: "block_phrase V True counting_body (Then (Assign v (Bin TOKEN_ADD (Var v) (Num 1))) Done)" by simp
  show ?thesis
    unfolding counting_loop_def counting_stmt_def
    by (rule stmt_phrase_block_phrase.loop) (use c b in \<open>simp_all add: scanned_def\<close>)
qed

lemma counting_text: "''GF@x_0'' = var_text gf_name ''x'' 0"
  by code_simp

lemma counting_program:
  assumes "''x'' \<notin> N" "v = var_text gf_name ''x'' n"
  shows "program_phrase V n N True counting_tokens (counting_prog v)"
proof -
  have "program_phrase (V(''x'' \<mapsto> v)) (n + 1) (insert ''x'' N) False (counting_loop @ []) (Run (counting_stmt v) Finished)"
    by (rule program_phrase.run [OF counting_stmt_phrase _ program_phrase.finished])
      (simp_all add: counting_loop_def scanned_def)
  then have l: "program_phrase (V(''x'' \<mapsto> v)) (n + 1) (insert ''x'' N) False counting_loop (Run (counting_stmt v) Finished)" by simp
  have "phrase (var_in V) 0 [scanned False TOKEN_INT (V_int 1)] (Num 1)"
    by (rule phrase_down [OF _ phrase.number]) (simp_all add: int_token_of_def scanned_def)
  then show ?thesis
    unfolding counting_tokens_def counting_prog_def
    by (intro program_phrase.declaring [OF _ _ _ _ assms(1) _ _ _ _ _ assms(2) l])
      (simp_all add: scanned_def)
qed

section \<open>Calls\<close>

text \<open>A call of \<open>f\<close>, whose parameters of type \<open>Int\<close> have the given labels.\<close>

definition int_param :: "string \<Rightarrow> param" where
  "int_param label = \<lparr>p_name = ''a'', p_label = Some label, p_label_size = 8, p_type = T_integer, p_is_nillable = Some False\<rparr>"

definition labelled_function :: "string list \<Rightarrow> symtab_item" where
  "labelled_function labels = (new_item ''f'' 0)\<lparr>it_type := T_function, it_parameters := map int_param labels\<rparr>"

definition calling :: "string list \<Rightarrow> token list \<Rightarrow> parser" where
  "calling labels toks = loaded toks (raw_parser\<lparr>rhs_id := Some 0,
     p_heap := fresh_heap\<lparr>sh_items := [0 \<mapsto> labelled_function labels], sh_fresh := 1\<rparr>\<rparr>)"

text \<open>The tokens of \<open>f(7, with: 8)\<close> and of \<open>f(with 8)\<close>, at the end of the input.\<close>

definition call_tokens :: "token list" where
  "call_tokens = [name_token ''f'', plain_token TOKEN_L_PAR, int_token 7, plain_token TOKEN_COMMA, name_token ''with'',
     plain_token TOKEN_COL, int_token 8, plain_token TOKEN_R_PAR, plain_token TOKEN_EOF]"

definition no_colon_tokens :: "token list" where
  "no_colon_tokens = [name_token ''f'', plain_token TOKEN_L_PAR, name_token ''with'', int_token 8,
     plain_token TOKEN_R_PAR, plain_token TOKEN_EOF]"

lemma calling_reading:
  "toks \<noteq> [] \<Longrightarrow> \<forall>t\<in>set toks. tok_type t \<noteq> TOKEN_UNDEFINED \<Longrightarrow> reading toks 0 toks (calling labels toks)"
  unfolding calling_def by (rule loaded_reading) (simp_all add: raw_parser_def)

lemma calling_fields [simp]:
  "p_cg (calling labels toks) = ready_codegen" "sh_items (p_heap (calling labels toks)) = [0 \<mapsto> labelled_function labels]"
  "rhs_id (calling labels toks) = Some 0" "current_id (calling labels toks) = None"
  by (simp_all add: calling_def raw_parser_def loaded_def)

lemma sample_arguments:
  "call_phrase Map.empty (labelled_function [''_'', ''with''])
     [int_token 7, plain_token TOKEN_COMMA, name_token ''with'', plain_token TOKEN_COL, int_token 8, plain_token TOKEN_R_PAR]
     [int_token 7, int_token 8]"
proof -
  let ?f = "labelled_function [''_'', ''with'']"
  have f: "it_parameters ?f = [int_param ''_'', int_param ''with'']" "\<not> it_variadic_param ?f"
    by (simp_all add: labelled_function_def new_item_def)
  have lit: "literal_arg v (int_param l) (int_token w)" for v l w by (simp add: literal_arg_def int_token_def int_param_def)
  have a: "arg_phrase Map.empty v (int_param ''_'') [int_token 7] (int_token 7)" for v
    by (rule arg_phrase.literal) (simp_all add: lit, simp add: int_param_def)
  have b: "arg_phrase Map.empty v (int_param ''with'') [name_token ''with'', plain_token TOKEN_COL, int_token 8] (int_token 8)" for v
    by (rule arg_phrase.named_literal [of _ "''with''"]) (simp_all add: lit, simp_all add: int_param_def name_token_def plain_token_def)
  have "args_phrase Map.empty ?f 1 ([name_token ''with'', plain_token TOKEN_COL, int_token 8] @ [plain_token TOKEN_R_PAR]) [int_token 8]"
    by (rule args_phrase.last_arg) (simp_all only: f nth_Cons_Suc nth_Cons_0 One_nat_def b, simp_all add: plain_token_def)
  then have rest: "args_phrase Map.empty ?f (if it_variadic_param ?f then 0 else Suc 0)
      ([name_token ''with'', plain_token TOKEN_COL, int_token 8] @ [plain_token TOKEN_R_PAR]) [int_token 8]"
    by (simp add: f(2))
  have "args_phrase Map.empty ?f 0 ([int_token 7] @ plain_token TOKEN_COMMA # [name_token ''with'', plain_token TOKEN_COL, int_token 8] @
      [plain_token TOKEN_R_PAR]) [int_token 7, int_token 8]"
    by (rule args_phrase.more_args [OF _ _ _ rest]) (simp_all only: f nth_Cons_0 a, simp_all add: plain_token_def)
  then show ?thesis by (intro call_phrase.some_args) simp
qed

end
