(* ===== verification/Control.thy ===== *)
theory Control
  imports Program
begin

text \<open>
  The control data of the parser: the depth of the stack of scopes, the counters of open
  conditions and loops, and the function that is being parsed. Every operation on expressions,
  arguments, declarations and assignments that succeeds leaves them as it found them.
\<close>

section \<open>Control data\<close>

text \<open>The last component tells whether allocation never fails.\<close>

definition control :: "parser \<Rightarrow> nat \<times> 32 word \<times> 32 word \<times> bool \<times> nat option \<times> bool" where
  "control P = (length (p_stack P), in_cond P, in_loop P, in_func_body P, last_func_id P, sh_budget (p_heap P) = None)"

text \<open>What holds of the state if a rule succeeds.\<close>

definition succeeds :: "(parser \<Rightarrow> bool) \<Rightarrow> nat \<times> parser \<Rightarrow> bool" where
  "succeeds Q = (\<lambda>(res, P). res = ERR_NO_ERR \<longrightarrow> Q P)"

abbreviation ends_in :: "nat \<times> 32 word \<times> 32 word \<times> bool \<times> nat option \<times> bool \<Rightarrow> nat \<times> parser \<Rightarrow> bool" where
  "ends_in C \<equiv> succeeds (\<lambda>P. control P = C)"

named_theorems ctl \<open>how operations of the parser act on the control data\<close>

lemma wlp_opaque: "(\<And>x. R x) \<Longrightarrow> wlp R r"
  by (simp add: wlp_def)

lemma wlp_structure [ctl]:
  "R x \<Longrightarrow> wlp R (Some x)"
  "wlp R None"
  "wlp (\<lambda>a. wlp R (f a)) q \<Longrightarrow> wlp R (Option.bind q f)"
  "(b \<Longrightarrow> wlp R r) \<Longrightarrow> (\<not> b \<Longrightarrow> wlp R s) \<Longrightarrow> wlp R (if b then r else s)"
  "g u v \<Longrightarrow> case (u, v) of (x, y) \<Rightarrow> g x y"
  "wlp R (h u v) \<Longrightarrow> wlp R (case (u, v) of (x, y) \<Rightarrow> h x y)"
  by (auto simp: wlp_simps)

lemma wlp_use: "wlp (ends_in (control P)) r \<Longrightarrow> (\<And>res P'. (res = ERR_NO_ERR \<Longrightarrow> control P' = control P) \<Longrightarrow> R (res, P')) \<Longrightarrow> wlp R r"
  unfolding wlp_def succeeds_def by blast

lemma wlp_use_state: "wlp (\<lambda>P'. control P' = C) r \<Longrightarrow> (\<And>P'. control P' = C \<Longrightarrow> R P') \<Longrightarrow> wlp R r"
  unfolding wlp_def by blast

lemma wlp_use_pair: "wlp (\<lambda>(x, P'). control P' = C) r \<Longrightarrow> (\<And>x P'. control P' = C \<Longrightarrow> R (x, P')) \<Longrightarrow> wlp R r"
  unfolding wlp_def by blast

lemma succeeds_simps [simp]: "succeeds Q (res, P) = (res = ERR_NO_ERR \<longrightarrow> Q P)"
  by (simp add: succeeds_def)

lemma wlp_rules [wlp_simps]:
  "wlp (succeeds Q) (success P) = Q P"
  "wlp (succeeds Q) (fail code P) = (code = ERR_NO_ERR \<longrightarrow> Q P)"
  by (simp_all add: success_def fail_def wlp_def ERR_NO_ERR_def EXIT_SUCCESS_def)

lemma wlp_GET_TOKEN [ctl]:
  "(\<And>B t. wlp (succeeds Q) (k (P\<lparr>p_buffer := B, curr_tok := t\<rparr>))) \<Longrightarrow> wlp (succeeds Q) (GET_TOKEN k P)"
  by (auto simp: GET_TOKEN_def wlp_def bind_Some_iff Let_def error_codes split: if_splits)

lemma wlp_ASSERT [ctl]: "wlp (succeeds Q) (k P) \<Longrightarrow> wlp (succeeds Q) (ASSERT_TOK_TYPE type k P)"
  by (simp add: ASSERT_TOK_TYPE_def wlp_simps error_codes)

lemma wlp_CHECK_NEWLINE [ctl]: "wlp (succeeds Q) (k P) \<Longrightarrow> wlp (succeeds Q) (CHECK_NEWLINE k P)"
  by (simp add: CHECK_NEWLINE_def wlp_simps error_codes)

lemma wlp_NEXT_RULE [ctl]:
  "wlp (\<lambda>(res, P'). res = ERR_NO_ERR \<longrightarrow> wlp (succeeds Q) (k P')) (rule P) \<Longrightarrow> wlp (succeeds Q) (NEXT_RULE rule k P)"
  by (auto simp: NEXT_RULE_def wlp_def bind_Some_iff split: if_splits)

section \<open>Tables and generated code\<close>

lemma control_upd [simp]:
  "control (P\<lparr>p_cg := G\<rparr>) = control P" "control (P\<lparr>curr_tok := t\<rparr>) = control P" "control (P\<lparr>p_buffer := B\<rparr>) = control P"
  "control (P\<lparr>current_id := c\<rparr>) = control P" "control (P\<lparr>lhs_id := c\<rparr>) = control P" "control (P\<lparr>rhs_id := c\<rparr>) = control P"
  "control (P\<lparr>is_all_literals := l\<rparr>) = control P" "control (P\<lparr>is_multiline_expr := l\<rparr>) = control P"
  "control (P\<lparr>p_budget := m\<rparr>) = control P" "control (P\<lparr>p_expr_res := r\<rparr>) = control P" "control (P\<lparr>expr_err := e\<rparr>) = control P"
  "control (P\<lparr>cond_uid := u\<rparr>) = control P" "control (P\<lparr>loop_uid := u\<rparr>) = control P" "control (P\<lparr>first_stmt := b\<rparr>) = control P"
  "control (P\<lparr>return_found := b\<rparr>) = control P" "control (P\<lparr>current_arg := a\<rparr>) = control P" "control (P\<lparr>in_function := b\<rparr>) = control P"
  "control (P\<lparr>in_func_head := b\<rparr>) = control P" "control (P\<lparr>in_param := b\<rparr>) = control P" "control (P\<lparr>param_cnt := u\<rparr>) = control P"
  "control (P\<lparr>p_tmp := s\<rparr>) = control P" "control (P\<lparr>global_symtab := T\<rparr>) = control P"
  by (simp_all add: control_def)

lemma control_expr [simp]:
  "control (REPORT_ERROR e P) = control P" "control (snd (error_code_handler e P)) = control P"
  "control (set_is_multiline_expr b P) = control P" "control (set_is_all_literals b P) = control P"
  by (simp_all add: REPORT_ERROR_def error_code_handler_def set_is_multiline_expr_def set_is_all_literals_def Let_def)

lemma wlp_generate [ctl]: "(\<And>G. R (P\<lparr>p_cg := G\<rparr>)) \<Longrightarrow> wlp R (generate f P)"
  by (auto simp: generate_def wlp_def bind_Some_iff)

lemma wlp_step_back [ctl]: "(\<And>B. R (P\<lparr>p_buffer := B\<rparr>)) \<Longrightarrow> wlp R (step_back P)"
  by (auto simp: step_back_def wlp_def bind_Some_iff)

lemma wlp_reload_token [ctl]: "(\<And>t. R (P\<lparr>curr_tok := t\<rparr>)) \<Longrightarrow> wlp R (reload_token P)"
  by (auto simp: reload_token_def wlp_def bind_Some_iff)

lemmas wlp_readers [ctl] =
  wlp_opaque [where r = "item_at p P" for p P] wlp_opaque [where r = "name_at p P" for p P]
  wlp_opaque [where r = "tok_str t" for t] wlp_opaque [where r = "tok_nilable t" for t]
  wlp_opaque [where r = "search_global k P" for k P] wlp_opaque [where r = "search_stack st k P" for st k P]
  wlp_opaque [where r = "search_local k P" for k P] wlp_opaque [where r = "stack_next P" for P]
  wlp_opaque [where r = "param_at p P" for p P] wlp_opaque [where r = "param_pointer n i P" for n i P]
  wlp_opaque [where r = "param_next_pointer p P" for p P] wlp_opaque [where r = "p_label p" for p]
  wlp_opaque [where r = "p_is_nillable p" for p] wlp_opaque [where r = "last_func_id P" for P]
  wlp_opaque [where r = "arr_at a i" for a i] wlp_opaque [where r = "convert_token_to_data s t" for s t]
  wlp_opaque [where r = "get_rule a" for a] wlp_opaque [where r = "symbol_arr_reverse a" for a]
  wlp_opaque [where r = "symbol_arr_free a" for a] wlp_opaque [where r = "strcpy_symbol d s" for d s]
  wlp_opaque [where r = "get_closest_terminal st" for st]
  wlp_opaque [where r = "expr_finished st P" for st P] wlp_opaque [where r = "deref B q" for B q]
  wlp_opaque [where r = "n_next n" for n]

section \<open>Expressions\<close>

lemma append_use [ctl]: "(\<And>ok a' m'. R (ok, a', m')) \<Longrightarrow> wlp R (symbol_arr_append a d m)"
  by (auto simp: wlp_def)

lemma control_push [simp]: "control (snd (push_symbol st d P)) = control P"
  by (simp add: push_symbol_def split: prod.split)

lemma wlp_push [ctl]:
  "(\<And>st' P'. control P' = control P \<Longrightarrow> wlp R (h st' P')) \<Longrightarrow> wlp R (case push_symbol st d P of (x, y) \<Rightarrow> h x y)"
  by (simp add: split_beta)

lemma wlp_handler [ctl]:
  "(\<And>e' P'. control P' = control P \<Longrightarrow> wlp R (h e' P')) \<Longrightarrow> wlp R (case error_code_handler e P of (x, y) \<Rightarrow> h x y)"
  by (simp add: split_beta)

lemma wlp_pop [ctl]: "(\<And>d st'. wlp R (h d st')) \<Longrightarrow> wlp R (case symstack_pop s st of (x, y) \<Rightarrow> h x y)"
  by (simp add: split_beta)

text \<open>An operation that leaves the control data alone, with a result beside the state.\<close>

abbreviation steady :: "parser \<Rightarrow> ('a \<times> parser) c \<Rightarrow> bool" where
  "steady P r \<equiv> wlp (\<lambda>(x, P'). control P' = control P) r"

lemma steady_id_is_defined: "steady P (id_is_defined t P)"
  unfolding id_is_defined_def Let_def by (intro ctl; simp)

lemmas id_use [ctl] = wlp_use_pair [OF steady_id_is_defined]

lemma steady_process_operand: "steady P (process_operand s P)"
  unfolding process_operand_def Let_def by (intro ctl; simp)

lemma wlp_convert: "wlp (\<lambda>(x, y, P'). control P' = control P) (convert_if_retypeable s u P)"
  unfolding convert_if_retypeable_def Let_def by (intro ctl; simp)

lemma convert_use [ctl]:
  "(\<And>x y P'. control P' = control P \<Longrightarrow> R (x, y, P')) \<Longrightarrow> wlp R (convert_if_retypeable s u P)"
  using wlp_convert [of P s u] unfolding wlp_def by blast

lemma steady_operations:
  "steady P (process_division s u P)" "steady P (process_concatenation a P)" "steady P (process_nil_check d s u P)"
  unfolding process_division_def process_concatenation_def process_nil_check_def Let_def
  by (intro ctl; simp)+

lemmas operations_use [ctl] = steady_operations [THEN wlp_use_pair]

lemma steady_binary: "steady P (process_arithmetic_operation a P)" "steady P (process_relational_operation a P)"
  unfolding process_arithmetic_operation_def process_relational_operation_def Let_def
  by (intro ctl; simp)+

lemma steady_parenthesis: "steady P (process_parenthesis a P)"
  unfolding process_parenthesis_def by (intro ctl; simp)

lemma steady_not_nil: "control (snd (process_not_nil s P)) = control P"
  by (simp add: process_not_nil_def Let_def)

lemmas process_use [ctl] = steady_process_operand [THEN wlp_use_pair] steady_binary [THEN wlp_use_pair] steady_parenthesis [THEN wlp_use_pair]

lemma steady_push_reduced: "steady P (push_reduced_symbol_on_stack st a rule P)"
  unfolding push_reduced_symbol_on_stack_def Let_def
  by (cases rule; simp only: prec_rule.case; intro ctl; simp add: split_beta steady_not_nil wlp_simps)

lemma steady_reduce_error: "steady P (reduce_error st a P)"
  unfolding reduce_error_def Let_def by (intro ctl; simp add: split_beta)

lemma steady_reduce_to_eol: "steady P (reduce_to_eol st P)"
proof (induction st arbitrary: P)
  case (Cons d st)
  show ?case unfolding reduce_to_eol.simps
    by (intro ctl wlp_use_pair [OF Cons.IH]) simp_all
qed (simp add: wlp_simps)

lemma wlp_move_loop: "wlp (\<lambda>(d, st', a', P'). control P' = control P) (move_loop d st a P)"
proof (induction st arbitrary: d a P)
  case (Cons e st)
  have "wlp (\<lambda>(d, st', a', P'). control P' = control P) (move_loop e st b (P\<lparr>p_budget := m\<rparr>))" for b m
    using Cons.IH [of "P\<lparr>p_budget := m\<rparr>" e b] by simp
  then show ?case unfolding move_loop.simps Let_def
    by (intro ctl; simp)
qed (simp add: wlp_simps)

lemma wlp_move: "wlp (\<lambda>(st', a', P'). control P' = control P) (symbol_arr_move_expr_to_arr st a P)"
proof -
  have m: "(\<And>d st' a' P'. control P' = control P \<Longrightarrow> R (d, st', a', P')) \<Longrightarrow> wlp R (move_loop c st a P)" for R c st
    using wlp_move_loop [of P c st a] unfolding wlp_def by blast
  show ?thesis unfolding symbol_arr_move_expr_to_arr_def Let_def
    by (intro ctl m) (simp_all add: wlp_simps split_beta split: option.split)
qed

lemma move_use [ctl]:
  "(\<And>x y P'. control P' = control P \<Longrightarrow> R (x, y, P')) \<Longrightarrow> wlp R (symbol_arr_move_expr_to_arr st a P)"
  using wlp_move [of P st a] unfolding wlp_def by blast

lemmas reductions_use [ctl] = steady_push_reduced [THEN wlp_use_pair] steady_reduce_error [THEN wlp_use_pair]
  steady_reduce_to_eol [THEN wlp_use_pair]

lemma steady_steps:
  "steady P (reduce st P)" "steady P (expr_error st P)" "steady P (equal_shift st t P)" "steady P (shift st t P)"
  "steady P (push_initial_sym st P)" "steady P (verify_lhs_type d P)"
  unfolding reduce_def expr_error_def equal_shift_def shift_def push_initial_sym_def verify_lhs_type_def Let_def
  by (intro ctl; simp add: split_beta)+

lemmas steps_use [ctl] = steady_steps [THEN wlp_use_pair]

text \<open>A step of the loop and the loop also return a code; on an error nothing is claimed.\<close>

abbreviation steady_step :: "parser \<Rightarrow> (nat \<times> 'a \<times> parser) c \<Rightarrow> bool" where
  "steady_step P r \<equiv> wlp (\<lambda>(res, st, P'). res = EXIT_SUCCESS \<longrightarrow> control P' = control P) r"

lemma steady_next_token: "steady_step P (next_token st P)"
  by (auto simp: next_token_def GET_TOKEN_def success_def wlp_simps Let_def wlp_def bind_Some_iff error_codes split: if_splits)

lemma next_use [ctl]:
  "(\<And>res st' P'. (res = EXIT_SUCCESS \<Longrightarrow> control P' = control P) \<Longrightarrow> R (res, st', P')) \<Longrightarrow> wlp R (next_token st P)"
  using steady_next_token [of P st] unfolding wlp_def by blast

lemma steady_expr_step: "steady_step P (expr_step st P)"
  unfolding expr_step_def Let_def
  by (cases "get_prec_table_operation st (curr_tok P)"; simp only: prec_op.case; intro ctl; simp)

lemma expr_step_use:
  "(\<And>res st' P'. (res = EXIT_SUCCESS \<Longrightarrow> control P' = control P) \<Longrightarrow> R (res, st', P')) \<Longrightarrow> wlp R (expr_step st P)"
  using steady_expr_step [of P st] unfolding wlp_def by blast

lemma steady_expr_loop: "steady_step P (expr_loop st P)"
proof -
  let ?Q = "\<lambda>(st :: symstack, P) y. case y of (res, st' :: symstack, P') \<Rightarrow> res = EXIT_SUCCESS \<longrightarrow> control P' = control P"
  have "?Q (st, P) y" if "expr_loop st P = Some y" for y
  proof (rule expr_loop.raw_induct [of ?Q, OF _ that])
    fix loop st P y
    assume ih: "\<And>st P y. loop st P = Some y \<Longrightarrow> ?Q (st, P) y"
      and y: "do {
         (res, stack, P) \<leftarrow> expr_step st P;
         if res \<noteq> EXIT_SUCCESS then Some (res, stack, P)
         else do { finished \<leftarrow> expr_finished stack P; if finished then Some (EXIT_SUCCESS, stack, P) else loop stack P }
       } = Some y"
    have "(\<And>res st' P'. (res = EXIT_SUCCESS \<Longrightarrow> control P' = control P) \<Longrightarrow> R (res, st', P')) \<Longrightarrow> wlp R (loop st P)" for R st P
      using ih [of st P] unfolding wlp_def by blast
    then have "steady_step P (do {
         (res, stack, P) \<leftarrow> expr_step st P;
         if res \<noteq> EXIT_SUCCESS then Some (res, stack, P)
         else do { finished \<leftarrow> expr_finished stack P; if finished then Some (EXIT_SUCCESS, stack, P) else loop stack P }
       })"
      by (intro ctl expr_step_use) simp_all
    then show "?Q (st, P) y" using y by (simp add: wlp_def)
  qed
  then show ?thesis by (auto simp: wlp_def)
qed

lemma expr_loop_use [ctl]:
  "(\<And>res st' P'. (res = EXIT_SUCCESS \<Longrightarrow> control P' = control P) \<Longrightarrow> R (res, st', P')) \<Longrightarrow> wlp R (expr_loop st P)"
  using steady_expr_loop [of P st] unfolding wlp_def by blast

text \<open>A rule that keeps the control data when it succeeds.\<close>

abbreviation keeps :: "rule \<Rightarrow> bool" where
  "keeps r \<equiv> \<forall>P. wlp (ends_in (control P)) (r P)"

lemma keeps_use: "keeps r \<Longrightarrow> (\<And>res P'. (res = ERR_NO_ERR \<Longrightarrow> control P' = control P) \<Longrightarrow> R (res, P')) \<Longrightarrow> wlp R (r P)"
  by (rule wlp_use [of P]) simp_all

lemma wlp_expr_end: "control P = C \<Longrightarrow> wlp (ends_in C) (expr_end d P)"
  unfolding expr_end_def Let_def by (intro ctl; simp add: split_beta error_code_handler_def succeeds_def)

lemma keeps_expr: "keeps expr"
  unfolding expr_def Let_def
  by (intro allI ctl wlp_expr_end; simp add: EXIT_SUCCESS_def ERR_NO_ERR_def)

lemmas expr_use [ctl] = keeps_use [OF keeps_expr]

section \<open>Rules\<close>

lemma change_item_use [ctl]: "(\<And>P'. control P' = control P \<Longrightarrow> R P') \<Longrightarrow> wlp R (change_item p f P)"
  by (auto simp: change_item_def set_item_def control_def wlp_def bind_Some_iff)

definition keeps_budget :: "(symtab option \<Rightarrow> symheap \<Rightarrow> (symheap \<times> 'a) c) \<Rightarrow> bool" where
  "keeps_budget f \<longleftrightarrow> (\<forall>T H. wlp (\<lambda>(H', e). (sh_budget H' = None) = (sh_budget H = None)) (f T H))"

lemma keeps_budgetD: "keeps_budget f \<Longrightarrow> f T H = Some (H', e) \<Longrightarrow> (sh_budget H' = None) = (sh_budget H = None)"
  by (auto simp: keeps_budget_def wlp_def)

lemma on_global_use: "keeps_budget f \<Longrightarrow> (\<And>e P'. control P' = control P \<Longrightarrow> R (e, P')) \<Longrightarrow> wlp R (on_global f P)"
  by (auto simp: on_global_def control_def wlp_def bind_Some_iff dest!: keeps_budgetD)

lemma on_local_use: "keeps_budget f \<Longrightarrow> (\<And>e P'. control P' = control P \<Longrightarrow> R (e, P')) \<Longrightarrow> wlp R (on_local f P)"
  by (auto simp: on_local_def control_def wlp_def bind_Some_iff dest!: keeps_budgetD)

text \<open>What the tables do with the allocator.\<close>

lemma alloc_budget: "alloc H = (ok, H') \<Longrightarrow> (sh_budget H' = None) = (sh_budget H = None)"
  by (cases "sh_budget H" rule: take_alloc.cases) (auto simp: alloc_def)

lemma str_copy_budget: "str_copy s n H = (ok, m, H') \<Longrightarrow> (sh_budget H' = None) = (sh_budget H = None)"
  by (auto simp: str_copy_def alloc_budget split: if_splits prod.splits)

lemma set_item_budget: "set_item H a f = Some H' \<Longrightarrow> sh_budget H' = sh_budget H"
  by (auto simp: set_item_def bind_Some_iff)

lemma item_init_budget: "item_init key H e = (a, H', e') \<Longrightarrow> (sh_budget H' = None) = (sh_budget H = None)"
  by (auto simp: item_init_def dest!: alloc_budget str_copy_budget split: prod.splits bool.splits)

lemma param_init_budget: "param_init key H e = (a, H', e') \<Longrightarrow> (sh_budget H' = None) = (sh_budget H = None)"
  by (auto simp: param_init_def dest!: alloc_budget str_copy_budget split: prod.splits bool.splits)

lemma alloc_use [ctl]:
  "(\<And>ok H'. (sh_budget H' = None) = (sh_budget H = None) \<Longrightarrow> wlp R (h ok H')) \<Longrightarrow> wlp R (case alloc H of (x, y) \<Rightarrow> h x y)"
  using alloc_budget [of H] by (cases "alloc H") auto

lemma str_copy_use [ctl]:
  "(\<And>ok n H'. (sh_budget H' = None) = (sh_budget H = None) \<Longrightarrow> wlp R (h ok n H')) \<Longrightarrow>
    wlp R (case str_copy s m H of (x, y, z) \<Rightarrow> h x y z)"
  using str_copy_budget [of s m H] by (cases "str_copy s m H") auto

lemma init_use [ctl]:
  "(\<And>a H' e'. (sh_budget H' = None) = (sh_budget H = None) \<Longrightarrow> wlp R (h a H' e')) \<Longrightarrow>
    wlp R (case item_init key H e of (x, y, z) \<Rightarrow> h x y z)"
  "(\<And>p H' e'. (sh_budget H' = None) = (sh_budget H = None) \<Longrightarrow> wlp R (g p H' e')) \<Longrightarrow>
    wlp R (case param_init key H e of (x, y, z) \<Rightarrow> g x y z)"
  using item_init_budget [of key H e] param_init_budget [of key H e]
  by (cases "item_init key H e", auto, cases "param_init key H e", auto)

lemma set_item_use [ctl]: "(\<And>H'. sh_budget H' = sh_budget H \<Longrightarrow> R H') \<Longrightarrow> wlp R (set_item H a f)"
  using set_item_budget [of H a f] by (auto simp: wlp_def)

lemma with_item_use:
  "(\<And>e. R (bad e)) \<Longrightarrow> (\<And>a it e. wlp R (f a it e)) \<Longrightarrow> wlp R (with_item T key H bad f)"
  by (auto simp: with_item_def wlp_def bind_Some_iff split: option.splits)

lemma with_function_use:
  "(\<And>e. R (bad e)) \<Longrightarrow> (\<And>a it e. wlp R (f a it e)) \<Longrightarrow> wlp R (with_function T key H bad f)"
  unfolding with_function_def by (rule with_item_use) (simp_all add: wlp_simps)

lemma with_param_use:
  "(\<And>e. R (bad e)) \<Longrightarrow> (\<And>a ps i e. wlp R (f a ps i e)) \<Longrightarrow> wlp R (with_param T fn key H bad f)"
  unfolding with_param_def by (rule with_function_use) (auto simp: wlp_simps split: option.split prod.split)

lemmas table_readers [ctl] =
  wlp_opaque [where r = "symtable_search T k H" for T k H] wlp_opaque [where r = "sh_items H a" for H a]
  wlp_opaque [where r = "get_hash k is sz" for k "is" sz] wlp_opaque [where r = "next_size ps sz" for ps sz]
  wlp_opaque [where r = "rehash H ps rs sz" for H ps rs sz] wlp_opaque [where r = "c_assert b" for b]

lemma check_load_use [ctl]:
  "(\<And>T' H' e'. (sh_budget H' = None) = (sh_budget H = None) \<Longrightarrow> R (T', H', e')) \<Longrightarrow> wlp R (check_load T H e)"
proof -
  assume R: "\<And>T' H' e'. (sh_budget H' = None) = (sh_budget H = None) \<Longrightarrow> R (T', H', e')"
  show ?thesis unfolding check_load_def resize_def bool.case_eq_if by (intro ctl R; simp)
qed

lemma insert_budget: "wlp (\<lambda>(T', H', e). (sh_budget H' = None) = (sh_budget H = None)) (symtable_insert T key H)"
proof -
  have s: "(\<And>a e. R (a, e)) \<Longrightarrow> wlp R (symtable_search T key H)" for R by (auto simp: wlp_def)
  have t: "(\<And>T'. R T') \<Longrightarrow> wlp R T" for R by (rule wlp_opaque)
  show ?thesis unfolding symtable_insert_def Let_def
    by (intro ctl s t) simp_all
qed

lemma setters_budget [ctl]:
  "keeps_budget (\<lambda>T. set_type T k ty)" "keeps_budget (\<lambda>T. set_mutability T k b)" "keeps_budget (\<lambda>T. set_nillable T k b)"
  "keeps_budget (\<lambda>T. set_func_definition T k b)" "keeps_budget (\<lambda>T. set_return_type T k ty)"
  unfolding keeps_budget_def set_type_def set_mutability_def set_nillable_def set_func_definition_def set_return_type_def
  by (intro allI ctl with_item_use with_function_use; simp)+

lemma param_setters_budget [ctl]:
  "keeps_budget (\<lambda>T. set_param_type T f k ty)" "keeps_budget (\<lambda>T. set_param_nil T f k b)"
  "keeps_budget (\<lambda>T. set_param_label T f k l)" "keeps_budget (\<lambda>T. add_param T f k)"
proof -
  have p: "(\<And>x. (wlp R (h x))) \<Longrightarrow> wlp R e \<Longrightarrow> wlp R (case p of None \<Rightarrow> e | Some x \<Rightarrow> h x)" "(\<And>x. R' x) \<Longrightarrow> wlp R' p"
    for R R' h e and p :: "param option"
    by (auto simp: wlp_def split: option.splits)
  show "keeps_budget (\<lambda>T. set_param_type T f k ty)" "keeps_budget (\<lambda>T. set_param_nil T f k b)"
    "keeps_budget (\<lambda>T. set_param_label T f k l)" "keeps_budget (\<lambda>T. add_param T f k)"
    unfolding keeps_budget_def set_param_type_def set_param_nil_def set_param_label_def add_param_def Let_def
    by (intro allI ctl with_function_use with_param_use p; simp)+
qed

lemma insert_use [ctl]:
  "(\<And>e P'. control P' = control P \<Longrightarrow> R (e, P')) \<Longrightarrow> wlp R (insert_global k P)"
  "(\<And>e P'. control P' = control P \<Longrightarrow> R (e, P')) \<Longrightarrow> wlp R (insert_local k P)"
  using wlpD [OF insert_budget]
  by (fastforce simp: insert_global_def insert_local_def local_sym_def set_local_sym_def control_def wlp_def bind_Some_iff
      split: list.splits)+

lemma find_use [ctl]:
  "(\<And>c. R (P\<lparr>current_id := c\<rparr>)) \<Longrightarrow> wlp R (find_variable st k P)"
  "(\<And>c. R (P\<lparr>current_id := c\<rparr>)) \<Longrightarrow> wlp R (find_argument k P)"
  by (auto simp: find_argument_def find_variable_def wlp_def bind_Some_iff)

lemma set_initialized_use [ctl]: "(\<And>P'. control P' = control P \<Longrightarrow> R P') \<Longrightarrow> wlp R (set_initialized P)"
  unfolding set_initialized_def by (rule change_item_use)

lemma declare_type_use [ctl]: "(\<And>P'. control P' = control P \<Longrightarrow> R P') \<Longrightarrow> wlp R (declare_type ty b P)"
proof -
  assume R: "\<And>P'. control P' = control P \<Longrightarrow> R P'"
  show ?thesis unfolding declare_type_def by (intro ctl on_global_use R; simp)
qed

text \<open>The codes a rule can fail with are not that of success.\<close>

lemma wlp_fail [ctl]: "code \<noteq> ERR_NO_ERR \<Longrightarrow> wlp (succeeds Q) (fail code P)"
  by (simp add: wlp_simps)

lemma wlp_success [ctl]: "Q P \<Longrightarrow> wlp (succeeds Q) (success P)"
  by (simp add: wlp_simps)

lemma wlp_fail_naming [ctl]: "code \<noteq> ERR_NO_ERR \<Longrightarrow> wlp (succeeds Q) (fail_naming p code P)"
  unfolding fail_naming_def by (intro ctl)

declare impI [ctl]

lemma keepsI: "(\<And>P. wlp (ends_in (control P)) (r P)) \<Longrightarrow> keeps r"
  by blast

text \<open>The rules that look at the kind of the token, as a chain of tests.\<close>

lemma rule_type_chain: "rule_type P = (let ty = tok_type (curr_tok P) in
   if ty = TOKEN_DT_INT then do { P \<leftarrow> declare_type T_integer False P; GET_TOKEN success P }
   else if ty = TOKEN_DT_DOUBLE then do { P \<leftarrow> declare_type T_double False P; GET_TOKEN success P }
   else if ty = TOKEN_DT_STRING then do { P \<leftarrow> declare_type T_string True P; GET_TOKEN success P }
   else fail ERR_SYNTAX P)"
  unfolding rule_type_def by (cases "tok_type (curr_tok P)") simp_all

lemma rule_type_skip_chain: "rule_type_skip P = (let ty = tok_type (curr_tok P) in
   if ty = TOKEN_DT_INT then skip_type T_integer P else if ty = TOKEN_DT_DOUBLE then skip_type T_double P
   else if ty = TOKEN_DT_STRING then skip_type T_string P else fail ERR_SYNTAX P)"
  unfolding rule_type_skip_def by (cases "tok_type (curr_tok P)") simp_all

lemma rule_literal_chain: "rule_literal P = (let ty = tok_type (curr_tok P) in
   if ty = TOKEN_INT then check_literal T_integer P else if ty = TOKEN_DBL then check_literal T_double P
   else if ty = TOKEN_STRING then check_literal T_string P else if ty = TOKEN_NIL then check_literal T_nil P
   else fail ERR_SYNTAX P)"
  unfolding rule_literal_def by (cases "tok_type (curr_tok P)") simp_all

lemma keeps_type: "keeps rule_type"
  by (intro keepsI; unfold rule_type_chain Let_def; intro ctl; simp add: error_codes)

lemmas type_use [ctl] = keeps_use [OF keeps_type]

lemma keeps_opt_type: "keeps rule_opt_type"
  unfolding rule_opt_type_def by (intro keepsI ctl; simp add: wlp_simps)

lemma keeps_skip_type: "keeps (skip_type ty)"
  unfolding skip_type_def by (intro keepsI ctl on_local_use; simp add: wlp_simps)

lemmas skip_type_use [ctl] = keeps_use [OF keeps_skip_type]

lemma keeps_type_skip: "keeps rule_type_skip"
  by (intro keepsI; unfold rule_type_skip_chain Let_def; intro ctl; simp add: error_codes)

lemma keeps_pass: "keeps pass_argument"
  unfolding pass_argument_def by (intro keepsI ctl; simp add: wlp_simps)

lemmas pass_use [ctl] = keeps_use [OF keeps_pass] keeps_use [OF keeps_type_skip] keeps_use [OF keeps_opt_type]

lemma keeps_check_literal: "keeps (check_literal ty)"
  unfolding check_literal_def by (intro keepsI ctl; simp add: error_codes)

lemmas check_literal_use [ctl] = keeps_use [OF keeps_check_literal]

lemma keeps_literal: "keeps rule_literal"
  by (intro keepsI; unfold rule_literal_chain Let_def; intro ctl; simp add: error_codes)

lemmas literal_use [ctl] = keeps_use [OF keeps_literal]

lemma keeps_term: "keeps rule_term"
  unfolding rule_term_def by (intro keepsI ctl; simp add: error_codes)

lemmas term_use [ctl] = keeps_use [OF keeps_term]

lemma keeps_opt_arg: "keeps rule_opt_arg" "keeps unlabelled_argument"
  unfolding rule_opt_arg_def unlabelled_argument_def by (intro keepsI ctl; simp add: error_codes)+

lemmas opt_arg_use [ctl] = keeps_opt_arg [THEN keeps_use]

lemma keeps_arg: "keeps rule_arg"
  unfolding rule_arg_def by (intro keepsI ctl; simp add: error_codes)

lemmas arg_use [ctl] = keeps_use [OF keeps_arg]

lemma keeps_admissible: "option.admissible (\<lambda>r. keeps r)"
proof -
  have "(\<forall>P. wlp (ends_in (control P)) (r P)) = (\<forall>P y. r P = Some y \<longrightarrow> ends_in (control P) y)" for r :: rule
    by (simp add: wlp_def)
  then show ?thesis by (simp only: option_admissible)
qed

lemma keeps_bottom: "keeps (\<lambda>_. None)"
  by (simp add: wlp_simps)

lemma keeps_arg_next: "keeps rule_arg_next"
proof (induction rule: rule_arg_next.fixp_induct [OF keeps_admissible keeps_bottom])
  case (1 f)
  note use = keeps_use [OF 1]
  show ?case by (intro keepsI ctl use; simp add: error_codes)
qed

lemmas arg_next_use [ctl] = keeps_use [OF keeps_arg_next]

lemma keeps_arg_list: "keeps rule_arg_list"
  unfolding rule_arg_list_def Let_def by (intro keepsI ctl; simp add: error_codes)

lemmas arg_list_use [ctl] = keeps_use [OF keeps_arg_list]

text \<open>A call changes \<open>last_func_id\<close> and restores it at the end.\<close>

lemma wlp_finish_call [ctl]: "control (P\<lparr>last_func_id := temp\<rparr>) = C \<Longrightarrow> wlp (ends_in C) (finish_call temp P)"
  unfolding finish_call_def by (intro ctl; simp add: control_def)

lemma keeps_funccall: "keeps rule_funccall"
  unfolding rule_funccall_def Let_def by (intro keepsI ctl; simp add: error_codes control_def)

lemmas funccall_use [ctl] = keeps_use [OF keeps_funccall]

lemma keeps_finish: "keeps initialize_and_declare" "keeps initialize_and_assign"
  unfolding initialize_and_declare_def initialize_and_assign_def by (intro keepsI ctl; simp)+

lemma keeps_right_side:
  assumes "keeps call" "keeps expression"
  shows "keeps (right_side call expression)"
  unfolding right_side_def Let_def
  by (intro keepsI ctl keeps_use [OF assms(1)] keeps_use [OF assms(2)]; simp add: error_codes)

lemma keeps_typed_call: "keeps finish \<Longrightarrow> keeps (typed_call finish)"
proof -
  assume "keeps finish"
  note use = keeps_use [OF this]
  show ?thesis unfolding typed_call_def by (intro keepsI ctl use; simp add: error_codes)
qed

lemma keeps_typed_expression: "keeps nil_value \<Longrightarrow> keeps finish \<Longrightarrow> keeps (typed_expression nil_value finish)"
proof -
  assume "keeps nil_value" "keeps finish"
  note use = this [THEN keeps_use]
  show ?thesis unfolding typed_expression_def by (intro keepsI ctl use; simp add: error_codes)
qed

lemma nil_value_keeps: "keeps (\<lambda>P. do { P \<leftarrow> set_initialized P; success P })"
  by (intro keepsI ctl; simp)

lemmas finish_use [ctl] = keeps_finish [THEN keeps_use]
  keeps_use [OF keeps_right_side [OF keeps_typed_call [OF keeps_finish(1)] keeps_typed_expression [OF keeps_finish(1) keeps_finish(1)]]]
  keeps_use [OF keeps_right_side [OF keeps_typed_call [OF keeps_finish(2)] keeps_typed_expression [OF nil_value_keeps keeps_finish(2)]]]

lemma keeps_opt_assign: "keeps rule_opt_assign"
  unfolding rule_opt_assign_def by (intro keepsI ctl; simp)

lemmas opt_assign_use [ctl] = keeps_use [OF keeps_opt_assign]

lemma rule_var_def_cont_chain: "rule_var_def_cont P = (let ty = tok_type (curr_tok P) in
   if ty = TOKEN_COL then GET_TOKEN (NEXT_RULE rule_type (NEXT_RULE rule_opt_assign success)) P
   else if ty = TOKEN_ASS then right_side untyped_call untyped_expression P
   else fail_naming (current_id P) ERR_SYNTAX P)"
  unfolding rule_var_def_cont_def
  by (cases "tok_type (curr_tok P)") simp_all

lemma keeps_untyped: "keeps untyped_call" "keeps untyped_expression"
  unfolding untyped_call_def untyped_expression_def by (intro keepsI ctl; simp add: error_codes)+

lemmas untyped_use [ctl] = keeps_use [OF keeps_right_side [OF keeps_untyped]]

lemma keeps_var_def_cont: "keeps rule_var_def_cont"
  by (intro keepsI; unfold rule_var_def_cont_chain Let_def; intro ctl; simp add: error_codes)

lemmas var_def_cont_use [ctl] = keeps_use [OF keeps_var_def_cont]

lemma keeps_define: "keeps rule_define"
  unfolding rule_define_def Let_def by (intro keepsI ctl; simp add: error_codes)

lemmas define_use [ctl] = keeps_use [OF keeps_define]

lemma rule_expr_type_chain: "rule_expr_type P = (let ty = tok_type (curr_tok P) in
   if ty = TOKEN_ASS then
     (if lhs_id P = None then fail ERR_UNDEFINED_VARIABLE P
      else do {
        lhs \<leftarrow> item_at (lhs_id P) P;
        if \<not> it_is_mutable lhs \<and> it_is_var_initialized lhs then fail_naming (current_id P) ERR_SEMANTIC P
        else assignment P
      })
   else if ty = TOKEN_L_PAR then
     (if current_id P = None then fail ERR_UNDEFINED_FUNCTION P
      else do {
        f \<leftarrow> item_at (current_id P) P;
        if it_type f \<noteq> T_function then fail ERR_UNDEFINED_FUNCTION P
        else GET_TOKEN (NEXT_RULE rule_arg_list (finish_call (last_func_id P)))
          (P\<lparr>last_func_id := current_id P, current_id := None, in_function := True\<rparr>)
      })
   else fail ERR_SYNTAX P)"
  unfolding rule_expr_type_def Let_def by (cases "tok_type (curr_tok P)") simp_all

lemmas assignment_use [ctl] = finish_use(4) [folded assignment_def]

lemma keeps_expr_type: "keeps rule_expr_type"
  by (intro keepsI; unfold rule_expr_type_chain Let_def; intro ctl; simp add: error_codes control_def)

lemmas expr_type_use [ctl] = keeps_use [OF keeps_expr_type]

lemma keeps_simple_statements: "keeps identifier_statement" "keeps (declaration_statement m)"
  unfolding identifier_statement_def declaration_statement_def by (intro keepsI ctl; simp add: error_codes)+

lemma keeps_cond_clause: "keeps rule_cond_clause"
  unfolding rule_cond_clause_def by (intro keepsI ctl on_local_use; simp add: error_codes)

lemmas statement_use [ctl] = keeps_simple_statements [THEN keeps_use] keeps_use [OF keeps_cond_clause]

end
