(* ===== verification/Balance.thy ===== *)
theory Balance
  imports Control
begin

text \<open>
  Statements, blocks and programs open and close their scopes in pairs, and every body of a
  function forgets the \<open>return\<close> statements inside it when it is closed.
\<close>

section \<open>Scopes of statements\<close>

text \<open>The scopes are opened and closed one by one; this needs an allocator that does not fail.\<close>

lemma open_scope_use:
  assumes "sh_budget (p_heap P) = None"
    and "\<And>P'. control P' = (Suc (length (p_stack P)), in_cond P, in_loop P, in_func_body P, last_func_id P, True) \<Longrightarrow> R P'"
  shows "wlp R (open_scope P)"
  using assms
  by (auto simp: open_scope_def add_scope_def create_local_symtab_def symtable_init_def alloc_None wlp_def control_def)

lemma dispose_items_budget: "dispose_items ps H = Some H' \<Longrightarrow> sh_budget H' = sh_budget H"
  by (induction ps arbitrary: H) (auto simp: bind_Some_iff split: option.splits)

lemma close_scope_use:
  assumes "\<And>P'. control P' = (length (p_stack P) - 1, in_cond P, in_loop P, in_func_body P, last_func_id P,
      sh_budget (p_heap P) = None) \<Longrightarrow> R P'"
  shows "wlp R (close_scope P)"
proof -
  have "\<And>P'. p_stack P' = tl (p_stack P) \<Longrightarrow> in_cond P' = in_cond P \<Longrightarrow> in_loop P' = in_loop P \<Longrightarrow> in_func_body P' = in_func_body P \<Longrightarrow>
      last_func_id P' = last_func_id P \<Longrightarrow> sh_budget (p_heap P') = sh_budget (p_heap P) \<Longrightarrow> R P'"
    using assms by (simp add: control_def)
  then show ?thesis
    by (auto simp: close_scope_def pop_scope_def symtable_dispose_def wlp_def bind_Some_iff
        dest!: dispose_items_budget split: list.splits)
qed

text \<open>A body closes the scope that was opened for it; a statement leaves the scopes alone.\<close>

definition closes :: "rule \<Rightarrow> bool" where
  "closes body \<longleftrightarrow> (\<forall>P d c l b f. control P = (Suc d, c, l, b, f, True) \<longrightarrow> wlp (ends_in (d, c, l, b, f, True)) (body P))"

definition balanced :: "rule \<Rightarrow> bool" where
  "balanced r \<longleftrightarrow> (\<forall>P. sh_budget (p_heap P) = None \<longrightarrow> wlp (ends_in (control P)) (r P))"

lemma closes_use:
  assumes "closes body" "control P = (Suc d, c, l, b, f, True)"
    "\<And>res P'. (res = ERR_NO_ERR \<Longrightarrow> control P' = (d, c, l, b, f, True)) \<Longrightarrow> R (res, P')"
  shows "wlp R (body P)"
proof -
  have "wlp (ends_in (d, c, l, b, f, True)) (body P)" using assms(1,2) by (simp add: closes_def)
  then show ?thesis using assms(3) by (fastforce simp: wlp_def succeeds_def)
qed

lemma balanced_use:
  assumes "balanced r" "sh_budget (p_heap P) = None"
    "\<And>res P'. (res = ERR_NO_ERR \<Longrightarrow> control P' = control P) \<Longrightarrow> R (res, P')"
  shows "wlp R (r P)"
  by (rule wlp_use [of P]) (use assms in \<open>simp_all add: balanced_def\<close>)

lemma balanced_while: "closes body \<Longrightarrow> balanced (while_statement body)"
proof -
  assume "closes body"
  note use = closes_use [OF this]
  show ?thesis unfolding balanced_def while_statement_def Let_def
    by (intro allI ctl open_scope_use use) (auto simp: error_codes control_def)
qed

lemma balanced_if: "closes body \<Longrightarrow> balanced (if_statement body)"
proof -
  assume "closes body"
  note use = closes_use [OF this]
  show ?thesis unfolding balanced_def if_statement_def else_branch_def Let_def
    by (intro allI ctl open_scope_use close_scope_use use) (auto simp: error_codes control_def)
qed

lemma keeps_balanced: "keeps r \<Longrightarrow> balanced r"
  by (simp add: balanced_def)

lemma balanced_stmt: "closes body \<Longrightarrow> balanced (rule_stmt body)"
  using balanced_while [of body] balanced_if [of body] keeps_simple_statements
  by (simp add: balanced_def rule_stmt_def wlp_simps Let_def error_codes)

lemma balanced_opt_ret: "balanced rule_opt_ret"
  unfolding balanced_def rule_opt_ret_def Let_def
  by (intro allI ctl; simp add: error_codes)

lemma balanced_func_stmt: "closes body \<Longrightarrow> balanced (rule_func_stmt body)"
proof -
  assume c: "closes body"
  have r: "wlp (ends_in (control P)) (CHECK_NEWLINE (\<lambda>P. NEXT_RULE rule_opt_ret success (P\<lparr>return_found := True\<rparr>)) P)"
    if "sh_budget (p_heap P) = None" for P
    using that by (intro ctl balanced_use [OF balanced_opt_ret]) simp_all
  show ?thesis
    using balanced_while [OF c] balanced_if [OF c] keeps_simple_statements r
    unfolding balanced_def rule_func_stmt_def Let_def by (intro allI impI wlp_structure wlp_fail) (simp_all add: error_codes)
qed

lemma closes_admissible: "option.admissible (\<lambda>r. closes r)"
proof -
  have "closes r = (\<forall>P y. r P = Some y \<longrightarrow> (\<forall>d c l b f. control P = (Suc d, c, l, b, f, True) \<longrightarrow> ends_in (d, c, l, b, f, True) y))" for r
    unfolding closes_def wlp_def by blast
  then show ?thesis by (simp only: option_admissible)
qed

lemma closes_bottom: "closes (\<lambda>_. None)"
  by (simp add: closes_def wlp_simps)

text \<open>A statement and the rest of its body.\<close>

lemma closes_body:
  assumes "closes rest" "balanced stmt"
    "\<And>P d c l b f. control P = (Suc d, c, l, b, f, True) \<Longrightarrow> wlp (ends_in (d, c, l, b, f, True)) (final P)"
  shows "closes (\<lambda>P. if tok_type (curr_tok P) = TOKEN_R_BKT then final P
      else NEXT_RULE stmt (\<lambda>P. NEXT_RULE rest success (P\<lparr>first_stmt := False\<rparr>)) P)"
  unfolding closes_def
  by (intro allI ctl balanced_use [OF assms(2)] closes_use [OF assms(1)] assms(3)) (simp_all add: control_def)

lemma closes_block_body: "closes rule_block_body"
proof (induction rule: rule_block_body.fixp_induct [OF closes_admissible closes_bottom])
  case (1 f)
  show ?case
    by (rule closes_body [OF 1 balanced_stmt [OF 1]]) (intro ctl close_scope_use; simp add: control_def)
qed

lemma closes_end_of_body: "control P = (Suc d, c, l, b, f, True) \<Longrightarrow> wlp (ends_in (d, c, l, b, f, True)) (end_of_body P)"
  unfolding end_of_body_def by (intro ctl close_scope_use) (auto simp: error_codes control_def)

lemma closes_func_body: "closes rule_func_body"
proof (induction rule: rule_func_body.fixp_induct [OF closes_admissible closes_bottom])
  case (1 f)
  show ?case by (rule closes_body [OF 1 balanced_func_stmt [OF 1] closes_end_of_body])
qed

section \<open>Programs\<close>

lemma keeps_param_skip: "keeps rule_param_skip"
  unfolding rule_param_skip_def by (intro keepsI ctl) (auto simp: error_codes)

lemmas param_skip_use [ctl] = keeps_use [OF keeps_param_skip]

lemma keeps_param_next_skip: "keeps rule_param_next_skip"
proof (induction rule: rule_param_next_skip.fixp_induct [OF keeps_admissible keeps_bottom])
  case (1 f)
  note use = keeps_use [OF 1]
  show ?case by (intro keepsI ctl use) (auto simp: error_codes)
qed

lemmas param_next_skip_use [ctl] = keeps_use [OF keeps_param_next_skip]

lemma keeps_header_skip: "keeps rule_param_list_skip" "keeps rule_func_ret_type_skip"
  unfolding rule_param_list_skip_def rule_func_ret_type_skip_def by (intro keepsI ctl; simp add: error_codes)+

lemmas header_skip_use [ctl] = keeps_header_skip [THEN keeps_use]

text \<open>A function sets \<open>last_func_id\<close>; outside functions and blocks the rest is as before.\<close>

definition top_level :: "nat \<Rightarrow> 32 word \<Rightarrow> 32 word \<Rightarrow> parser \<Rightarrow> bool" where
  "top_level d c l P \<longleftrightarrow> (\<exists>f. control P = (d, c, l, False, f, True))"

definition stays_top :: "rule \<Rightarrow> bool" where
  "stays_top r \<longleftrightarrow> (\<forall>d c l P. top_level d c l P \<longrightarrow> wlp (succeeds (top_level d c l)) (r P))"

lemma stays_top_use:
  assumes "stays_top r" "top_level d c l P"
    "\<And>res P'. (res = ERR_NO_ERR \<Longrightarrow> top_level d c l P') \<Longrightarrow> R (res, P')"
  shows "wlp R (r P)"
proof -
  have "wlp (succeeds (top_level d c l)) (r P)" using assms(1,2) by (simp add: stays_top_def)
  then show ?thesis using assms(3) by (fastforce simp: wlp_def succeeds_def)
qed

lemma top_function_definition: "stays_top function_definition"
proof -
  have "wlp (succeeds (top_level d c l)) (function_definition P)" if "control P = (d, c, l, False, f, True)" for d c l f P
    unfolding function_definition_def Let_def
    by (intro ctl open_scope_use close_scope_use closes_use [OF closes_func_body])
      (use that in \<open>auto simp: error_codes control_def top_level_def\<close>)
  then show ?thesis unfolding stays_top_def top_level_def by blast
qed

lemma top_balanced: "balanced r \<Longrightarrow> stays_top r"
proof -
  assume b: "balanced r"
  have "wlp (succeeds (top_level d c l)) (r P)" if "control P = (d, c, l, False, f, True)" for d c l f P
    by (intro balanced_use [OF b]) (use that in \<open>auto simp: control_def top_level_def\<close>)
  then show ?thesis unfolding stays_top_def top_level_def by blast
qed

lemma stays_top_admissible: "option.admissible (\<lambda>r. stays_top r)"
proof -
  have "stays_top r = (\<forall>P y. r P = Some y \<longrightarrow> (\<forall>d c l. top_level d c l P \<longrightarrow> succeeds (top_level d c l) y))" for r
    unfolding stays_top_def wlp_def by blast
  then show ?thesis by (simp only: option_admissible)
qed

lemma stays_top_bottom: "stays_top (\<lambda>_. None)"
  by (simp add: stays_top_def wlp_simps)

lemma top_upd [simp]:
  "top_level d c l (P\<lparr>p_cg := G\<rparr>) = top_level d c l P" "top_level d c l (P\<lparr>first_stmt := b\<rparr>) = top_level d c l P"
  by (simp_all add: top_level_def)

lemma stays_top_prog: "stays_top rule_prog"
proof (induction rule: rule_prog.fixp_induct [OF stays_top_admissible stays_top_bottom])
  case (1 f)
  note use = stays_top_use [OF 1] stays_top_use [OF top_function_definition]
    stays_top_use [OF top_balanced [OF balanced_stmt [OF closes_block_body]]]
  show ?case unfolding stays_top_def by (intro allI ctl use) simp_all
qed

section \<open>The end of a function\<close>

text \<open>Every body of a function that ends without an error has forgotten the \<open>return\<close> statements seen.\<close>

definition forgets :: "rule \<Rightarrow> bool" where
  "forgets body \<longleftrightarrow> (\<forall>P. wlp (succeeds (\<lambda>P'. \<not> return_found P')) (body P))"

lemma forgets_use:
  "forgets body \<Longrightarrow> (\<And>res P'. (res = ERR_NO_ERR \<Longrightarrow> \<not> return_found P') \<Longrightarrow> R (res, P')) \<Longrightarrow> wlp R (body P)"
  unfolding forgets_def wlp_def succeeds_def by blast

lemma forgets_admissible: "option.admissible (\<lambda>r. forgets r)"
proof -
  have "forgets r = (\<forall>P y. r P = Some y \<longrightarrow> succeeds (\<lambda>P'. \<not> return_found P') y)" for r
    unfolding forgets_def wlp_def by blast
  then show ?thesis by (simp only: option_admissible)
qed

lemma forgets_bottom: "forgets (\<lambda>_. None)"
  by (simp add: forgets_def wlp_simps)

lemma close_scope_found: "(\<And>P'. return_found P' = return_found P \<Longrightarrow> R P') \<Longrightarrow> wlp R (close_scope P)"
  by (auto simp: close_scope_def wlp_def bind_Some_iff)

lemma forgets_func_body: "forgets rule_func_body"
proof (induction rule: rule_func_body.fixp_induct [OF forgets_admissible forgets_bottom])
  case (1 f)
  have stmt: "(\<And>res P'. R (res, P')) \<Longrightarrow> wlp R (rule_func_stmt f P)" for R P by (auto simp: wlp_def)
  have e: "wlp (succeeds (\<lambda>P'. \<not> return_found P')) (end_of_body P)" for P
    unfolding end_of_body_def by (intro ctl close_scope_found) (auto simp: error_codes)
  show ?case unfolding forgets_def by (intro allI ctl forgets_use [OF 1] stmt e) simp_all
qed

text \<open>Therefore a loop or a condition, whose last action is the end of a body, leaves none.\<close>

lemma nested_forgets:
  assumes "forgets body"
  shows "wlp (succeeds (\<lambda>P'. \<not> return_found P')) (while_statement body P)"
    "wlp (succeeds (\<lambda>P'. \<not> return_found P')) (if_statement body P)"
proof -
  have any: "(\<And>res P'. R (res, P')) \<Longrightarrow> wlp R (expr P)" "(\<And>res P'. R (res, P')) \<Longrightarrow> wlp R (rule_cond_clause P)"
    "(\<And>P'. R' P') \<Longrightarrow> wlp R' (open_scope P)" "(\<And>P'. R' P') \<Longrightarrow> wlp R' (close_scope P)" for R R' P
    by (auto simp: wlp_def)
  show "wlp (succeeds (\<lambda>P'. \<not> return_found P')) (while_statement body P)"
    "wlp (succeeds (\<lambda>P'. \<not> return_found P')) (if_statement body P)"
    unfolding while_statement_def if_statement_def else_branch_def Let_def
    by (intro ctl any forgets_use [OF assms]; simp add: error_codes)+
qed

text \<open>
  A function with a result whose last statement is a loop or a condition is rejected, also
  when every path through it returns.
\<close>

lemma return_inside_lost:
  assumes start: "tok_type (curr_tok P) \<in> {TOKEN_IF, TOKEN_WHILE}"
    and stmt: "rule_func_stmt rule_func_body P = Some (ERR_NO_ERR, P1)"
    and last: "tok_type (curr_tok P1) = TOKEN_R_BKT" "in_cond P1 = 0" "in_loop P1 = 0"
    and f: "item_at (last_func_id P1) P1 = Some f" "it_return_type f \<noteq> T_nil"
  shows "\<exists>P'. rule_func_body P = Some (ERR_RETURN_TYPE, P')"
proof -
  have "\<not> return_found P1"
    using stmt start wlpD [OF nested_forgets(1) [OF forgets_func_body]] wlpD [OF nested_forgets(2) [OF forgets_func_body]]
    by (fastforce simp: rule_func_stmt_def Let_def)
  then have "rule_func_body (P1\<lparr>first_stmt := False\<rparr>) = Some (ERR_RETURN_TYPE, P1\<lparr>first_stmt := False\<rparr>)"
    using last f by (subst rule_func_body.simps) (simp add: end_of_body_def item_at_def name_at_def fail_naming_def fail_def)
  then show ?thesis
    using stmt start by (subst rule_func_body.simps) (auto simp: NEXT_RULE_def error_codes)
qed

end
