(* ===== verification/Spec2Isabelle.thy ===== *)
theory Spec2Isabelle
  imports Parser_Samples Balance
begin

text \<open>
  A verification development for the IFJ23 compiler, which translates a subset of Swift into the
  stack code IFJcode23. The compiler is the C program under \<open>src/src\<close> and \<open>src/include\<close>; this
  header names files relative to them.

  The program. \<open>compiler.c\<close> calls \<open>parse\<close> of \<open>parser.c\<close>. It prints the prologue with the
  built-in functions, enters their headers into the global table, runs the scanner
  (\<open>lexical_analyzer.c\<close>) to the end of the input and keeps the tokens in a linked buffer
  (\<open>token_buffer.c\<close>). A first pass over the buffer enters the headers of functions into the
  global symbol table (\<open>symtable.c\<close>); a second pass parses statements by recursive descent,
  keeps one table per block on a stack (\<open>scope.c\<close>), hands expressions to the precedence analysis
  (\<open>expression.c\<close>, with the stack of \<open>symstack.c\<close>), and prints code as it goes
  (\<open>code_generator.c\<close>). Inside loops the code is buffered until the end of the outermost loop.
  \<open>dyn_string.c\<close> holds the dynamic strings that the scanner and the tables use.

  How C is modelled. An operation is a function on explicit states; \<open>None\<close> (written \<open>UB\<close>) is
  what the C standard leaves undefined: an access outside an object, a null or dangling
  dereference, a read of unwritten memory, a second \<open>free\<close>. For a \<open>partial_function\<close> it also
  stands for a run that does not end, so \<open>f x = Some y\<close> always says that \<open>f\<close> is defined, ends
  and returns \<open>y\<close>; the theorems of totality are stated in this form. Loops with an evident
  measure are \<open>function\<close>s with a termination proof. Integers have their width (\<open>32 word\<close>,
  \<open>64 word\<close>), \<open>char\<close> is signed; sizes of memory blocks are naturals. Each allocating component
  has a budget: \<open>None\<close> is an allocator that never fails, \<open>Some n\<close> one that fails after \<open>n\<close> calls.
  Memory that is read before it is written is a parameter of the state (\<open>stale\<close>, \<open>bytes_zero\<close>)
  about which nothing is assumed.

  The theories.
  \<^item> \<open>C_Prelude\<close>: characters, C strings, memory blocks, budgets, and the predicates \<open>wlp\<close> and
    \<open>wp\<close> on outcomes with their rules. \<open>C_Numbers\<close>: \<open>atoi\<close>, \<open>atof\<close>, \<open>strtod\<close> and the format
    conversions the sources use, with doubles kept as exact decimal values.
  \<^item> \<open>Dyn_String\<close>: \<open>dyn_string.c\<close>; the interface \<open>ds\<close> relates the block to the string it holds.
  \<^item> \<open>Token\<close>, \<open>Lexer\<close>: the tokens and the scanner, one definition per state function, and the
    reading loop. \<open>Lexer_Safety\<close>: an invariant indexed by the state, from which no state function
    does anything undefined and the loop ends. \<open>Scanning\<close>: each token consumes input, so
    filling the buffer ends, with exactly the tokens of the input or with those in front of a lexical
    error (\<open>scans\<close>, \<open>scan_fails\<close>), and strings and identifiers carry
    the text that the buffer releases.
  \<^item> \<open>Token_Buffer\<close>: the doubly linked list on an explicit heap, and the locale \<open>token_stream\<close>, a
    list with a position, interpreted on it.
  \<^item> \<open>Symtable\<close>: open addressing with double hashing, growth, deletion marks, attributes and
    parameters. \<open>Symtable_Map\<close>: the invariant \<open>st_wf\<close>, the locale \<open>name_table\<close> (what a search
    finds after an insertion or deletion) interpreted on it, and the inputs on which the code
    fails. \<open>Symtable_Attributes\<close>: the accessors.
  \<^item> \<open>Scope\<close>: the stack of tables as a chained search, proved in \<open>name_table\<close>; what is declared in an
    opened scope (\<open>opened\<close>) is what closing it releases.
  \<^item> \<open>Codegen\<close>: the emitters with their two output channels (printed at once, buffered in loops)
    and the counters. \<open>Codegen_Output\<close>: \<open>prints Q k f es\<close>, what an emitter prints in every state, and its
    composition for sequences, conditionals, loops and calls.
  \<^item> \<open>Symstack\<close>, \<open>Expression\<close>: the symbols, the precedence table, the reductions with their types,
    and the loop of \<open>expr\<close>. \<open>Expression_Steps\<close>, \<open>Expression_Parsing\<close>: what each step does, and the
    correctness of \<open>expr\<close> for a reference grammar. \<open>Expression_Errors\<close>: the rules behind the
    documented table and the two entries in which the code differs, the typing of arithmetic, and
    the faults of the error paths.
  \<^item> \<open>Parser_State\<close>, \<open>Parser\<close>, \<open>Statements\<close>, \<open>Program\<close>: the record \<open>Parser\<close>, the macros of
    \<open>parser.h\<close> as operations that take the rest of a rule, one definition per rule function, the
    two passes, the built-in functions, and \<open>parse\<close>. Statements and the bodies they contain are
    mutually recursive through an argument. \<open>Control\<close>, \<open>Balance\<close>: what every rule does to the
    scopes, the counters and the current function, by induction over the recursion of the rules.
  \<^item> \<open>Block_Code\<close>, \<open>Program_Code\<close>: the code of programs without functions. A grammar of assignments, loops
    and conditions over global integer variables, and of programs that also declare variables; the
    code of a statement and of a program as functions of the syntax; the parser reads exactly such a
    program and prints its code.
  \<^item> \<open>Builtins\<close>: \<open>add_builtins\<close> on an empty table: each call of \<open>SET_BUILTIN\<close> and \<open>ADD_BUILTIN_PARAM\<close>
    keeps the functions entered before, the first eight names have different home slots, and the
    eighth makes the table grow to at least 23 slots.
  \<^item> \<open>Compile\<close>: the whole of \<open>parse\<close>: the set-up, the outcome on an input with a lexical error, and
    for programs without functions the way from the input through the scanner, the buffer and both passes to the printed code and the release of all memory. At most two
    variables may be declared, since only then the table stays half empty beside the built-in
    functions whatever the names are. \<open>prolog_text\<close> is what \<open>code_generator_prolog\<close> prints.
  \<^item> \<open>Calls\<close>: the phrases of arguments for the parameters of a function, over an environment of
    the variables the parser sees; \<open>rule_funccall\<close> reads them and drives the generator through
    \<open>pass_params\<close> and the call. What the code accepts although it should not.
  \<^item> \<open>Samples\<close>, \<open>Parser_Samples\<close>: the concrete states the properties are instantiated on.

  Bounds. The table holds less than 16398 items wherever an insertion is claimed to succeed: from
  25229 slots on the code has no next size. A search is claimed to end when the probe sequence
  reaches a free slot (\<open>probe_ends\<close>), which a table less than half full guarantees; six
  particular names defeat it in a fresh table. Nested loops are counted in 32 bits.

  Not modelled. \<open>print_error\<close> and the messages and debug output on \<open>stderr\<close> (\<open>error.c\<close>,
  \<open>debug.h\<close>); the pointers a message reads are followed. The failure of the allocator for the
  temporary string of the parser and its reallocation. The text of the built-in functions in the
  prologue is a constant of the generator and nothing is claimed about how it runs.
\<close>

section \<open>Programs without functions\<close>

text \<open>
  C1. The compiler, from the input to the code: when the scanner reads the input as a program of the
  grammar \<open>program_phrase\<close>, which declares at most two variables, \<open>parse\<close> returns no error and
  has printed the prologue and exactly the code of the program, and has released the buffer and
  the table. The names of the variables are
  numbered behind the ten built-in functions, which they must differ from.
\<close>

theorem compile_program:
  assumes "scans (lexer_init None inp) (us @ [r]) L" "tok_type r = TOKEN_EOF"
    "program_phrase Map.empty 10 (set builtin_names) True us p" "declarations p \<le> 2" "prog_depth p < 2 ^ 32"
  shows "\<exists>P'. parse (program_start None inp P) = Some (ERR_NO_ERR, P') \<and>
    cg_out (p_cg P') = prolog_text @ prog_code p (0, 0) \<and> released P'"
  by (rule compile_runs [OF assms])

theorem compile_program_witness:
  "\<exists>P'. parse (program_start None counting_input raw_parser) = Some (ERR_NO_ERR, P') \<and>
    cg_out (p_cg P') = prolog_text @ prog_code (counting_prog (var_text gf_name ''x'' 10)) (0, 0) \<and> released P'"
proof -
  obtain L where s: "scans (lexer_init None counting_input) (counting_tokens @ [counting_end]) L"
    using counting_scans by blast
  have ph: "program_phrase Map.empty 10 (set builtin_names) True counting_tokens (counting_prog (var_text gf_name ''x'' 10))"
    by (rule counting_program) (simp_all add: builtin_names_def)
  show ?thesis
    by (rule compile_program [OF s _ ph])
      (simp_all add: counting_end_def scanned_def counting_prog_def counting_stmt_def)
qed

text \<open>
  C2. Lexical errors, for every input: when the scanner does not read the input to its end, \<open>parse\<close>
  returns the code of a lexical error. It has printed nothing but the prologue and has released
  the tokens read so far, each with its string, and the table.
\<close>

theorem lexical_error:
  assumes "\<nexists>ts L. scans (lexer_init None inp) ts L"
  shows "\<exists>P'. parse (program_start None inp P) = Some (ERR_LEXICAL, P') \<and> cg_out (p_cg P') = prolog_text \<and> released P'"
  using scanning_decides [of inp P] assms by blast

theorem lexical_error_witness:
  "\<exists>P'. parse (program_start None ''x = $'' raw_parser) = Some (ERR_LEXICAL, P') \<and> cg_out (p_cg P') = prolog_text \<and> released P'"
proof (rule lexical_error)
  show "\<nexists>ts L. scans (lexer_init None ''x = $'') ts L" using bad_input by blast
qed

text \<open>
  C4. The built-in functions: on an empty global table \<open>add_builtins\<close> succeeds, although the table
  has to grow, and leaves a sound table, less than half full, in which each of the ten functions
  is found with its result type, its parameters, their labels and types, and no other name.
\<close>

theorem builtins_entered:
  assumes "global_symtab P = fresh_table" "p_heap P = fresh_heap"
  shows "\<exists>T H. add_builtins P = Some (True, P\<lparr>global_symtab := T, p_heap := H\<rparr>) \<and> st_wf H T \<and>
    (\<forall>(key, sg)\<in>set builtin_functions. is_fun key sg T H) \<and>
    names H (st_items T) \<subseteq> set builtin_names \<and> sh_unique_id H = 10 \<and> 2 * st_count T < st_size T"
proof -
  obtain T H where T: "add_builtins P = Some (True, P\<lparr>global_symtab := T, p_heap := H\<rparr>)" "filled builtin_functions T H"
    "tabled builtin_names T H" "grown 10 T"
    by (rule add_builtins_ok [OF assms])
  have "sh_unique_id H = 10" using T(3) by (simp add: tabled_def builtin_names_def)
  then show ?thesis
    using T by (intro exI [of _ T] exI [of _ H]) (simp add: filled_def tabled_def table_inv_def grown_def)
qed

theorem builtins_entered_witness:
  "\<exists>T H. add_builtins raw_parser = Some (True, raw_parser\<lparr>global_symtab := T, p_heap := H\<rparr>) \<and> st_wf H T \<and>
    (\<forall>(key, sg)\<in>set builtin_functions. is_fun key sg T H) \<and>
    names H (st_items T) \<subseteq> set builtin_names \<and> sh_unique_id H = 10 \<and> 2 * st_count T < st_size T"
  by (rule builtins_entered) (simp_all add: raw_parser_def)

text \<open>
  C5. The second pass over a program of the grammar \<open>program_phrase\<close>, declarations of integer
  variables and statements with loops and conditions, ends without error at the end of the
  input, and prints exactly the code \<open>prog_code\<close> of the program.
\<close>

theorem program_code:
  assumes "program_phrase V n N True us p" "tok_type r = TOKEN_EOF" "reading toks i (us @ [r]) P" "outermost V P"
    "first_stmt P" "n = sh_unique_id (p_heap P)" "names (p_heap P) (st_items (global_symtab P)) \<subseteq> N" "prog_room p (global_symtab P)"
  shows "\<exists>P'. rule_prog P = Some (ERR_NO_ERR, P') \<and> cg_out (p_cg P') = cg_out (p_cg P) @ prog_code p (cond_uid P, loop_uid P)"
  using program_runs [OF assms(1-4) _ assms(6-8)] assms(5) by blast

theorem program_code_witness:
  "\<exists>P'. rule_prog (loaded (counting_tokens @ [counting_end]) raw_parser) = Some (ERR_NO_ERR, P') \<and>
    cg_out (p_cg P') = prog_code (counting_prog ''GF@x_0'') (0, 0)"
proof -
  let ?P = "loaded (counting_tokens @ [counting_end]) raw_parser"
  have ph: "program_phrase Map.empty 0 {} True counting_tokens (counting_prog ''GF@x_0'')"
    by (rule counting_program [OF _ counting_text]) simp
  have r: "reading (counting_tokens @ [counting_end]) 0 (counting_tokens @ [counting_end]) ?P"
    by (rule loaded_reading)
      (simp_all add: counting_tokens_def counting_loop_def counting_body_def counting_end_def scanned_def raw_parser_def)
  have top: "outermost Map.empty ?P"
    using fresh_wf ready_wf
    by (simp add: outermost_def ready_for_def globals_def raw_parser_def loaded_def table_inv_def EXIT_SUCCESS_def)
  have e: "tok_type counting_end = TOKEN_EOF" by (simp add: counting_end_def scanned_def)
  have "\<exists>P'. rule_prog ?P = Some (ERR_NO_ERR, P') \<and>
      cg_out (p_cg P') = cg_out (p_cg ?P) @ prog_code (counting_prog ''GF@x_0'') (cond_uid ?P, loop_uid ?P)"
    by (rule program_code [OF ph e r top])
      (use fresh_wf in \<open>simp_all add: raw_parser_def loaded_def fresh_id prog_room_def fresh_table_def counting_prog_def counting_stmt_def\<close>)
  then show ?thesis by (simp add: raw_parser_def loaded_def ready_codegen_def codegen_init_def)
qed

text \<open>
  C6. Outside functions, a statement of the grammar is parsed without error at any depth of loops and
  conditions. The parser then stands behind it, has closed every scope, condition and loop of
  it, and has printed its code, the labels numbered by the two counters.
\<close>

theorem statement_code:
  assumes "stmt_phrase V ts s" "reading toks i (ts @ b # us) P" "ends_expression b" "ready_for V P"
    "first_stmt P \<or> preceding_eol (hd ts)" "unat (for_open (p_cg P)) + stmt_depth s < 2 ^ 32"
  shows "\<exists>P' j. rule_stmt rule_block_body P = Some (ERR_NO_ERR, P') \<and> reading toks j (b # us) P' \<and>
    p_stack P' = p_stack P \<and> in_cond P' = in_cond P \<and> in_loop P' = in_loop P \<and> p_heap P' = p_heap P \<and>
    writes (fst (stmt_code s (cond_uid P, loop_uid P))) (p_cg P) (p_cg P') \<and>
    (cond_uid P', loop_uid P') = snd (stmt_code s (cond_uid P, loop_uid P))"
  using stmt_okD [OF statements_ok(1) [OF assms(1)] assms(2-5)] assms(6)
  by (auto simp: room_for_def leads_def stmt_frame_def)

theorem statement_code_witness:
  "\<exists>P' j. rule_stmt rule_block_body (loaded nested_tokens raw_parser) = Some (ERR_NO_ERR, P') \<and>
    reading nested_tokens j [plain_token TOKEN_EOF] P' \<and> writes (fst (stmt_code nested_stmt (0, 0))) ready_codegen (p_cg P')"
proof -
  let ?P = "loaded nested_tokens raw_parser"
  have ts: "nested_tokens = butlast nested_tokens @ plain_token TOKEN_EOF # []"
    by (simp add: nested_tokens_def condition_tokens_def)
  have "reading nested_tokens 0 nested_tokens ?P"
    by (rule loaded_reading) (simp_all add: nested_tokens_def condition_tokens_def plain_token_def int_token_def raw_parser_def)
  then have r: "reading nested_tokens 0 (butlast nested_tokens @ plain_token TOKEN_EOF # []) ?P" using ts by simp
  have V: "ready_for Map.empty ?P"
    using fresh_wf ready_wf by (simp add: ready_for_def globals_def raw_parser_def loaded_def EXIT_SUCCESS_def)
  have e: "ends_expression (plain_token TOKEN_EOF)"
    by (simp add: ends_expression_def convert_token_to_index_def plain_token_def)
  have "\<exists>P' j. rule_stmt rule_block_body ?P = Some (ERR_NO_ERR, P') \<and> reading nested_tokens j (plain_token TOKEN_EOF # []) P' \<and>
      p_stack P' = p_stack ?P \<and> in_cond P' = in_cond ?P \<and> in_loop P' = in_loop ?P \<and> p_heap P' = p_heap ?P \<and>
      writes (fst (stmt_code nested_stmt (cond_uid ?P, loop_uid ?P))) (p_cg ?P) (p_cg P') \<and>
      (cond_uid P', loop_uid P') = snd (stmt_code nested_stmt (cond_uid ?P, loop_uid ?P))"
    by (rule statement_code [OF nested_phrase r e V])
      (simp_all add: raw_parser_def loaded_def ready_wf nested_stmt_def Let_def)
  then show ?thesis by (auto simp: raw_parser_def loaded_def)
qed

section \<open>The lexical analyser\<close>

text \<open>
  C12. With enough memory \<open>get_token\<close> returns on every input, from every state of the
  scanner: no state function does anything undefined, the reading loop ends, the result is
  0 or 1, and the scanner may be called again.
\<close>

theorem get_token_total:
  assumes "lexer_ready L"
  shows "\<exists>err tok' L'. get_token tok L = Some (err, tok', L') \<and>
    (err = ERR_NO_ERR \<or> err = ERR_LEXICAL) \<and> lexer_ready L'"
  by (rule get_token_safe [OF assms])

theorem get_token_total_witness:
  "\<exists>err tok' L'. get_token no_token (lexer_init None [CHR 0x22, CHR 0x5C, CHR ''u'', CHR ''{'', CHR ''4'']) = Some (err, tok', L') \<and>
    (err = ERR_NO_ERR \<or> err = ERR_LEXICAL) \<and> lexer_ready L'"
  by (rule get_token_total) (simp add: lexer_init_def lexer_ready_def)

text \<open>
  C13. Filling the token buffer ends on every input. Either the scanner reaches the end of the
  input; then the result is no error, and the buffer holds exactly the tokens of the input and
  stands on the first of them. Or the scanner reports a lexical error; then the result is that
  error, the buffer holds exactly the tokens in front of it, and the input is none that the
  scanner reads to its end.
\<close>

theorem fill_buffer_total:
  assumes "lexer_ready (p_lex P)" "p_budget P = None" "tb_repr (p_buffer P) [] i"
  shows "\<exists>res P' ts. parser_fill_buffer P = Some (res, P') \<and>
    (res = ERR_NO_ERR \<and> scans (p_lex P) ts (p_lex P') \<and> tb_repr (p_buffer P') ts 0 \<or>
     res = ERR_LEXICAL \<and> scan_fails (p_lex P) ts \<and> tb_repr (p_buffer P') ts i \<and>
       (\<nexists>us L. scans (p_lex P) us L))"
  using fill_loop_total [OF assms] scans_not_fails by (simp add: parser_fill_buffer_def) blast

theorem fill_buffer_total_witness:
  "(\<exists>P' ts. parser_fill_buffer (raw_parser\<lparr>p_lex := lexer_init None ''1+x'', p_buffer := tb_init tb_empty_heap\<rparr>) = Some (ERR_NO_ERR, P') \<and>
      scans (lexer_init None ''1+x'') ts (p_lex P') \<and> tb_repr (p_buffer P') ts 0) \<and>
   (\<exists>P' ts. parser_fill_buffer (raw_parser\<lparr>p_lex := lexer_init None ''x = $'', p_buffer := tb_init tb_empty_heap\<rparr>) = Some (ERR_LEXICAL, P') \<and>
      scan_fails (lexer_init None ''x = $'') ts \<and> tb_repr (p_buffer P') ts 0)"
proof -
  have "scan_tokens 4 (lexer_init None ''1+x'') \<noteq> None" by code_simp
  then obtain ts L where "scans (lexer_init None ''1+x'') ts L" by (auto dest: scan_tokens_scans)
  then show ?thesis
    using fill_buffer_total [of "raw_parser\<lparr>p_lex := lexer_init None ''1+x'', p_buffer := tb_init tb_empty_heap\<rparr>" 0]
      fill_buffer_total [of "raw_parser\<lparr>p_lex := lexer_init None ''x = $'', p_buffer := tb_init tb_empty_heap\<rparr>" 0]
      tb_init_repr bad_input
    by (simp add: lexer_init_def lexer_ready_def raw_parser_def) blast
qed

section \<open>Calls\<close>

text \<open>
  C3. A call with the arguments the function asks for, in the order of its parameters, each behind
  its label, literals or variables with a value, or any of them for a variadic function: it is
  accepted, the parser stands behind it, and the code passes each argument and calls the
  function. Nothing but the position and the pointers to the last argument has changed.
\<close>

theorem call_code:
  assumes "call_phrase E f ts vs" "reading toks n (x # l # ts @ b # us) P" "tok_type l = TOKEN_L_PAR"
    "rhs_id P = Some fn" "sh_items (p_heap P) fn = Some f" "sees P E" "steady_for P vs"
    "code_generator_need_function_frame (it_name f)" "plain (it_name f)" "length vs < 2 ^ 32"
    "list_all2 (\<lambda>t es. \<forall>i. prints {i} k (code_generator_print_value (env_of P) t) es) vs ess"
    "cg_wf (p_cg P)" "unat (for_open (p_cg P)) + k < 2 ^ 32" "func_param_id (p_cg P) = 0"
  shows "\<exists>Q m. rule_funccall P = Some (ERR_NO_ERR, Q) \<and> reading toks m (b # us) Q \<and> moved (p_cg Q) P Q \<and>
    writes (call_events (it_name f) ess) (p_cg P) (p_cg Q)"
  by (rule call_writes [OF assms])

theorem call_code_witness:
  "\<exists>Q. rule_funccall (calling [''_'', ''with''] call_tokens) = Some (ERR_NO_ERR, Q) \<and>
    writes (call_events ''f'' [[Buffered (''int@'' @ print_d 7)], [Buffered (''int@'' @ print_d 8)]]) ready_codegen (p_cg Q)"
proof -
  let ?P = "calling [''_'', ''with''] call_tokens" let ?f = "labelled_function [''_'', ''with'']"
  have r: "reading call_tokens 0 (name_token ''f'' # plain_token TOKEN_L_PAR # [int_token 7, plain_token TOKEN_COMMA,
      name_token ''with'', plain_token TOKEN_COL, int_token 8, plain_token TOKEN_R_PAR] @ plain_token TOKEN_EOF # []) ?P"
    using calling_reading [of call_tokens "[''_'', ''with'']"]
    by (simp add: call_tokens_def name_token_def int_token_def plain_token_def)
  have name: "it_name ?f = ''f''" by (simp add: labelled_function_def new_item_def)
  have es: "list_all2 (\<lambda>t es. \<forall>i. prints {i} 0 (code_generator_print_value (env_of ?P) t) es) [int_token 7, int_token 8]
      [[Buffered (''int@'' @ print_d 7)], [Buffered (''int@'' @ print_d 8)]]"
    using prints_int [of "int_token 7" 7] prints_int [of "int_token 8" 8] by (simp add: int_token_def)
  have "\<exists>Q m. rule_funccall ?P = Some (ERR_NO_ERR, Q) \<and> reading call_tokens m (plain_token TOKEN_EOF # []) Q \<and> moved (p_cg Q) ?P Q \<and>
      writes (call_events (it_name ?f) [[Buffered (''int@'' @ print_d 7)], [Buffered (''int@'' @ print_d 8)]]) (p_cg ?P) (p_cg Q)"
    by (rule call_code [OF sample_arguments r _ _ _ _ _ _ _ _ es, of 0])
      (simp_all add: plain_token_def sees_def steady_for_def steady_def name code_generator_need_function_frame_def
        no_frame_functions_def ready_wf)
  then show ?thesis by (auto simp: name)
qed

text \<open>
  C11. A label without a colon: the token behind it is skipped, whatever it is, and the call is
  accepted and printed without the argument.
\<close>

theorem label_without_value:
  assumes "reading toks n (x # l # y # c # q # b # us) P" "tok_type l = TOKEN_L_PAR" "tok_type q = TOKEN_R_PAR"
    "tok_type y = TOKEN_IDENTIFIER" "tok_value y = V_string key" "tok_type c \<noteq> TOKEN_COL"
    "rhs_id P = Some fn" "sh_items (p_heap P) fn = Some f"
    "it_parameters f = [p]" "p_label p = Some key" "key \<noteq> ''_''" "\<not> it_variadic_param f"
    "code_generator_need_function_frame (it_name f)" "plain (it_name f)" "cg_wf (p_cg P)" "func_param_id (p_cg P) = 0"
  shows "\<exists>Q m. rule_funccall P = Some (ERR_NO_ERR, Q) \<and> reading toks m (b # us) Q \<and>
    writes (call_events (it_name f) []) (p_cg P) (p_cg Q)"
  by (rule call_without_value [OF assms])

theorem label_without_value_witness:
  "\<exists>Q. rule_funccall (calling [''with''] no_colon_tokens) = Some (ERR_NO_ERR, Q) \<and>
    writes (call_events ''f'' []) ready_codegen (p_cg Q)"
proof -
  let ?P = "calling [''with''] no_colon_tokens" let ?f = "labelled_function [''with'']"
  have r: "reading no_colon_tokens 0 (name_token ''f'' # plain_token TOKEN_L_PAR # name_token ''with'' # int_token 8 #
      plain_token TOKEN_R_PAR # plain_token TOKEN_EOF # []) ?P"
    using calling_reading [of no_colon_tokens "[''with'']"]
    by (simp add: no_colon_tokens_def name_token_def int_token_def plain_token_def)
  have f: "it_name ?f = ''f''" "it_parameters ?f = [int_param ''with'']" "\<not> it_variadic_param ?f"
    by (simp_all add: labelled_function_def new_item_def)
  have "\<exists>Q m. rule_funccall ?P = Some (ERR_NO_ERR, Q) \<and> reading no_colon_tokens m (plain_token TOKEN_EOF # []) Q \<and>
      writes (call_events (it_name ?f) []) (p_cg ?P) (p_cg Q)"
    by (rule label_without_value [OF r, where f = ?f and p = "int_param ''with''" and key = "''with''"])
      (simp_all add: f int_param_def plain_token_def name_token_def int_token_def ready_wf code_generator_need_function_frame_def
        no_frame_functions_def)
  then show ?thesis by (auto simp: f)
qed

section \<open>Expressions\<close>

text \<open>
  C7. The analysis of expressions is correct on the phrases of the reference grammar: with the
  parser on the token in front of a phrase, and behind it a token that ends an expression or an
  operand on the next line, \<open>expr\<close> returns no error, has read exactly the phrase, gives its type,
  prints its code in postfix order with the usual precedences, and leaves the rest of the state
  alone.
\<close>

theorem expr_correct:
  assumes "reading toks i (t0 # ts @ b # us) P" "phrase (int_var P) 0 ts e" "ends_expression b"
    "expr_err P = EXIT_SUCCESS" "lhs_plain P" "cg_wf (p_cg P)"
  shows "\<exists>P'. expr P = Some (ERR_NO_ERR, P') \<and> writes (code_events e) (p_cg P) (p_cg P') \<and> expr_frame P P' \<and>
    p_expr_res P' = \<lparr>expr_type = ex_type e, nilable = False\<rparr> \<and> reading toks (i + Suc (length ts)) (b # us) P'"
  by (rule expr_phrase [OF assms]) (simp add: wrote_def)

theorem expr_correct_witness:
  "\<exists>P'. expr (loaded comparison_tokens raw_parser) = Some (ERR_NO_ERR, P') \<and>
    writes (code_events comparison_ex) ready_codegen (p_cg P') \<and>
    p_expr_res P' = \<lparr>expr_type = T_bool, nilable = False\<rparr> \<and> curr_tok P' = new_line (name_token ''x'')"
proof -
  let ?P = "loaded comparison_tokens raw_parser"
  let ?ts = "[int_token 1, plain_token TOKEN_ADD, int_token 2, plain_token TOKEN_MUL, int_token 3, plain_token TOKEN_LT, int_token 9]"
  have r: "reading comparison_tokens 0 (plain_token TOKEN_ASS # ?ts @ new_line (name_token ''x'') # [plain_token TOKEN_EOF]) ?P"
    using loaded_reading [of comparison_tokens raw_parser]
    by (simp add: comparison_tokens_def plain_token_def int_token_def raw_parser_def new_line_def name_token_def)
  have "\<exists>P'. expr ?P = Some (ERR_NO_ERR, P') \<and> writes (code_events comparison_ex) (p_cg ?P) (p_cg P') \<and> expr_frame ?P P' \<and>
      p_expr_res P' = \<lparr>expr_type = ex_type comparison_ex, nilable = False\<rparr> \<and>
      reading comparison_tokens (0 + Suc (length ?ts)) (new_line (name_token ''x'') # [plain_token TOKEN_EOF]) P'"
    by (rule expr_correct [OF r comparison_phrase])
      (simp_all add: raw_parser_def ready_wf lhs_plain_def EXIT_SUCCESS_def convert_token_to_index_def ends_expression_def
        line_end_def new_line_def name_token_def)
  then show ?thesis by (auto simp: comparison_ex_def raw_parser_def reading_def)
qed

text \<open>
  C14. The precedence table is the table of the documentation, and that one follows from the levels
  and the associativity of the binary operators and from where an operand begins and ends, but for
  two entries at the start of an expression: a closing bracket is an error where the documentation
  shifts it, and \<open>!\<close> is shifted where the documentation has an error. So an expression that begins
  with \<open>!\<close> is not rejected: no rule fits the \<open>!\<close>, and the analysis frees its handle twice, unless the
  initial symbol, whose token is not initialised, happens to stand behind a line break.
\<close>

theorem precedence_table_documented:
  "prec_tab_at i j =
     (if (i, j) = (INDEX_DOLLAR, INDEX_RPAR) then PREC_X
      else if (i, j) = (INDEX_DOLLAR, INDEX_NOT_NIL) then PREC_S
      else documented_action i j) \<and>
   documented_action INDEX_DOLLAR INDEX_RPAR = PREC_S \<and> documented_action INDEX_DOLLAR INDEX_NOT_NIL = PREC_X \<and>
   (reading toks n (t0 # t # u # us) P \<and> tok_type t = TOKEN_NOT_NIL \<and> \<not> preceding_eol (sym_token (stale P)) \<longrightarrow>
     expr P = UB)"
  using expr_leading_not_nil [of toks n t0 t u us P]
  by (auto simp: prec_tab_documented [of i j] documented_defs)

theorem precedence_table_documented_witness:
  "expr (loaded [plain_token TOKEN_ASS, plain_token TOKEN_NOT_NIL, name_token ''x'', plain_token TOKEN_EOF] raw_parser) = UB"
proof -
  let ?toks = "[plain_token TOKEN_ASS, plain_token TOKEN_NOT_NIL, name_token ''x'', plain_token TOKEN_EOF]"
  have "reading ?toks 0 ?toks (loaded ?toks raw_parser)"
    by (rule loaded_reading) (simp_all add: plain_token_def name_token_def raw_parser_def)
  then show ?thesis
    using precedence_table_documented [of i j ?toks 0 "plain_token TOKEN_ASS" "plain_token TOKEN_NOT_NIL" "name_token ''x''"
        "[plain_token TOKEN_EOF]" "loaded ?toks raw_parser" for i j]
    by (simp add: plain_token_def loaded_def raw_parser_def sample_symbol_def no_token_def)
qed

text \<open>
  C15. An arithmetic operation on two values that are not nilable has the type of the reference
  typing, or the error for incompatible types is recorded. A division whose divisor reads as 0
  has that type too and records a division by zero. Where the reference has no type, a division
  differs from the other operations: two values of one type that is neither a number nor a string
  are divided without an error, with a result of type \<open>Double\<close>.
\<close>

theorem arithmetic_operand_types:
  assumes "operand T l a" "operand T' l' b" "tok_type (sym_token s) \<in> {TOKEN_ADD, TOKEN_SUB, TOKEN_MUL, TOKEN_DIV}"
    "expr_err P = EXIT_SUCCESS" "cg_wf (p_cg P)"
  shows "\<exists>e P'. process_arithmetic_operation \<lparr>arr = Arr_block [a, s, b], arr_size = 3\<rparr> P = Some (e, P') \<and>
    (case arithmetic_type (tok_type (sym_token s)) T l T' l' of
       Some R \<Rightarrow> sym_expr_res e = \<lparr>expr_type = R, nilable = False\<rparr> \<and>
         expr_err P' = (if tok_type (sym_token s) = TOKEN_DIV \<and> zero_divisor P R (sym_token b) then ERR_SEMANTIC else EXIT_SUCCESS)
     | None \<Rightarrow>
         if tok_type (sym_token s) = TOKEN_DIV \<and> T = T' \<and> T \<noteq> T_string
         then sym_expr_res e = \<lparr>expr_type = T_double, nilable = False\<rparr> \<and> expr_err P' = EXIT_SUCCESS
         else expr_err P' = ERR_INCOMPATIBILE_TYPE)"
proof (cases "tok_type (sym_token s) = TOKEN_DIV")
  case True
  show ?thesis unfolding True using division_typing [OF assms(1,2) refl True assms(4,5)] by (simp only: simp_thms)
next
  case False
  then have "tok_type (sym_token s) \<in> {TOKEN_ADD, TOKEN_SUB, TOKEN_MUL}" using assms(3) by auto
  from arithmetic_typing [OF assms(1,2) refl this assms(4,5)] False show ?thesis
    by (auto split: option.splits)
qed

theorem arithmetic_operand_types_witness:
  "(\<exists>e P'. process_arithmetic_operation \<lparr>arr = Arr_block [sample_symbol,
      sample_symbol\<lparr>sym_token := plain_token TOKEN_SUB\<rparr>,
      sample_symbol\<lparr>sym_expr_res := \<lparr>expr_type = T_string, nilable = False\<rparr>\<rparr>], arr_size = 3\<rparr> raw_parser = Some (e, P') \<and>
    expr_err P' = ERR_INCOMPATIBILE_TYPE) \<and>
   (\<exists>e P'. process_arithmetic_operation \<lparr>arr = Arr_block [sample_symbol,
      sample_symbol\<lparr>sym_token := plain_token TOKEN_DIV\<rparr>,
      sample_symbol\<lparr>sym_token := int_token 4\<rparr>], arr_size = 3\<rparr> raw_parser = Some (e, P') \<and>
    sym_expr_res e = \<lparr>expr_type = T_integer, nilable = False\<rparr> \<and> expr_err P' = EXIT_SUCCESS)"
  using arithmetic_operand_types [of T_integer True sample_symbol T_string True
      "sample_symbol\<lparr>sym_expr_res := \<lparr>expr_type = T_string, nilable = False\<rparr>\<rparr>"
      "sample_symbol\<lparr>sym_token := plain_token TOKEN_SUB\<rparr>" raw_parser]
    arithmetic_operand_types [of T_integer True sample_symbol T_integer True "sample_symbol\<lparr>sym_token := int_token 4\<rparr>"
      "sample_symbol\<lparr>sym_token := plain_token TOKEN_DIV\<rparr>" raw_parser]
  by (simp add: operand_def sample_symbol_def plain_token_def int_token_def raw_parser_def ready_wf EXIT_SUCCESS_def
      arithmetic_type_def zero_divisor_def int_val_is_0_def)

text \<open>
  C16. The symbols of a handle, popped from the stack in reverse, are put into the order of the
  text: swapping from both ends reverses an array of any length and stays inside it.
\<close>

theorem handle_reversed:
  "symbol_arr_reverse \<lparr>arr = Arr_block xs, arr_size = length xs\<rparr> = Some \<lparr>arr = Arr_block (rev xs), arr_size = length xs\<rparr>"
  by (rule symbol_arr_reverse_rev)

text \<open>
  C17. The text of a symbol always fits into its fixed buffer, so no symbol overflows it.
\<close>

theorem symbol_text_fits:
  "\<exists>data. convert_token_to_data old t = Some data \<and> sym_token data = t \<and> is_terminal data \<and> \<not> is_handleBegin data \<and>
     length (symbol data) < MAX_TOKEN_SYMBOL_SIZE"
  by (simp add: convert_token_to_data_ok symbol_fits)

text \<open>
  C18. When the symbols of a handle fit no rule and no symbol of the stack stands behind a line
  break, the array of symbols is freed twice.
\<close>

theorem reduce_double_free:
  assumes "is_handleBegin d" "p_budget P = None" "length xs \<le> MAX_EXPR_SIZE" "xs \<noteq> []"
    "\<forall>x\<in>set xs. \<not> is_handleBegin x" "\<not> find_closest_eol (d # st)"
    "get_rule \<lparr>arr = Arr_block (rev xs), arr_size = length xs\<rparr> = Some RULE_NO_RULE"
  shows "reduce (xs @ d # st) P = UB"
  by (rule reduce_no_rule [OF assms])

theorem reduce_double_free_witness:
  "reduce ([sample_symbol\<lparr>sym_token := plain_token TOKEN_ADD\<rparr>] @ sample_symbol\<lparr>is_handleBegin := True\<rparr> # []) raw_parser = UB"
  by (rule reduce_double_free)
    (simp_all add: sample_symbol_def raw_parser_def MAX_EXPR_SIZE_def no_token_def get_rule_def arr_at_def is_operand_def
      is_literal_def plain_token_def)

text \<open>
  C19. A division by an expression in parentheses is reported as a division by zero, whatever the
  value of the divisor. For the integers of the reference grammar this is the result of \<open>expr\<close>: the
  factor \<open>us\<close> has several tokens, so it stands in parentheses, and it may contain any operations.
  For values of both types of numbers it is shown of the two reductions: the symbol of the
  parentheses has the empty token, and the division by it records the error.
\<close>

theorem compound_divisor_rejected:
  assumes "reading toks i (t0 # (ts @ t # us) @ b # vs) P" "phrase (int_var P) 2 ts e" "ex_type e = T_integer"
    "tok_type t = TOKEN_DIV" "phrase (int_var P) 3 us f" "ex_type f = T_integer" "1 < length us" "ends_expression b"
    "expr_err P = EXIT_SUCCESS" "lhs_plain P" "cg_wf (p_cg P)"
  shows "(\<exists>P'. expr P = Some (ERR_SEMANTIC, P')) \<and>
    (\<forall>R l l' x y s lp rp. operand R l x \<and> operand R l' y \<and> R \<in> {T_integer, T_double} \<and> tok_type (sym_token s) = TOKEN_DIV \<longrightarrow>
      (\<exists>c e. process_parenthesis \<lparr>arr = Arr_block [lp, y, rp], arr_size = 3\<rparr> P = Some (c, P) \<and>
        process_arithmetic_operation \<lparr>arr = Arr_block [x, s, c], arr_size = 3\<rparr> P = Some (e, P\<lparr>expr_err := ERR_SEMANTIC\<rparr>)))"
  using expr_compound_division [OF assms] divide_by_parenthesis [OF _ _ _ assms(9)] by blast

theorem compound_divisor_rejected_witness:
  "(\<exists>P'. expr (loaded divided_tokens raw_parser) = Some (ERR_SEMANTIC, P')) \<and>
    (\<exists>c e. process_parenthesis \<lparr>arr = Arr_block [sample_symbol, sample_symbol, sample_symbol], arr_size = 3\<rparr>
        (loaded divided_tokens raw_parser) = Some (c, loaded divided_tokens raw_parser) \<and>
      process_arithmetic_operation \<lparr>arr = Arr_block [sample_symbol, sample_symbol\<lparr>sym_token := plain_token TOKEN_DIV\<rparr>, c], arr_size = 3\<rparr>
        (loaded divided_tokens raw_parser) = Some (e, (loaded divided_tokens raw_parser)\<lparr>expr_err := ERR_SEMANTIC\<rparr>))"
proof -
  let ?P = "loaded divided_tokens raw_parser"
  have r: "reading divided_tokens 0 (plain_token TOKEN_ASS # ([int_token 6] @ plain_token TOKEN_DIV #
      [plain_token TOKEN_L_PAR, int_token 2, plain_token TOKEN_R_PAR]) @ plain_token TOKEN_EOF # []) ?P"
    using loaded_reading [of divided_tokens raw_parser]
    by (simp add: divided_tokens_def plain_token_def int_token_def raw_parser_def)
  have "tok_type (plain_token TOKEN_DIV) = TOKEN_DIV" "ex_type (Num w) = T_integer"
    "1 < length [plain_token TOKEN_L_PAR, int_token 2, plain_token TOKEN_R_PAR]" "ends_expression (plain_token TOKEN_EOF)"
    "expr_err ?P = EXIT_SUCCESS" "lhs_plain ?P" "cg_wf (p_cg ?P)" for w
    by (simp_all add: plain_token_def raw_parser_def ready_wf lhs_plain_def EXIT_SUCCESS_def ends_expression_def
        convert_token_to_index_def)
  note c = compound_divisor_rejected [OF r divided_phrases(1) this(2,1) divided_phrases(2) this(2-)]
  have o: "operand T_integer True sample_symbol" "tok_type (sym_token (sample_symbol\<lparr>sym_token := plain_token TOKEN_DIV\<rparr>)) = TOKEN_DIV"
    by (simp_all add: operand_def sample_symbol_def plain_token_def)
  show ?thesis using c o by blast
qed

text \<open>
  C20. A global variable used in its own initial value is looked up behind a null pointer.
\<close>

theorem self_reference_null:
  assumes "tok_type t = TOKEN_IDENTIFIER" "tok_value t = V_string (it_name it)" "lhs_id P = Some a"
    "sh_items (p_heap P) a = Some it" "\<not> it_is_var_initialized it" "p_stack P = []"
  shows "id_is_defined t P = UB"
  by (rule self_reference [OF assms])

theorem self_reference_null_witness:
  "id_is_defined (name_token ''a'') (raw_parser\<lparr>p_heap := one_heap, lhs_id := Some 0\<rparr>) = UB"
  by (rule self_reference_null [where it = "new_item ''a'' 0" and a = 0])
    (simp_all add: name_token_def raw_parser_def one_item, simp_all add: new_item_def)

section \<open>Statements and programs\<close>

text \<open>
  C8. A program without an error closes every scope it opens and leaves every condition, loop
  and function: after \<open>rule_prog\<close> the stack of scopes is empty and the counters are 0.
\<close>

theorem program_scopes_balanced:
  assumes "rule_prog P = Some (ERR_NO_ERR, P')" "p_stack P = []" "in_cond P = 0" "in_loop P = 0" "\<not> in_func_body P"
    "sh_budget (p_heap P) = None"
  shows "p_stack P' = [] \<and> in_cond P' = 0 \<and> in_loop P' = 0 \<and> \<not> in_func_body P'"
  using assms wlpD [OF stays_top_prog [unfolded stays_top_def, rule_format, of 0 0 0 P] assms(1)]
  by (simp add: top_level_def control_def)

theorem program_scopes_balanced_witness:
  "\<exists>P'. rule_prog (loaded nested_tokens raw_parser) = Some (ERR_NO_ERR, P') \<and>
    p_stack P' = [] \<and> in_cond P' = 0 \<and> in_loop P' = 0 \<and> \<not> in_func_body P'"
proof -
  have "case rule_prog (loaded nested_tokens raw_parser) of None \<Rightarrow> False | Some (e, P') \<Rightarrow> e = ERR_NO_ERR"
    by code_simp
  then obtain P' where "rule_prog (loaded nested_tokens raw_parser) = Some (ERR_NO_ERR, P')"
    by (auto split: option.splits)
  then show ?thesis
    using program_scopes_balanced [of "loaded nested_tokens raw_parser" P'] by (simp add: raw_parser_def loaded_def fresh_heap_def symheap_init_def)
qed

text \<open>
  C9. A statement of a function that succeeds, with all the blocks nested in it, leaves the
  depth of the scopes, the counters of conditions and loops, and the current function as they
  were.
\<close>

theorem statement_scopes_balanced:
  assumes "rule_func_stmt rule_func_body P = Some (ERR_NO_ERR, P')" "sh_budget (p_heap P) = None"
  shows "length (p_stack P') = length (p_stack P) \<and> in_cond P' = in_cond P \<and> in_loop P' = in_loop P \<and>
    in_func_body P' = in_func_body P \<and> last_func_id P' = last_func_id P"
  using wlpD [OF balanced_func_stmt [OF closes_func_body, unfolded balanced_def, rule_format, OF assms(2)] assms(1)]
  by (simp add: control_def)

theorem statement_scopes_balanced_witness:
  "\<exists>P'. rule_func_stmt rule_func_body (in_body return_tokens) = Some (ERR_NO_ERR, P') \<and>
    length (p_stack P') = 1 \<and> in_cond P' = 0 \<and> in_loop P' = 0 \<and> last_func_id P' = Some 0"
proof -
  have "case rule_func_stmt rule_func_body (in_body return_tokens) of None \<Rightarrow> False | Some (e, P') \<Rightarrow> e = ERR_NO_ERR"
    by code_simp
  then obtain P' where "rule_func_stmt rule_func_body (in_body return_tokens) = Some (ERR_NO_ERR, P')"
    by (auto split: option.splits)
  then show ?thesis
    using statement_scopes_balanced [of "in_body return_tokens" P']
    by (simp add: in_body_def raw_parser_def loaded_def fresh_heap_def symheap_init_def)
qed

text \<open>
  C10. In a function with a result, a loop or a condition as the last statement is rejected as a
  missing \<open>return\<close>, also when every path through it returns: the end of a nested block
  forgets the \<open>return\<close> statements seen. The code of the error is 4, that of a wrong type of the
  result; \<open>doc/src/parser.tex\<close> gives 6 for a \<open>return\<close> that is missing inside a function.
\<close>

theorem function_end_return:
  assumes "rule_func_stmt rule_func_body P = Some (ERR_NO_ERR, P1)" "tok_type (curr_tok P) \<in> {TOKEN_IF, TOKEN_WHILE}"
    "tok_type (curr_tok P1) = TOKEN_R_BKT" "in_cond P = 0" "in_loop P = 0" "sh_budget (p_heap P) = None"
    "item_at (last_func_id P1) P1 = Some f" "it_return_type f \<noteq> T_nil"
  shows "\<exists>P'. rule_func_body P = Some (ERR_RETURN_TYPE, P')"
proof -
  have "control P1 = control P"
    using wlpD [OF balanced_func_stmt [OF closes_func_body, unfolded balanced_def, rule_format, OF assms(6)] assms(1)] by simp
  then show ?thesis
    using return_inside_lost [OF assms(2,1,3) _ _ assms(7,8)] assms(4,5) by (simp add: control_def)
qed

theorem function_end_return_witness:
  "\<exists>P'. rule_func_body (in_body return_tokens) = Some (ERR_RETURN_TYPE, P')"
proof -
  have "case rule_func_stmt rule_func_body (in_body return_tokens) of None \<Rightarrow> False
    | Some (e, P1) \<Rightarrow> e = ERR_NO_ERR \<and> tok_type (curr_tok P1) = TOKEN_R_BKT \<and> last_func_id P1 = Some 0 \<and>
        (case sh_items (p_heap P1) 0 of None \<Rightarrow> False | Some f \<Rightarrow> it_return_type f = T_integer)"
    by code_simp
  then obtain P1 f where P1: "rule_func_stmt rule_func_body (in_body return_tokens) = Some (ERR_NO_ERR, P1)"
    "tok_type (curr_tok P1) = TOKEN_R_BKT" "item_at (last_func_id P1) P1 = Some f" "it_return_type f = T_integer"
    by (auto simp: item_at_def split: option.splits)
  show ?thesis
    by (rule function_end_return [OF P1(1) _ P1(2) _ _ _ P1(3)])
      (use P1(4) in \<open>simp_all add: in_body_def loaded_def raw_parser_def return_tokens_def plain_token_def fresh_heap_def symheap_init_def\<close>)
qed

section \<open>The symbol table\<close>

text \<open>
  C21. Inserting a name the table does not have returns, whether or not the table has to
  grow: the invariant holds again, a search finds the new item under the name, and every
  other name keeps its item.
\<close>

theorem symtable_insert_search:
  assumes "st_wf H T" "heap_wf H" "sh_budget H = None" "key \<notin> names H (st_items T)"
    "probe_ends H (st_items T) key" "st_count T < 16398"
  shows "\<exists>T'. symtable_insert (Some T) key H = Some (Some T', after_insert key H, SYMTAB_OK) \<and>
    st_wf (after_insert key H) T' \<and>
    symtable_search (Some T') key (after_insert key H) = Some (Some (sh_fresh H), SYMTAB_OK) \<and>
    (\<forall>k a. symtable_search (Some T) k H = Some (Some a, SYMTAB_OK) \<longrightarrow>
      symtable_search (Some T') k (after_insert key H) = Some (Some a, SYMTAB_OK))"
proof -
  from insert_new [OF assms] obtain T' where T':
    "symtable_insert (Some T) key H = Some (Some T', after_insert key H, SYMTAB_OK)"
    "st_wf (after_insert key H) T'"
    "\<forall>k a. entry (after_insert key H) (st_items T') k a \<longleftrightarrow>
       entry H (st_items T) k a \<or> k = key \<and> a = sh_fresh H" by blast
  have w: "slots_wf H (st_items T)" "length (st_items T) = st_size T"
    "slots_wf (after_insert key H) (st_items T')" "length (st_items T') = st_size T'"
    using assms(1) T'(2) by (simp_all add: st_wf_def)
  show ?thesis
    using T' entry_search [OF w(3,4)] search_ok_entry [OF w(1,2)] by blast
qed

theorem symtable_insert_search_witness:
  "\<exists>T'. symtable_insert (Some fresh_table) ''a'' fresh_heap = Some (Some T', after_insert ''a'' fresh_heap, SYMTAB_OK) \<and>
    st_wf (after_insert ''a'' fresh_heap) T' \<and>
    symtable_search (Some T') ''a'' (after_insert ''a'' fresh_heap) = Some (Some 0, SYMTAB_OK)"
  using symtable_insert_search [OF fresh_wf(1,3,4) _ fresh_ends fresh_room, of "''a''"] fresh_wf(2)
  by (auto simp: fresh_id)

text \<open>
  C22. As long as fewer than half of the slots are taken, every search returns: it finds the
  item of the name, or reports that there is none.
\<close>

theorem symtable_search_total:
  assumes "st_wf H T" "2 * st_count T < st_size T"
  shows "\<exists>r. symtable_search (Some T) key H = Some r \<and>
    (\<forall>a. r = (Some a, SYMTAB_OK) \<longleftrightarrow> entry H (st_items T) key a) \<and>
    ((\<forall>a. \<not> entry H (st_items T) key a) \<longrightarrow> r = (None, SYMTAB_ERR_ITEM_NOT_FOUND))"
proof -
  have w: "slots_wf H (st_items T)" "length (st_items T) = st_size T" "prime_size (length (st_items T))"
    using assms(1) unfolding st_wf_def slots_wf_def by blast+
  have "card (occupied (st_items T)) < (length (st_items T) + 1) div 2"
    using assms by (simp add: st_wf_def)
  then have "probe_ends H (st_items T) key"
    unfolding probe_ends_def using half_full_free [OF w(3)] by blast
  from search_defined [OF w(1,2) this] obtain r where r: "symtable_search (Some T) key H = Some r"
    "r = (None, SYMTAB_ERR_ITEM_NOT_FOUND) \<or> (\<exists>a. r = (Some a, SYMTAB_OK) \<and> entry H (st_items T) key a)" by blast
  have "r = (Some a, SYMTAB_OK)" if "entry H (st_items T) key a" for a
    using entry_search [OF w(1,2) that] r(1) by simp
  with r show ?thesis by (metis option.distinct(1) prod.inject option.inject)
qed

theorem symtable_search_total_witness:
  "\<exists>r. symtable_search (Some one_table) ''b'' one_heap = Some r"
  using symtable_search_total [OF one_wf(1), of "''b''"] by (auto simp: one_table_def)

text \<open>
  C23. The probing reaches only half of the slots, and a table grows only beyond 65 per cent:
  after the six names \<open>a\<close>, \<open>b\<close>, \<open>c\<close>, \<open>g\<close>, \<open>i\<close>, \<open>j\<close> the search for \<open>l\<close> never returns.
\<close>

theorem symtable_search_hangs:
  "\<exists>T0 T H. symtable_init (symheap_init None) = Some (T0, symheap_init None, SYMTAB_OK) \<and>
    insert_all [''a'', ''b'', ''c'', ''g'', ''i'', ''j''] T0 (symheap_init None) = Some (T, H) \<and>
    symtable_search (Some T) ''l'' H = None"
  using six_names fresh_init unfolding fresh_heap_def by blast

text \<open>
  C24. The list of sizes has no end mark: a table of the last size that grows reads behind it.
\<close>

theorem symtable_growth_limit:
  assumes "st_size T = 25229" "20 * st_count T > 13 * 25229"
  shows "check_load T H e = UB"
  using assms by (simp add: check_load_def resize_def primes_def)

theorem symtable_growth_limit_witness:
  "check_load \<lparr>st_items = replicate 25229 None, st_count = 16399, st_size = 25229, st_deactivated = 0\<rparr> fresh_heap SYMTAB_OK = UB"
  by (rule symtable_growth_limit) simp_all

text \<open>
  C25. Deleting a name of the table succeeds, keeps the invariant, and the name is not found
  any more.
\<close>

theorem symtable_delete_search:
  assumes "st_wf H T" "symtable_search (Some T) key H = Some (Some a, SYMTAB_OK)"
  shows "\<exists>T'. symtable_delete (Some T) key H = Some (Some T', after_delete a H, SYMTAB_OK) \<and>
    st_wf (after_delete a H) T' \<and>
    symtable_search (Some T') key (after_delete a H) = Some (None, SYMTAB_ERR_ITEM_NOT_FOUND)"
  using delete_entry [OF assms(1)] search_ok_entry [OF _ _ assms(2)] assms(1) by (auto simp: st_wf_def)

theorem symtable_delete_search_witness:
  "\<exists>T'. symtable_delete (Some one_table) ''a'' one_heap = Some (Some T', after_delete 0 one_heap, SYMTAB_OK) \<and>
    st_wf (after_delete 0 one_heap) T' \<and>
    symtable_search (Some T') ''a'' (after_delete 0 one_heap) = Some (None, SYMTAB_ERR_ITEM_NOT_FOUND)"
  by (rule symtable_delete_search [OF one_wf(1) one_search])

text \<open>
  C26. A deleted name cannot be declared again: the insertion reports success, and the search
  still ends at the deleted item.
\<close>

theorem symtable_redeclare_lost:
  assumes "st_wf H T" "heap_wf H" "sh_budget H = None" "entry H (st_items T) key a"
    "20 * (st_count T + 1) \<le> 13 * st_size T" "st_items T ! path key (st_size T) k = None"
  shows "\<exists>T1 H1 T2 H2. symtable_delete (Some T) key H = Some (Some T1, H1, SYMTAB_OK) \<and>
    symtable_insert (Some T1) key H1 = Some (Some T2, H2, SYMTAB_OK) \<and>
    symtable_search (Some T2) key H2 = Some (None, SYMTAB_ERR_ITEM_NOT_FOUND)"
  by (rule delete_insert_search [OF assms])

theorem symtable_redeclare_lost_witness:
  "\<exists>T1 H1 T2 H2. symtable_delete (Some one_table) ''a'' one_heap = Some (Some T1, H1, SYMTAB_OK) \<and>
    symtable_insert (Some T1) ''a'' H1 = Some (Some T2, H2, SYMTAB_OK) \<and>
    symtable_search (Some T2) ''a'' H2 = Some (None, SYMTAB_ERR_ITEM_NOT_FOUND)"
  by (rule symtable_redeclare_lost [OF one_wf(1,3,4,2) _ one_free]) (simp add: one_table_def)

text \<open>
  C27. \<open>set_type\<close> changes the type of the item of the name and nothing else: every other attribute of
  the item, every other item, and the rest of the heap are as before. The invariant is kept,
  \<open>get_type\<close> reads the type that was stored, and that of every other name is unchanged.
\<close>

theorem symtable_set_get_type:
  assumes "st_wf H T" "entry H (st_items T) key a"
  shows "\<exists>H' it. set_type (Some T) key type H = Some (H', SYMTAB_OK) \<and> sh_items H a = Some it \<and>
    H' = H\<lparr>sh_items := (sh_items H)(a \<mapsto> it\<lparr>it_type := type\<rparr>)\<rparr> \<and> st_wf H' T \<and>
    get_type (Some T) key H' = Some (type, SYMTAB_OK) \<and>
    (\<forall>key' b. key' \<noteq> key \<and> entry H (st_items T) key' b \<longrightarrow> get_type (Some T) key' H' = get_type (Some T) key' H)"
  by (rule set_get_type [OF assms, of type]) blast

theorem symtable_set_get_type_witness:
  "\<exists>H' it. set_type (Some one_table) ''a'' T_double one_heap = Some (H', SYMTAB_OK) \<and> sh_items one_heap 0 = Some it \<and>
    H' = one_heap\<lparr>sh_items := (sh_items one_heap)(0 \<mapsto> it\<lparr>it_type := T_double\<rparr>)\<rparr> \<and> st_wf H' one_table \<and>
    get_type (Some one_table) ''a'' H' = Some (T_double, SYMTAB_OK)"
  using symtable_set_get_type [OF one_wf(1,2), of T_double] by blast

text \<open>
  C28. A parameter added to a function is found by its name: its type is the one set last.
\<close>

theorem symtable_parameter_type:
  assumes "st_wf H T" "entry H (st_items T) fn a" "sh_items H a = Some it" "it_type it = T_function"
    "sh_budget H = None" "name \<notin> p_name ` set (it_parameters it)"
  shows "\<exists>H1 H2. add_param (Some T) fn name H = Some (H1, SYMTAB_OK) \<and>
    set_param_type (Some T) fn name type H1 = Some (H2, SYMTAB_OK) \<and>
    get_param_type (Some T) fn name H2 = Some (type, SYMTAB_OK) \<and> st_wf H2 T"
  by (rule param_type_after_add [OF assms])

theorem symtable_parameter_type_witness:
  "\<exists>H1 H2. add_param (Some one_table) ''a'' ''x'' fun_heap = Some (H1, SYMTAB_OK) \<and>
    set_param_type (Some one_table) ''a'' ''x'' T_string H1 = Some (H2, SYMTAB_OK) \<and>
    get_param_type (Some one_table) ''a'' ''x'' H2 = Some (T_string, SYMTAB_OK) \<and> st_wf H2 one_table"
  by (rule symtable_parameter_type [OF fun_wf(1,2,4) _ fun_wf(3)]) (simp_all add: new_item_def)

section \<open>The scopes\<close>

text \<open>
  C29. A name declared in the innermost scope is what a search of all scopes finds from then
  on, whatever the outer scopes hold.
\<close>

theorem scope_declare_search:
  assumes "scope_wf H (T # Ts)" "st_count T < 16398" "probe_ends H (st_items T) key" "key \<notin> names H (st_items T)"
  shows "\<exists>T' H' a e'. symtable_insert (Some T) key H = Some (Some T', H', SYMTAB_OK) \<and> table_inv H' T' \<and>
    search_scopes (map Some (T' # Ts)) key H' e = Some (Some a, e') \<and>
    sh_items H' a = Some (new_item key (sh_unique_id H))"
  by (rule declare_in_scope [OF assms])

theorem scope_declare_search_witness:
  "\<exists>T' H' a e'. symtable_insert (Some fresh_table) ''a'' one_heap = Some (Some T', H', SYMTAB_OK) \<and> table_inv H' T' \<and>
    search_scopes (map Some [T', one_table]) ''a'' H' SYMTAB_OK = Some (Some a, e') \<and>
    sh_items H' a = Some (new_item ''a'' (sh_unique_id one_heap))"
  by (rule scope_declare_search) (use one_wf fresh_below in \<open>simp_all add: scope_wf_def fresh_room\<close>)

text \<open>
  C30. A search for an initialised variable passes over declarations without a value and
  returns the innermost one that has a value.
\<close>

theorem scope_search_initialized:
  assumes "\<forall>U\<in>set Us. table_inv H U \<and> no_value H key U" "table_inv H T"
    "entry H (st_items T) key a" "sh_items H a = Some it" "it_is_var_initialized it"
  shows "search_scopes_initialized_var (map Some (Us @ T # Ts)) key H e = Some (Some a, SYMTAB_OK)"
  by (rule search_initialized_innermost [OF assms])

theorem scope_search_initialized_witness:
  "search_scopes_initialized_var (map Some ([fresh_table] @ one_table # [])) ''a'' set_heap SYMTAB_OK = Some (Some 0, SYMTAB_OK)"
  by (rule scope_search_initialized) (use set_wf in auto)

text \<open>
  C31. A scope is opened, any names are declared in it, in any number, and it is closed. Whenever the
  declarations return, each name is found in the new table, with an item that was not there before;
  closing then returns without an error, the stack is the one from before, every item of the heap
  is as before, those of the new table are released, and the outer tables are sound.
\<close>

theorem scope_open_close:
  assumes "scope_wf H Ts" "add_scope (map Some Ts) H = Some (Some T # Ss, H0, e)" "insert_all keys T H0 = Some (T', H1)"
  shows "(\<forall>key\<in>set keys. \<exists>a\<ge>sh_fresh H. symtable_search (Some T') key H1 = Some (Some a, SYMTAB_OK)) \<and>
    (\<exists>H2. pop_scope (Some T' # Ss) H1 = Some (map Some Ts, H2, SYMTAB_OK) \<and> sh_items H2 = sh_items H \<and> scope_wf H2 Ts)"
  by (rule open_declare_close [OF assms])

theorem scope_open_close_witness:
  "\<exists>T H0 e H2. add_scope (map Some [one_table]) one_heap = Some (Some T # map Some [one_table], H0, e) \<and>
    insert_all [''a'', ''b''] T H0 = Some (two_table, two_heap) \<and> sh_items two_heap \<noteq> sh_items one_heap \<and>
    pop_scope (Some two_table # map Some [one_table]) two_heap = Some (map Some [one_table], H2, SYMTAB_OK) \<and>
    sh_items H2 = sh_items one_heap"
proof -
  have w: "scope_wf one_heap [one_table]" using one_wf by (simp add: scope_wf_def)
  have a: "add_scope (map Some [one_table]) one_heap = Some (Some fresh_table # map Some [one_table], one_heap, SYMTAB_OK)"
    using one_wf(4) by (simp add: add_scope_def create_local_symtab_def symtable_init_def alloc_None fresh_table_def)
  obtain H2 where "pop_scope (Some two_table # map Some [one_table]) two_heap = Some (map Some [one_table], H2, SYMTAB_OK)"
    "sh_items H2 = sh_items one_heap"
    using scope_open_close [OF w a two_insert] by blast
  with a two_insert two_items show ?thesis by blast
qed

section \<open>The token buffer\<close>

text \<open>
  C32. Filling the empty buffer with tokens and stepping \<open>n\<close> times reads the token with
  number \<open>n\<close>.
\<close>

theorem token_buffer_stream:
  assumes "n < length ts"
  shows "do { B \<leftarrow> tb.push_all ts (tb_init tb_empty_heap); B \<leftarrow> tb.skip n B; tb_get_token B } = Some (ts ! n)"
  by (rule tb.fill_skip_read [OF tb_init_repr assms])

theorem token_buffer_stream_witness:
  "do { B \<leftarrow> tb.push_all [int_token 1, name_token ''x''] (tb_init tb_empty_heap); B \<leftarrow> tb.skip 1 B; tb_get_token B } =
    Some ([int_token 1, name_token ''x''] ! 1)"
  by (rule token_buffer_stream) simp

text \<open>
  C33. Disposing of the buffer releases every node and every string a token owns, each string
  exactly once.
\<close>

theorem token_buffer_dispose:
  assumes "tb_repr B toks i" "\<forall>t\<in>set toks. string_token_ok t"
  shows "\<exists>B'. tb_dispose B = Some B' \<and> tb_nodes B' = Map.empty \<and> tb_head B' = None \<and>
    tb_freed B' = rev (concat (map owned_string toks)) @ tb_freed B"
  by (rule tb_dispose_repr [OF assms])

theorem token_buffer_dispose_witness:
  "\<exists>B B'. tb_repr B [name_token ''x'', int_token 1, text_token ''s''] 0 \<and> tb_dispose B = Some B' \<and>
    tb_nodes B' = Map.empty \<and> tb_head B' = None \<and> tb_freed B' = [''s'', ''x''] @ tb_freed B"
proof -
  let ?ts = "[name_token ''x'', int_token 1, text_token ''s'']"
  obtain B where B: "tb_repr B ?ts 0"
    using tb.push_all_repr [OF tb_init_repr, of ?ts] by auto
  have "\<exists>B'. tb_dispose B = Some B' \<and> tb_nodes B' = Map.empty \<and> tb_head B' = None \<and>
      tb_freed B' = rev (concat (map owned_string ?ts)) @ tb_freed B"
    by (rule token_buffer_dispose [OF B]) (simp add: sample_tokens)
  then show ?thesis using B by (auto simp: sample_tokens)
qed

section \<open>The code generator\<close>

text \<open>
  C34. A loop prints what its body prints at once in front of the loop, and everything the
  body buffers inside, between the labels; in an outer loop all of it is buffered again.
\<close>

theorem generated_loop:
  assumes "prints Q k f es"
  shows "prints Q (Suc k) (run [code_generator_for_label n, f, code_generator_for_loop_end n])
     [Direct (direct es), Buffered (loop_start n @ buffered es @ loop_stop n)]"
  by (rule prints_loop [OF assms])

theorem generated_loop_witness:
  "prints UNIV 1 (run [code_generator_for_label 3, code_generator_clears, code_generator_for_loop_end 3])
     [Direct (direct [Buffered (nl ''CLEARS'')]), Buffered (loop_start 3 @ buffered [Buffered (nl ''CLEARS'')] @ loop_stop 3)]"
  using generated_loop [of UNIV 0 code_generator_clears "[Buffered (nl ''CLEARS'')]" 3]
    prints_BUFFER_PRINT [of "nl ''CLEARS''" UNIV 0] by (simp add: code_generator_clears_def)

text \<open>
  C35. A conditional prints each branch behind its label, and both branches end at the same
  label.
\<close>

theorem generated_conditional:
  assumes "prints Q k f es" "prints Q k g es'"
  shows "prints Q k (run [code_generator_if_header n, f, code_generator_if_else n, g, code_generator_if_end n])
    ([Buffered (nl ''PUSHS bool@true''), Buffered (ln (''JUMPIFNEQS $$ELSE_'' @ print_u n))] @ es @
     [Buffered (nl (''JUMP $$IF_END_'' @ print_u n)), Buffered (ln (''LABEL $$ELSE_'' @ print_u n))] @ es' @
     [Buffered (nl (''LABEL $$IF_END_'' @ print_u n))])"
  by (rule prints_if [OF assms])

theorem generated_conditional_witness:
  "prints UNIV 0 (run [code_generator_if_header 0, Some, code_generator_if_else 0, Some, code_generator_if_end 0])
    ([Buffered (nl ''PUSHS bool@true''), Buffered (ln (''JUMPIFNEQS $$ELSE_'' @ print_u 0))] @ [] @
     [Buffered (nl (''JUMP $$IF_END_'' @ print_u 0)), Buffered (ln (''LABEL $$ELSE_'' @ print_u 0))] @ [] @
     [Buffered (nl (''LABEL $$IF_END_'' @ print_u 0))])"
  by (rule generated_conditional [OF prints_Some prints_Some])

text \<open>
  C36. A call numbers its parameters from 0, creates one frame for them, and leaves the
  counter at 0 for the next call.
\<close>

theorem generated_call:
  assumes "code_generator_need_function_frame name" "plain name" "length ts < 2 ^ 32"
    "list_all2 (\<lambda>t es. \<forall>i. prints {i} k (code_generator_print_value E t) es) ts ess"
  shows "prints {0} k (run [pass_params E name ts, code_generator_function_call name]) (call_events name ess)"
  by (rule prints_call [OF assms])

theorem generated_call_witness:
  "prints {0} 0 (run [pass_params sample_env ''f'' [int_token 7], code_generator_function_call ''f''])
    (call_events ''f'' [[Buffered (''int@'' @ print_d 7)]])"
proof (rule generated_call)
  show "list_all2 (\<lambda>t es. \<forall>i. prints {i} 0 (code_generator_print_value sample_env t) es) [int_token 7] [[Buffered (''int@'' @ print_d 7)]]"
    using prints_int [of "int_token 7" 7] by (simp add: int_token_def)
  show "code_generator_need_function_frame ''f''"
    by (simp add: code_generator_need_function_frame_def no_frame_functions_def)
qed simp_all

text \<open>
  C37. A call inside a loop: the definition of the parameter is printed in front of the loop,
  the frame it belongs to is created inside, behind it.
\<close>

theorem generated_call_in_loop:
  assumes "code_generator_need_function_frame name" "plain name"
    "tok_type t = TOKEN_INT" "tok_value t = V_int w" "cg_wf G" "for_open G = 0" "func_param_id G = 0"
  shows "\<exists>G'. run [code_generator_for_label n,
      run [pass_params E name [t], code_generator_function_call name], code_generator_for_loop_end n] G = Some G' \<and>
    cg_out G' = cg_out G @ nl ''DEFVAR TF@??_0'' @ loop_start n @ nl ''CREATEFRAME'' @
      ''MOVE TF@??_0 int@'' @ print_d w @ [NL] @ ln (''CALL $$FUNCTION_'' @ name) @ loop_stop n"
  by (rule call_in_loop [OF assms])

theorem generated_call_in_loop_witness:
  "\<exists>G'. run [code_generator_for_label 0,
      run [pass_params sample_env ''f'' [int_token 7], code_generator_function_call ''f''], code_generator_for_loop_end 0] ready_codegen = Some G' \<and>
    cg_out G' = cg_out ready_codegen @ nl ''DEFVAR TF@??_0'' @ loop_start 0 @ nl ''CREATEFRAME'' @
      ''MOVE TF@??_0 int@'' @ print_d 7 @ [NL] @ ln (''CALL $$FUNCTION_'' @ ''f'') @ loop_stop 0"
  by (rule generated_call_in_loop) (simp_all add: int_token_def ready_wf code_generator_need_function_frame_def no_frame_functions_def)

text \<open>
  C38. Printing the value of a string literal without a per cent sign prints \<open>string@\<close> and one word,
  at once or, inside a loop, into the buffer, and nothing else; the word has no white space and no
  comment sign, and reading its escapes back gives the literal.
\<close>

theorem generated_string_roundtrip:
  assumes "cg_wf G" "tok_type t = TOKEN_STRING" "tok_value t = V_string s" "CHR ''%'' \<notin> set s"
  shows "\<exists>G' w. code_generator_print_value E t G = Some G' \<and>
    (if for_open G = 0 then cg_out G' = cg_out G @ ''string@'' @ w
     else cg_out G' = cg_out G \<and> ds_abs (print_buffer G') = ds_abs (print_buffer G) @ ''string@'' @ w) \<and>
    unescape w = s \<and> list_all (\<lambda>ch. of_char ch > (32 :: nat) \<and> ch \<noteq> CHR ''#'') w"
proof -
  have "list_all (\<lambda>ch. of_char ch > (32 :: nat) \<and> ch \<noteq> CHR ''#'') (escape s)"
    using escape_word [of _ s] unfolding list_all_iff by blast
  then show ?thesis using printed_string [OF assms, of E] unescape_escape [of s] by blast
qed

theorem generated_string_roundtrip_witness:
  "\<exists>G' w. code_generator_print_value sample_env ((plain_token TOKEN_STRING)\<lparr>tok_value := V_string ''a #b''\<rparr>) ready_codegen = Some G' \<and>
    cg_out G' = cg_out ready_codegen @ ''string@'' @ w \<and> unescape w = ''a #b'' \<and>
    list_all (\<lambda>ch. of_char ch > (32 :: nat) \<and> ch \<noteq> CHR ''#'') w"
  using generated_string_roundtrip [OF ready_wf(1), of "(plain_token TOKEN_STRING)\<lparr>tok_value := V_string ''a #b''\<rparr>" "''a #b''" sample_env]
  by (simp add: plain_token_def ready_codegen_def codegen_init_def)

text \<open>
  C39. A per cent sign in a string literal is undefined outside loops: the text of the program
  is the format of \<open>printf\<close>.
\<close>

theorem generated_string_percent:
  assumes "cg_wf G" "for_open G = 0" "tok_type t = TOKEN_STRING" "tok_value t = V_string s" "CHR ''%'' \<in> set s"
  shows "code_generator_print_value E t G = UB"
  by (rule string_percent [OF assms])

theorem generated_string_percent_witness:
  "code_generator_print_value sample_env (text_token ''5% off'') ready_codegen = UB"
  by (rule generated_string_percent [where s = "''5% off''"]) (simp_all add: text_token_def ready_wf)

section \<open>Dynamic strings and the token printer\<close>

text \<open>
  C40. Appending a character to a well-formed dynamic string returns; it succeeds unless the
  allocator fails, and then the content is extended by the character.
\<close>

theorem dstring_append_content:
  assumes "ds_wf d"
  shows "\<exists>ok d' m'. dstring_append d ch m = Some (ok, d', m') \<and>
    (ok \<longrightarrow> ds_wf d' \<and> ds_abs d' = ds_abs d @ [ch]) \<and> (m = None \<longrightarrow> ok \<and> m' = None)"
  by (rule ds.app_law [OF assms])

theorem dstring_append_content_witness:
  "\<exists>d'. dstring_append \<lparr>ds_str = [Some NUL], ds_length = 0, ds_alloc_size = 1\<rparr> CHR ''x'' None = Some (True, d', None) \<and>
    ds_wf d' \<and> ds_abs d' = ''x''"
proof -
  let ?d = "\<lparr>ds_str = [Some NUL], ds_length = 0, ds_alloc_size = 1\<rparr>"
  have "ds_wf ?d" "ds_abs ?d = []" by (simp_all add: ds_wf_def ds_abs_def)
  then show ?thesis using dstring_append_content [of ?d "CHR ''x''" None] by auto
qed

text \<open>
  The debug printer of tokens runs one step behind its tables, whatever the token.
\<close>

theorem print_token_undefined: "print_token t = UB"
  unfolding print_token_def by (rule print_token_loop_UB [of 38]) (simp_all add: tokens_count_def table_lengths)

end
